(* ===== verification/Identity.thy ===== *)
theory Identity
  imports Prelude
begin

text \<open>
  Ed25519 identities (\<open>identity/native_identity.rs\<close>) and the boxes sealed to an X25519 key
  (\<open>node/sealed_box.rs\<close>). The primitives come from crates the repository only calls (sha2, base64,
  hex, bs58, ed25519-dalek, x25519-dalek, hkdf, aes-gcm): they are the fields of the record
  \<open>crypto\<close>, an argument of every definition that uses them, and what the code relies on of them is
  stated by the predicates \<open>encoding_laws\<close>, \<open>signature_laws\<close> and \<open>box_laws\<close>.
\<close>

record crypto =
  sha256 :: "bytes \<Rightarrow> bytes"
  sha512 :: "bytes \<Rightarrow> bytes"
  hex_encode :: "bytes \<Rightarrow> string"
  hex_decode :: "string \<Rightarrow> bytes option"
  b64_encode :: "bytes \<Rightarrow> string"
  b64_decode :: "string \<Rightarrow> bytes option"
  b64url_encode :: "bytes \<Rightarrow> string"
  b64url_decode :: "string \<Rightarrow> bytes option"
  bs58_encode :: "bytes \<Rightarrow> string"
  bs58_decode :: "string \<Rightarrow> bytes option"
  ed_public :: "bytes \<Rightarrow> bytes"
  ed_sign :: "bytes \<Rightarrow> bytes \<Rightarrow> bytes"
  ed_key_error :: "bytes \<Rightarrow> string option"
  ed_verify_strict :: "bytes \<Rightarrow> bytes \<Rightarrow> bytes \<Rightarrow> bool"
  ed_scalar :: "bytes \<Rightarrow> bytes"
  ed_montgomery :: "bytes \<Rightarrow> bytes option"
  x_public :: "bytes \<Rightarrow> bytes"
  x_agree :: "bytes \<Rightarrow> bytes \<Rightarrow> bytes"
  x_contributory :: "bytes \<Rightarrow> bool"
  hkdf_44 :: "bytes \<Rightarrow> bytes \<Rightarrow> bytes \<Rightarrow> bytes option"
  aes_encrypt :: "bytes \<Rightarrow> bytes \<Rightarrow> bytes \<Rightarrow> bytes \<Rightarrow> bytes option"
  aes_decrypt :: "bytes \<Rightarrow> bytes \<Rightarrow> bytes \<Rightarrow> bytes \<Rightarrow> bytes option"

text \<open>Base64, hex and base58 decode what they encode; a digest has 32 bytes and \<open>hex::encode\<close> writes
  two lowercase characters a byte.\<close>

definition lowercase_hex_char :: "char \<Rightarrow> bool" where
  "lowercase_hex_char b \<longleftrightarrow> is_ascii_digit b \<or> 97 \<le> code_of b \<and> code_of b \<le> 102"

definition encoding_laws :: "('a) crypto_scheme \<Rightarrow> bool" where
  "encoding_laws C \<longleftrightarrow>
     (\<forall>bs. b64_decode C (b64_encode C bs) = Some bs \<and> length (b64_encode C bs) = 4 * ((length bs + 2) div 3))
     \<and> (\<forall>bs. b64url_decode C (b64url_encode C bs) = Some bs)
     \<and> (\<forall>bs. bs58_decode C (bs58_encode C bs) = Some bs)
     \<and> (\<forall>bs. length (sha256 C bs) = 32)
     \<and> (\<forall>bs. length (hex_encode C bs) = 2 * length bs \<and> list_all lowercase_hex_char (hex_encode C bs))"

definition signature_laws :: "('a) crypto_scheme \<Rightarrow> bool" where
  "signature_laws C \<longleftrightarrow>
     (\<forall>sk. length sk = 32 \<longrightarrow> length (ed_public C sk) = 32 \<and> ed_key_error C (ed_public C sk) = None)
     \<and> (\<forall>sk msg. length sk = 32 \<longrightarrow>
          length (ed_sign C sk msg) = 64 \<and> ed_verify_strict C (ed_public C sk) (ed_sign C sk msg) msg)"

definition box_laws :: "('a) crypto_scheme \<Rightarrow> bool" where
  "box_laws C \<longleftrightarrow>
     (\<forall>sk. length sk = 32 \<longrightarrow> length (x_public C sk) = 32)
     \<and> (\<forall>sk. length sk = 32 \<longrightarrow> ed_montgomery C (ed_public C sk) = Some (x_public C (ed_scalar C sk)))
     \<and> (\<forall>a b. x_agree C a (x_public C b) = x_agree C b (x_public C a))
     \<and> (\<forall>k n aad msg ct. aes_encrypt C k n aad msg = Some ct \<longrightarrow> aes_decrypt C k n aad ct = Some msg)"

section \<open>Native identity\<close>

record native_keypair =
  signing_key :: bytes
  cached_peer_id :: string

definition public_header :: bytes where
  "public_header = [CHR 0x08, CHR 0x01, CHR 0x12, CHR 0x20]"

definition keypair_header :: bytes where
  "keypair_header = [CHR 0x08, CHR 0x01, CHR 0x12, CHR 0x40]"

definition compute_peer_id :: "('a) crypto_scheme \<Rightarrow> bytes \<Rightarrow> string" where
  "compute_peer_id C sk =
     (let pubkey_proto = public_header @ ed_public C sk;
          multihash = [CHR 0x00, char_of (length pubkey_proto)] @ pubkey_proto
      in bs58_encode C multihash)"

definition from_secret_bytes :: "('a) crypto_scheme \<Rightarrow> bytes \<Rightarrow> native_keypair" where
  "from_secret_bytes C sk = \<lparr>signing_key = sk, cached_peer_id = compute_peer_id C sk\<rparr>"

definition from_mnemonic :: "('a) crypto_scheme \<Rightarrow> bytes \<Rightarrow> native_keypair" where
  "from_mnemonic C seed = from_secret_bytes C (take 32 seed)"

definition from_protobuf_encoding :: "('a) crypto_scheme \<Rightarrow> bytes \<Rightarrow> string + native_keypair" where
  "from_protobuf_encoding C bs =
     (if length bs < 68
      then Inl (''Protobuf too short: expected >=68 bytes, got '' @ show_nat (length bs))
      else if take 4 bs \<noteq> keypair_header then Inl ''Invalid protobuf header for Ed25519 keypair''
      else (let kp = from_secret_bytes C (take 32 (drop 4 bs)) in
            if ed_public C (signing_key kp) \<noteq> take 32 (drop 36 bs)
            then Inl ''Public key mismatch in protobuf encoding''
            else Inr kp))"

definition to_protobuf_encoding :: "('a) crypto_scheme \<Rightarrow> native_keypair \<Rightarrow> bytes" where
  "to_protobuf_encoding C kp = keypair_header @ signing_key kp @ ed_public C (signing_key kp)"

definition peer_id :: "native_keypair \<Rightarrow> string" where
  "peer_id kp = cached_peer_id kp"

definition kp_sign :: "('a) crypto_scheme \<Rightarrow> native_keypair \<Rightarrow> bytes \<Rightarrow> bytes" where
  "kp_sign C kp msg = ed_sign C (signing_key kp) msg"

definition public_key_protobuf :: "('a) crypto_scheme \<Rightarrow> native_keypair \<Rightarrow> bytes" where
  "public_key_protobuf C kp = public_header @ ed_public C (signing_key kp)"

definition peer_id_from_pubkey_protobuf :: "('a) crypto_scheme \<Rightarrow> bytes \<Rightarrow> string option" where
  "peer_id_from_pubkey_protobuf C pk =
     (if length pk \<noteq> 36 \<or> take 4 pk \<noteq> public_header then None
      else Some (bs58_encode C ([CHR 0x00, char_of (length pk)] @ pk)))"

definition verify_peer_signature ::
  "('a) crypto_scheme \<Rightarrow> bytes \<Rightarrow> bytes \<Rightarrow> bytes \<Rightarrow> string + bool" where
  "verify_peer_signature C pk sig payload =
     (if length pk \<noteq> 36 then Inl ''Public key protobuf must be 36 bytes''
      else if take 4 pk \<noteq> public_header then Inl ''Invalid protobuf header for Ed25519 public key''
      else (let pub_bytes = drop 4 pk in
            case ed_key_error C pub_bytes of
              Some e \<Rightarrow> Inl (''Invalid pubkey: '' @ e)
            | None \<Rightarrow>
                if length sig \<noteq> 64 then Inl ''Signature must be 64 bytes''
                else Inr (ed_verify_strict C pub_bytes sig payload)))"

lemma length_headers [simp]: "length public_header = 4" "length keypair_header = 4"
  by (simp_all add: public_header_def keypair_header_def)

lemma encoding_lawsD [simp]:
  "encoding_laws C \<Longrightarrow> b64_decode C (b64_encode C bs) = Some bs"
  "encoding_laws C \<Longrightarrow> b64url_decode C (b64url_encode C bs) = Some bs"
  "encoding_laws C \<Longrightarrow> bs58_decode C (bs58_encode C bs) = Some bs"
  "encoding_laws C \<Longrightarrow> length (sha256 C bs) = 32"
  "encoding_laws C \<Longrightarrow> length (hex_encode C bs) = 2 * length bs"
  "encoding_laws C \<Longrightarrow> list_all lowercase_hex_char (hex_encode C bs)"
  "encoding_laws C \<Longrightarrow> length (b64_encode C bs) = 4 * ((length bs + 2) div 3)"
  by (simp_all add: encoding_laws_def)

lemma bs58_inject: "encoding_laws C \<Longrightarrow> bs58_encode C xs = bs58_encode C ys \<longleftrightarrow> xs = ys"
  by (metis encoding_lawsD(3) option.inject)

lemma signature_lawsD [simp]:
  "signature_laws C \<Longrightarrow> length sk = 32 \<Longrightarrow> length (ed_public C sk) = 32"
  "signature_laws C \<Longrightarrow> length sk = 32 \<Longrightarrow> ed_key_error C (ed_public C sk) = None"
  "signature_laws C \<Longrightarrow> length sk = 32 \<Longrightarrow> length (ed_sign C sk msg) = 64"
  "signature_laws C \<Longrightarrow> length sk = 32 \<Longrightarrow> ed_verify_strict C (ed_public C sk) (ed_sign C sk msg) msg"
  by (simp_all add: signature_laws_def)

lemma public_key_protobuf_id:
  assumes "signature_laws C" and "length sk = 32"
  shows "peer_id_from_pubkey_protobuf C (public_key_protobuf C (from_secret_bytes C sk))
       = Some (peer_id (from_secret_bytes C sk))"
  using assms
  by (simp add: peer_id_from_pubkey_protobuf_def public_key_protobuf_def from_secret_bytes_def
      compute_peer_id_def peer_id_def Let_def)

lemma verify_own_signature:
  assumes "signature_laws C" and "length sk = 32"
  shows "verify_peer_signature C (public_key_protobuf C (from_secret_bytes C sk))
           (kp_sign C (from_secret_bytes C sk) msg) msg = Inr True"
  using assms
  by (simp add: verify_peer_signature_def public_key_protobuf_def from_secret_bytes_def kp_sign_def)

lemma peer_id_from_pubkey_inject:
  assumes "encoding_laws C" and "peer_id_from_pubkey_protobuf C p = Some d"
    and "peer_id_from_pubkey_protobuf C q = Some d"
  shows "p = q"
  using assms by (auto simp: peer_id_from_pubkey_protobuf_def bs58_inject split: if_splits)

section \<open>Sealed boxes\<close>

record sealed =
  eph :: string
  ct :: string

definition public_of :: "('a) crypto_scheme \<Rightarrow> bytes \<Rightarrow> bytes" where
  "public_of C sk = x_public C sk"

definition key_to_text :: "('a) crypto_scheme \<Rightarrow> bytes \<Rightarrow> string" where
  "key_to_text C key = b64url_encode C key"

definition key_from_text :: "('a) crypto_scheme \<Rightarrow> string \<Rightarrow> bytes option" where
  "key_from_text C text = opt_filter (\<lambda>k. length k = 32) (b64url_decode C text)"

definition cipher :: "('a) crypto_scheme \<Rightarrow> bytes \<Rightarrow> bytes \<Rightarrow> bytes \<Rightarrow> (bytes \<times> bytes) option" where
  "cipher C shared salt domain =
     (case hkdf_44 C salt shared domain of
        None \<Rightarrow> None
      | Some okm \<Rightarrow> Some (take 32 okm, drop 32 okm))"

definition agree :: "('a) crypto_scheme \<Rightarrow> bytes \<Rightarrow> bytes \<Rightarrow> bytes option" where
  "agree C secret public =
     (let shared = x_agree C secret public in if x_contributory C shared then Some shared else None)"

definition seal_with ::
  "('a) crypto_scheme \<Rightarrow> bytes \<Rightarrow> bytes \<Rightarrow> bytes \<Rightarrow> bytes \<Rightarrow> bytes \<Rightarrow> bytes \<Rightarrow> sealed option" where
  "seal_with C eph_secret shared salt domain aad plain =
     (case cipher C shared salt domain of
        None \<Rightarrow> None
      | Some (key, nonce) \<Rightarrow>
          (case aes_encrypt C key nonce aad plain of
             None \<Rightarrow> None
           | Some c \<Rightarrow> Some \<lparr>eph = b64_encode C (public_of C eph_secret), ct = b64_encode C c\<rparr>))"

definition box_decode :: "('a) crypto_scheme \<Rightarrow> string \<Rightarrow> string \<Rightarrow> (bytes \<times> bytes) option" where
  "box_decode C e c =
     (case opt_filter (\<lambda>k. length k = 32) (b64_decode C e) of
        None \<Rightarrow> None
      | Some eb \<Rightarrow> (case b64_decode C c of None \<Rightarrow> None | Some cb \<Rightarrow> Some (eb, cb)))"

definition open_with :: "('a) crypto_scheme \<Rightarrow> bytes \<Rightarrow> bytes \<Rightarrow> bytes \<Rightarrow> bytes \<Rightarrow> bytes \<Rightarrow> bytes option" where
  "open_with C shared salt domain aad c =
     (case cipher C shared salt domain of
        None \<Rightarrow> None
      | Some (key, nonce) \<Rightarrow> aes_decrypt C key nonce aad c)"

text \<open>Each sealing function draws a fresh secret; here it is the argument \<open>eph_secret\<close>.\<close>

definition seal :: "('a) crypto_scheme \<Rightarrow> bytes \<Rightarrow> bytes \<Rightarrow> bytes \<Rightarrow> bytes \<Rightarrow> bytes \<Rightarrow> sealed option" where
  "seal C eph_secret recipient domain aad plain =
     (case agree C eph_secret recipient of
        None \<Rightarrow> None
      | Some shared \<Rightarrow>
          seal_with C eph_secret shared (public_of C eph_secret @ recipient) domain aad plain)"

definition box_open :: "('a) crypto_scheme \<Rightarrow> bytes \<Rightarrow> bytes \<Rightarrow> bytes \<Rightarrow> string \<Rightarrow> string \<Rightarrow> bytes option" where
  "box_open C secret domain aad e c =
     (case box_decode C e c of
        None \<Rightarrow> None
      | Some (eb, cb) \<Rightarrow>
          (case agree C secret eb of
             None \<Rightarrow> None
           | Some shared \<Rightarrow> open_with C shared (eb @ public_of C secret) domain aad cb))"

definition seal_to_both ::
  "('a) crypto_scheme \<Rightarrow> bytes \<Rightarrow> bytes \<Rightarrow> bytes \<Rightarrow> bytes \<Rightarrow> bytes \<Rightarrow> bytes \<Rightarrow> sealed option" where
  "seal_to_both C eph_secret a b domain aad plain =
     (case (agree C eph_secret a, agree C eph_secret b) of
        (Some sa, Some sb) \<Rightarrow>
          seal_with C eph_secret (sa @ sb) (public_of C eph_secret @ a @ b) domain aad plain
      | _ \<Rightarrow> None)"

definition open_with_both ::
  "('a) crypto_scheme \<Rightarrow> bytes \<Rightarrow> bytes \<Rightarrow> bytes \<Rightarrow> bytes \<Rightarrow> string \<Rightarrow> string \<Rightarrow> bytes option" where
  "open_with_both C a b domain aad e c =
     (case box_decode C e c of
        None \<Rightarrow> None
      | Some (eb, cb) \<Rightarrow>
          (case (agree C a eb, agree C b eb) of
             (Some sa, Some sb) \<Rightarrow>
               open_with C (sa @ sb) (eb @ public_of C a @ public_of C b) domain aad cb
           | _ \<Rightarrow> None))"

definition seal_from ::
  "('a) crypto_scheme \<Rightarrow> bytes \<Rightarrow> bytes \<Rightarrow> bytes \<Rightarrow> bytes \<Rightarrow> bytes \<Rightarrow> bytes \<Rightarrow> sealed option" where
  "seal_from C eph_secret recipient ours domain aad plain =
     (case (agree C eph_secret recipient, agree C ours recipient) of
        (Some se, Some so) \<Rightarrow>
          seal_with C eph_secret (se @ so) (public_of C eph_secret @ recipient @ public_of C ours) domain aad plain
      | _ \<Rightarrow> None)"

definition open_from ::
  "('a) crypto_scheme \<Rightarrow> bytes \<Rightarrow> bytes \<Rightarrow> bytes \<Rightarrow> bytes \<Rightarrow> string \<Rightarrow> string \<Rightarrow> bytes option" where
  "open_from C secret sender domain aad e c =
     (case box_decode C e c of
        None \<Rightarrow> None
      | Some (eb, cb) \<Rightarrow>
          (case (agree C secret eb, agree C secret sender) of
             (Some se, Some ss) \<Rightarrow>
               open_with C (se @ ss) (eb @ public_of C secret @ sender) domain aad cb
           | _ \<Rightarrow> None))"

lemma box_lawsD:
  "box_laws C \<Longrightarrow> length sk = 32 \<Longrightarrow> length (public_of C sk) = 32"
  "box_laws C \<Longrightarrow> agree C a (public_of C b) = agree C b (public_of C a)"
  "box_laws C \<Longrightarrow> aes_encrypt C k n aad msg = Some c \<Longrightarrow> aes_decrypt C k n aad c = Some msg"
  by (simp_all add: box_laws_def public_of_def agree_def)

lemma box_decode_sealed:
  assumes "encoding_laws C" and "box_laws C" and "length e = 32"
    and "seal_with C e shared salt domain aad plain = Some b"
  obtains c where "box_decode C (eph b) (ct b) = Some (public_of C e, c)"
    and "open_with C shared salt domain aad c = Some plain"
  using assms
  by (auto simp: seal_with_def box_decode_def open_with_def box_lawsD split: option.splits prod.splits)

lemma box_open_sealed:
  assumes "encoding_laws C" and "box_laws C" and "length e = 32"
    and "seal C e (public_of C s) d aad p = Some b"
  shows "box_open C s d aad (eph b) (ct b) = Some p"
proof -
  obtain sh where sh: "agree C e (public_of C s) = Some sh"
    and b: "seal_with C e sh (public_of C e @ public_of C s) d aad p = Some b"
    using assms(4) by (auto simp: seal_def split: option.splits)
  show ?thesis
    by (rule box_decode_sealed [OF assms(1-3) b])
      (simp add: box_open_def sh box_lawsD(2) [OF assms(2), of s e])
qed

lemma open_both_sealed:
  assumes "encoding_laws C" and "box_laws C" and "length e = 32"
    and "seal_to_both C e (public_of C s) (public_of C t) d aad p = Some b"
  shows "open_with_both C s t d aad (eph b) (ct b) = Some p"
proof -
  obtain sa sb where sh: "agree C e (public_of C s) = Some sa" "agree C e (public_of C t) = Some sb"
    and b: "seal_with C e (sa @ sb) (public_of C e @ public_of C s @ public_of C t) d aad p = Some b"
    using assms(4) by (auto simp: seal_to_both_def split: option.splits)
  show ?thesis
    by (rule box_decode_sealed [OF assms(1-3) b])
      (simp add: open_with_both_def sh box_lawsD(2) [OF assms(2), of s e] box_lawsD(2) [OF assms(2), of t e])
qed

lemma open_from_sealed:
  assumes "encoding_laws C" and "box_laws C" and "length e = 32"
    and "seal_from C e (public_of C s) t d aad p = Some b"
  shows "open_from C s (public_of C t) d aad (eph b) (ct b) = Some p"
proof -
  obtain se so where sh: "agree C e (public_of C s) = Some se" "agree C t (public_of C s) = Some so"
    and b: "seal_with C e (se @ so) (public_of C e @ public_of C s @ public_of C t) d aad p = Some b"
    using assms(4) by (auto simp: seal_from_def split: option.splits)
  show ?thesis
    by (rule box_decode_sealed [OF assms(1-3) b])
      (simp add: open_from_def sh box_lawsD(2) [OF assms(2), of s e] box_lawsD(2) [OF assms(2), of s t])
qed

section \<open>A sample instance of the primitives\<close>

text \<open>Concrete functions that satisfy the three groups of laws: the examples of the development
  evaluate with them. Nothing but the laws is used of the primitives elsewhere.\<close>

definition nibble :: "nat \<Rightarrow> char" where
  "nibble n = (if n < 10 then char_of (48 + n) else char_of (87 + n))"

definition sample_b64 :: "bytes \<Rightarrow> string" where
  "sample_b64 bs =
     (if bs = [] then []
      else replicate (4 * ((length bs + 2) div 3) - length bs - 1) (CHR ''A'') @ CHR ''B'' # bs)"

definition sample_unb64 :: "string \<Rightarrow> bytes option" where
  "sample_unb64 s =
     (case dropWhile (\<lambda>c. c = CHR ''A'') s of
        [] \<Rightarrow> if s = [] then Some [] else None
      | c # cs \<Rightarrow> if c = CHR ''B'' then Some cs else None)"

definition sample_sign :: "bytes \<Rightarrow> bytes \<Rightarrow> bytes" where
  "sample_sign sk msg = take 64 (sk @ rev msg @ replicate 64 (CHR 0x00))"

definition sample_hex :: "bytes \<Rightarrow> string" where
  "sample_hex bs = concat (map (\<lambda>b. [nibble (code_of b div 16), nibble (code_of b mod 16)]) bs)"

definition sample_sha :: "bytes \<Rightarrow> bytes" where
  "sample_sha bs = take 32 (rev bs @ replicate 32 (CHR 0x00))"

definition sample_agree :: "bytes \<Rightarrow> bytes \<Rightarrow> bytes" where
  "sample_agree a b = (if a \<le> b then a @ b else b @ a)"

definition sample_hkdf :: "bytes \<Rightarrow> bytes \<Rightarrow> bytes \<Rightarrow> bytes" where
  "sample_hkdf salt shared domain = take 44 (shared @ salt @ domain @ replicate 44 (CHR 0x00))"

definition sample_crypto :: crypto where
  "sample_crypto =
     \<lparr>sha256 = sample_sha, sha512 = (\<lambda>bs. sample_sha bs @ sample_sha (rev bs)),
      hex_encode = sample_hex,
      hex_decode = (\<lambda>s. Some (take (length s div 2) s)),
      b64_encode = sample_b64, b64_decode = sample_unb64,
      b64url_encode = sample_b64, b64url_decode = sample_unb64,
      bs58_encode = (\<lambda>bs. bs), bs58_decode = Some,
      ed_public = (\<lambda>sk. sk), ed_sign = sample_sign, ed_key_error = (\<lambda>_. None),
      ed_verify_strict = (\<lambda>pk sig msg. sig = sample_sign pk msg),
      ed_scalar = (\<lambda>sk. sk), ed_montgomery = Some,
      x_public = (\<lambda>sk. sk), x_agree = sample_agree,
      x_contributory = (\<lambda>_. True),
      hkdf_44 = (\<lambda>salt shared domain. Some (sample_hkdf salt shared domain)),
      aes_encrypt = (\<lambda>k n aad msg. Some (n @ msg)),
      aes_decrypt = (\<lambda>k n aad c. if take (length n) c = n then Some (drop (length n) c) else None)\<rparr>"

lemma nibble_hex: "n < 16 \<Longrightarrow> lowercase_hex_char (nibble n)"
  by (auto simp: nibble_def lowercase_hex_char_def is_ascii_digit_def)

lemma sample_unb64 [simp]: "sample_unb64 (sample_b64 bs) = Some bs"
proof -
  have "dropWhile (\<lambda>c. c = CHR ''A'') (replicate n (CHR ''A'') @ CHR ''B'' # bs) = CHR ''B'' # bs" for n
    by (induction n) simp_all
  then show ?thesis
    by (simp add: sample_b64_def sample_unb64_def)
qed

lemma length_sample_b64: "length (sample_b64 bs) = 4 * ((length bs + 2) div 3)"
proof -
  have "Suc (length bs) \<le> 4 * ((length bs + 2) div 3)" if "bs \<noteq> []"
  proof -
    have "0 < length bs" using that by simp
    then show ?thesis by presburger
  qed
  then show ?thesis
    by (cases "bs = []") (simp_all add: sample_b64_def)
qed

lemma sample_crypto_simps [simp]:
  "sha256 sample_crypto = sample_sha" "hex_encode sample_crypto = sample_hex"
  "b64_encode sample_crypto = sample_b64" "b64_decode sample_crypto = sample_unb64"
  "b64url_encode sample_crypto = sample_b64" "b64url_decode sample_crypto = sample_unb64"
  "bs58_encode sample_crypto = (\<lambda>bs. bs)" "bs58_decode sample_crypto = Some"
  "ed_scalar sample_crypto = (\<lambda>sk. sk)" "ed_montgomery sample_crypto = Some" "ed_public sample_crypto = (\<lambda>sk. sk)"
  "ed_sign sample_crypto = sample_sign" "ed_key_error sample_crypto = (\<lambda>_. None)"
  "ed_verify_strict sample_crypto = (\<lambda>pk sig msg. sig = sample_sign pk msg)"
  "x_public sample_crypto = (\<lambda>sk. sk)" "x_agree sample_crypto = sample_agree"
  "x_contributory sample_crypto = (\<lambda>_. True)"
  "hkdf_44 sample_crypto salt shared domain = Some (sample_hkdf salt shared domain)"
  "aes_encrypt sample_crypto k n aad msg = Some (n @ msg)"
  "aes_decrypt sample_crypto k n aad c = (if take (length n) c = n then Some (drop (length n) c) else None)"
  by (simp_all add: sample_crypto_def)

lemma sample_hex: "length (sample_hex bs) = 2 * length bs \<and> list_all lowercase_hex_char (sample_hex bs)"
proof (induction bs)
  case (Cons b bs)
  have "code_of b div 16 < 16"
    by (simp add: less_mult_imp_div_less)
  with Cons show ?case by (simp add: sample_hex_def nibble_hex)
qed (simp add: sample_hex_def)

lemma length_padded: "length (take n (xs @ replicate n x)) = n"
  by (simp only: length_take length_append length_replicate)

lemma sample_encoding_laws: "encoding_laws sample_crypto"
proof -
  have "length (sample_sha bs) = 32" for bs
    unfolding sample_sha_def by (rule length_padded)
  then show ?thesis
    using sample_hex by (simp add: encoding_laws_def length_sample_b64)
qed

lemma sample_signature_laws: "signature_laws sample_crypto"
proof -
  have "length (sample_sign sk msg) = 64" for sk msg
    unfolding sample_sign_def append_assoc [symmetric] by (rule length_padded)
  then show ?thesis
    by (simp add: signature_laws_def)
qed

lemma sample_box_laws: "box_laws sample_crypto"
proof -
  have swap: "sample_agree a b = sample_agree b a" for a b
    by (metis linorder_le_cases order_antisym sample_agree_def)
  show ?thesis
    unfolding box_laws_def sample_crypto_simps using swap by auto
qed

lemma sample_seal: "\<exists>b. seal sample_crypto e r d a p = Some b"
  by (simp add: seal_def seal_with_def agree_def cipher_def)

section \<open>Correctness of identities and boxes\<close>

text \<open>A stored keypair reads back as itself, its public encoding derives its own peer id, and what
  it signs verifies under that encoding; a stored key with any byte of the header or of the public
  half changed is refused.\<close>

theorem keypair_round_trip:
  assumes "signature_laws C" and "length sk = 32"
  shows "from_protobuf_encoding C (to_protobuf_encoding C (from_secret_bytes C sk)) = Inr (from_secret_bytes C sk)
    \<and> peer_id_from_pubkey_protobuf C (public_key_protobuf C (from_secret_bytes C sk))
        = Some (peer_id (from_secret_bytes C sk))
    \<and> verify_peer_signature C (public_key_protobuf C (from_secret_bytes C sk))
        (kp_sign C (from_secret_bytes C sk) msg) msg = Inr True
    \<and> (\<forall>h p. length h = 4 \<and> length p = 32 \<and> (h \<noteq> keypair_header \<or> p \<noteq> ed_public C sk) \<longrightarrow>
         (\<exists>e. from_protobuf_encoding C (h @ sk @ p) = Inl e))"
  using assms public_key_protobuf_id [OF assms] verify_own_signature [OF assms]
  by (auto simp: from_protobuf_encoding_def to_protobuf_encoding_def Let_def from_secret_bytes_def)

theorem keypair_round_trip_witness:
  "from_protobuf_encoding sample_crypto
     (to_protobuf_encoding sample_crypto (from_secret_bytes sample_crypto (replicate 32 (CHR ''k''))))
   = Inr (from_secret_bytes sample_crypto (replicate 32 (CHR ''k'')))"
  using keypair_round_trip [OF sample_signature_laws, of "replicate 32 (CHR ''k'')"] by simp

text \<open>C33: A box sealed to a key, to two keys at once, or from one key to another, opens to the
  plaintext for the holder of the matching secret or secrets, under the same domain and
  associated data.\<close>

theorem sealed_box_round_trip:
  assumes "encoding_laws C" and "box_laws C" and "length e = 32"
  shows "(seal C e (public_of C s) d aad p = Some b \<longrightarrow> box_open C s d aad (eph b) (ct b) = Some p)
    \<and> (seal_to_both C e (public_of C s) (public_of C t) d aad p = Some b \<longrightarrow>
         open_with_both C s t d aad (eph b) (ct b) = Some p)
    \<and> (seal_from C e (public_of C s) t d aad p = Some b \<longrightarrow>
         open_from C s (public_of C t) d aad (eph b) (ct b) = Some p)"
  using box_open_sealed [OF assms] open_both_sealed [OF assms] open_from_sealed [OF assms] by blast

theorem sealed_box_round_trip_witness:
  "\<exists>b. seal sample_crypto (replicate 32 (CHR ''e'')) (public_of sample_crypto ''secret'') ''d'' ''a'' ''hello'' = Some b
     \<and> box_open sample_crypto ''secret'' ''d'' ''a'' (eph b) (ct b) = Some ''hello''"
proof -
  obtain b where b: "seal sample_crypto (replicate 32 (CHR ''e'')) (public_of sample_crypto ''secret'')
      ''d'' ''a'' ''hello'' = Some b"
    using sample_seal by blast
  have "box_open sample_crypto ''secret'' ''d'' ''a'' (eph b) (ct b) = Some ''hello''"
    by (rule sealed_box_round_trip [OF sample_encoding_laws sample_box_laws length_replicate,
          THEN conjunct1, rule_format, OF b])
  with b show ?thesis by blast
qed

end
