(* ===== verification/Anchor.thy ===== *)
theory Anchor
  imports Identity
begin

text \<open>Self-certifying server ids (\<open>crdt/anchor.rs\<close>) and the field grammars of \<open>crdt/mod.rs\<close>.\<close>

definition GENESIS_ID_LEN :: nat where
  "GENESIS_ID_LEN = 40"

definition LEGACY_ID_LEN :: nat where
  "LEGACY_ID_LEN = 32"

definition derive_server_id :: "('a) crypto_scheme \<Rightarrow> string \<Rightarrow> string \<Rightarrow> string" where
  "derive_server_id C owner_peer_id nonce =
     take GENESIS_ID_LEN (hex_encode C (sha256 C (''hollow-server1:'' @ owner_peer_id @ '':'' @ nonce)))"

definition lowercase_hex :: "string \<Rightarrow> bool" where
  "lowercase_hex s \<longleftrightarrow> list_all (\<lambda>b. is_ascii_digit b \<or> 97 \<le> code_of b \<and> code_of b \<le> 102) s"

definition is_genesis_id :: "string \<Rightarrow> bool" where
  "is_genesis_id server_id \<longleftrightarrow> length server_id = GENESIS_ID_LEN \<and> lowercase_hex server_id"

definition valid_server_id :: "string \<Rightarrow> bool" where
  "valid_server_id server_id \<longleftrightarrow>
     is_genesis_id server_id \<or> length server_id = LEGACY_ID_LEN \<and> lowercase_hex server_id"

definition new_nonce :: "('a) crypto_scheme \<Rightarrow> bytes \<Rightarrow> string" where
  "new_nonce C random = hex_encode C random"

section \<open>Grammars\<close>

definition valid_emote_name :: "string \<Rightarrow> bool" where
  "valid_emote_name name \<longleftrightarrow>
     2 \<le> length name \<and> length name \<le> 24
     \<and> list_all (\<lambda>b. is_ascii_lowercase b \<or> is_ascii_digit b \<or> b = CHR ''_'') name"

definition valid_channel_id :: "string \<Rightarrow> bool" where
  "valid_channel_id i \<longleftrightarrow>
     1 \<le> length i \<and> length i \<le> 64
     \<and> list_all (\<lambda>b. is_ascii_alphanumeric b \<or> b = CHR ''-'' \<or> b = CHR ''_'') i"

definition valid_emote_hash :: "string \<Rightarrow> bool" where
  "valid_emote_hash h \<longleftrightarrow>
     length h = 64 \<and> list_all (\<lambda>b. is_ascii_hexdigit b \<and> \<not> is_ascii_uppercase b) h"

lemma lowercase_hex_all: "lowercase_hex s \<longleftrightarrow> list_all lowercase_hex_char s"
proof -
  have "lowercase_hex_char = (\<lambda>b. is_ascii_digit b \<or> 97 \<le> code_of b \<and> code_of b \<le> 102)"
    by (rule ext) (simp add: lowercase_hex_char_def)
  then show ?thesis
    by (simp add: lowercase_hex_def)
qed

lemma derive_server_id_genesis:
  assumes "encoding_laws C"
  shows "is_genesis_id (derive_server_id C owner nonce)"
proof -
  let ?h = "hex_encode C (sha256 C (''hollow-server1:'' @ owner @ '':'' @ nonce))"
  have "length ?h = 64"
    using assms by simp
  moreover have "list_all lowercase_hex_char ?h"
    using assms by simp
  ultimately show ?thesis
    by (simp add: is_genesis_id_def derive_server_id_def GENESIS_ID_LEN_def lowercase_hex_all list_all_iff
        del: encoding_lawsD) (meson in_set_takeD)
qed

lemma genesis_not_legacy: "is_genesis_id s \<Longrightarrow> length s \<noteq> LEGACY_ID_LEN"
  by (simp add: is_genesis_id_def GENESIS_ID_LEN_def LEGACY_ID_LEN_def)

lemma lowercase_hex_no_colon: "lowercase_hex s \<Longrightarrow> CHR '':'' \<notin> set s"
  by (auto simp: lowercase_hex_def list_all_iff is_ascii_digit_def)

lemma valid_server_id_no_colon: "valid_server_id s \<Longrightarrow> CHR '':'' \<notin> set s"
  by (auto simp: valid_server_id_def is_genesis_id_def lowercase_hex_no_colon)

end
