(* ===== verification/JoinLock.thy ===== *)
theory JoinLock
  imports Anchor
begin

text \<open>
  The join lock of \<open>node/join_lock.rs\<close>: the links of a chain, what makes one the owner's own
  (\<open>base_owner\<close>) or the successor of another (\<open>extends\<close>), the check of a whole chain a joiner runs
  (\<open>verify_chain\<close>), and the minting functions, whose random secrets are arguments. Also
  \<open>pubkey_from_peer_id\<close> of \<open>crypto/safety_number.rs\<close>, which a grant is sealed to.
\<close>

definition MAX_CHAIN :: nat where
  "MAX_CHAIN = 256"

definition MAX_N :: u64 where
  "MAX_N = push_bit 53 1 - 1"

definition LINK_DOMAIN :: string where
  "LINK_DOMAIN = ''hollow-lock1''"

definition GRANT_DOMAIN :: bytes where
  "GRANT_DOMAIN = ''hollow-lock-grant1''"

record lock_link =
  link_n :: u64
  link_door :: string
  link_change :: string
  link_sig :: string
  link_owner :: "string option"
  link_nonce :: "string option"

definition is_base :: "lock_link \<Rightarrow> bool" where
  "is_base l \<longleftrightarrow> link_owner l \<noteq> None"

definition same_lock :: "lock_link \<Rightarrow> lock_link \<Rightarrow> bool" where
  "same_lock l other \<longleftrightarrow>
     link_n l = link_n other \<and> link_door l = link_door other \<and> link_change l = link_change other"

definition door_key :: "('a) crypto_scheme \<Rightarrow> lock_link \<Rightarrow> bytes option" where
  "door_key C l = key_from_text C (link_door l)"

abbreviation nl :: string where
  "nl \<equiv> [CHR 0x0A]"

definition link_payload :: "string \<Rightarrow> lock_link \<Rightarrow> string" where
  "link_payload server_id l =
     (let head = LINK_DOMAIN @ nl @ server_id @ nl @ show_word (link_n l) @ nl
                 @ link_door l @ nl @ link_change l @ nl
      in case link_owner l of
           Some ow \<Rightarrow> head @ ''base'' @ nl @ ow @ nl @ (case link_nonce l of None \<Rightarrow> '''' | Some c \<Rightarrow> c)
         | None \<Rightarrow> head @ ''next'')"

definition key_bytes :: "('a) crypto_scheme \<Rightarrow> string \<Rightarrow> bytes option" where
  "key_bytes C text =
     (case b64_decode C text of
        None \<Rightarrow> None
      | Some bs \<Rightarrow> if length bs = 36 \<and> take 4 bs = public_header then Some bs else None)"

definition key_text :: "('a) crypto_scheme \<Rightarrow> native_keypair \<Rightarrow> string" where
  "key_text C kp = b64_encode C (public_key_protobuf C kp)"

definition link_well_formed :: "('a) crypto_scheme \<Rightarrow> lock_link \<Rightarrow> bool" where
  "link_well_formed C l \<longleftrightarrow>
     link_n l \<le> MAX_N
     \<and> door_key C l \<noteq> None
     \<and> key_bytes C (link_change l) \<noteq> None
     \<and> length (link_sig l) = 88 \<and> b64_decode C (link_sig l) \<noteq> None
     \<and> is_none_or (\<lambda>ow. key_bytes C ow \<noteq> None) (link_owner l)
     \<and> is_none_or (\<lambda>c. length c \<le> 64 \<and> list_all is_ascii_hexdigit c) (link_nonce l)
     \<and> (link_owner l \<noteq> None \<or> link_nonce l = None)"

definition signed_by :: "('a) crypto_scheme \<Rightarrow> string \<Rightarrow> string \<Rightarrow> string \<Rightarrow> bool" where
  "signed_by C key payload sig =
     (case (key_bytes C key, b64_decode C sig) of
        (Some k, Some s) \<Rightarrow> (case verify_peer_signature C k s payload of Inr b \<Rightarrow> b | Inl _ \<Rightarrow> False)
      | _ \<Rightarrow> False)"

definition base_owner :: "('a) crypto_scheme \<Rightarrow> string \<Rightarrow> lock_link \<Rightarrow> string option" where
  "base_owner C server_id link =
     (case link_owner link of
        None \<Rightarrow> None
      | Some owner_key \<Rightarrow>
          if \<not> link_well_formed C link then None
          else
            (case key_bytes C owner_key of
               None \<Rightarrow> None
             | Some kb \<Rightarrow>
                 (case peer_id_from_pubkey_protobuf C kb of
                    None \<Rightarrow> None
                  | Some ow \<Rightarrow>
                      if is_genesis_id server_id
                         \<and> (case link_nonce link of
                              None \<Rightarrow> True
                            | Some c \<Rightarrow> derive_server_id C ow c \<noteq> server_id)
                      then None
                      else if signed_by C owner_key (link_payload server_id link) (link_sig link)
                      then Some ow
                      else None)))"

definition extends :: "('a) crypto_scheme \<Rightarrow> string \<Rightarrow> lock_link \<Rightarrow> lock_link \<Rightarrow> bool" where
  "extends C server_id prev next \<longleftrightarrow>
     \<not> is_base next
     \<and> link_well_formed C next
     \<and> checked_add (link_n prev) 1 = Some (link_n next)
     \<and> signed_by C (link_change prev) (link_payload server_id next) (link_sig next)"

text \<open>The loop of \<open>verify_chain\<close> over \<open>links.windows(2)\<close>.\<close>

fun windows_ok :: "('a) crypto_scheme \<Rightarrow> string \<Rightarrow> string \<Rightarrow> lock_link list \<Rightarrow> bool" where
  "windows_ok C server_id ow (a # b # rest) =
     ((if is_base b then link_n a < link_n b \<and> base_owner C server_id b = Some ow
       else extends C server_id a b)
      \<and> windows_ok C server_id ow (b # rest))"
| "windows_ok C server_id ow _ = True"

definition verify_chain ::
  "('a) crypto_scheme \<Rightarrow> string \<Rightarrow> lock_link list \<Rightarrow> string option \<Rightarrow> string option" where
  "verify_chain C server_id links expected_owner =
     (case links of
        [] \<Rightarrow> None
      | first # _ \<Rightarrow>
          if MAX_CHAIN < length links then None
          else
            (case base_owner C server_id first of
               None \<Rightarrow> None
             | Some ow \<Rightarrow>
                 if is_some_and (\<lambda>pin. pin \<noteq> ow) expected_owner then None
                 else if windows_ok C server_id ow links then Some ow
                 else None))"

section \<open>Minting\<close>

record new_lock =
  lock_link :: lock_link
  lock_door :: bytes
  lock_change :: bytes

definition fresh_lock :: "('a) crypto_scheme \<Rightarrow> bytes \<Rightarrow> bytes \<Rightarrow> u64 \<Rightarrow> new_lock" where
  "fresh_lock C door_secret change_secret n =
     \<lparr>lock_link = \<lparr>link_n = n, link_door = key_to_text C (public_of C door_secret),
                   link_change = key_text C (from_secret_bytes C change_secret), link_sig = '''',
                   link_owner = None, link_nonce = None\<rparr>,
      lock_door = door_secret, lock_change = change_secret\<rparr>"

definition owner_signed ::
  "('a) crypto_scheme \<Rightarrow> string \<Rightarrow> lock_link \<Rightarrow> native_keypair \<Rightarrow> string option \<Rightarrow> lock_link" where
  "owner_signed C server_id link ow nonce =
     (let base = link\<lparr>link_owner := Some (key_text C ow),
                      link_nonce := opt_filter (\<lambda>_. is_genesis_id server_id) nonce,
                      link_sig := ''''\<rparr>
      in base\<lparr>link_sig := b64_encode C (kp_sign C ow (link_payload server_id base))\<rparr>)"

definition mint_base ::
  "('a) crypto_scheme \<Rightarrow> bytes \<Rightarrow> bytes \<Rightarrow> string \<Rightarrow> u64 \<Rightarrow> native_keypair \<Rightarrow> string option \<Rightarrow> new_lock" where
  "mint_base C door_secret change_secret server_id n ow nonce =
     (let lock = fresh_lock C door_secret change_secret n
      in lock\<lparr>lock_link := owner_signed C server_id (lock_link lock) ow nonce\<rparr>)"

definition mint_next ::
  "('a) crypto_scheme \<Rightarrow> bytes \<Rightarrow> bytes \<Rightarrow> string \<Rightarrow> lock_link \<Rightarrow> bytes \<Rightarrow> new_lock option" where
  "mint_next C door_secret change_secret server_id prev prev_change =
     (let signer = from_secret_bytes C prev_change in
      if key_text C signer \<noteq> link_change prev then None
      else
        (case opt_filter (\<lambda>n. n \<le> MAX_N) (checked_add (link_n prev) 1) of
           None \<Rightarrow> None
         | Some n \<Rightarrow>
             let lock = fresh_lock C door_secret change_secret n
             in Some (lock\<lparr>lock_link := (lock_link lock)
                  \<lparr>link_sig := b64_encode C (kp_sign C signer (link_payload server_id (lock_link lock)))\<rparr>\<rparr>)))"

section \<open>Grants\<close>

definition pubkey_from_peer_id :: "('a) crypto_scheme \<Rightarrow> string \<Rightarrow> bytes option" where
  "pubkey_from_peer_id C pid =
     (case bs58_decode C pid of
        None \<Rightarrow> None
      | Some decoded \<Rightarrow>
          if length decoded \<noteq> 38 \<or> take 2 decoded \<noteq> [CHR 0x00, CHR 0x24] then None
          else (let proto = drop 2 decoded
                in if take 4 proto \<noteq> public_header then None else Some (drop 4 proto)))"

definition peer_x25519 :: "('a) crypto_scheme \<Rightarrow> string \<Rightarrow> bytes option" where
  "peer_x25519 C pid =
     (case pubkey_from_peer_id C pid of None \<Rightarrow> None | Some ed \<Rightarrow> ed_montgomery C ed)"

definition grant_aad :: "string \<Rightarrow> string \<Rightarrow> string \<Rightarrow> bytes" where
  "grant_aad server_id change master = server_id @ [CHR 0x00] @ change @ [CHR 0x00] @ master"

definition seal_grant ::
  "('a) crypto_scheme \<Rightarrow> bytes \<Rightarrow> string \<Rightarrow> string \<Rightarrow> string \<Rightarrow> bytes \<Rightarrow> string option" where
  "seal_grant C eph_secret server_id change master change_secret =
     (case peer_x25519 C master of
        None \<Rightarrow> None
      | Some to \<Rightarrow>
          (case seal C eph_secret to GRANT_DOMAIN (grant_aad server_id change master) change_secret of
             None \<Rightarrow> None
           | Some b \<Rightarrow> Some (eph b @ ''.'' @ ct b)))"

text \<open>\<open>str::split_once('.')\<close>: at the first dot.\<close>

definition split_dot :: "string \<Rightarrow> (string \<times> string) option" where
  "split_dot s =
     (case dropWhile (\<lambda>c. c \<noteq> CHR ''.'') s of
        [] \<Rightarrow> None
      | _ # rest \<Rightarrow> Some (takeWhile (\<lambda>c. c \<noteq> CHR ''.'') s, rest))"

definition open_grant ::
  "('a) crypto_scheme \<Rightarrow> string \<Rightarrow> string \<Rightarrow> native_keypair \<Rightarrow> string \<Rightarrow> bytes option" where
  "open_grant C server_id change master grant =
     (case split_dot grant of
        None \<Rightarrow> None
      | Some (e, c) \<Rightarrow>
          (case box_open C (ed_scalar C (signing_key master)) GRANT_DOMAIN
                  (grant_aad server_id change (peer_id master)) e c of
             None \<Rightarrow> None
           | Some plain \<Rightarrow>
               if length plain = 32 \<and> key_text C (from_secret_bytes C plain) = change
               then Some plain else None))"

definition grant_shape :: "string \<Rightarrow> bool" where
  "grant_shape grant \<longleftrightarrow>
     length grant \<le> 160 \<and> is_some_and (\<lambda>(e, c). length e = 44 \<and> length c = 64) (split_dot grant)"

section \<open>Chains\<close>

lemma windows_ok_iff:
  "windows_ok C sid ow links \<longleftrightarrow>
     (\<forall>i. Suc i < length links \<longrightarrow>
        (if is_base (links ! Suc i)
         then link_n (links ! i) < link_n (links ! Suc i) \<and> base_owner C sid (links ! Suc i) = Some ow
         else extends C sid (links ! i) (links ! Suc i)))"
proof (induction links rule: windows_ok.induct)
  case (1 C sid ow a b rest)
  then show ?case
    by (subst windows_ok.simps(1), subst 1) (force simp: nth_Cons split: nat.split)
qed simp_all

lemma extends_next: "extends C sid a b \<Longrightarrow> link_n a < link_n b"
  by (auto simp: extends_def dest: checked_add_one_gt)

lemma windows_ok_increasing:
  assumes "windows_ok C sid ow links"
  shows "sorted_wrt (<) (map link_n links)"
  using assms
proof (induction links rule: windows_ok.induct)
  case (1 C sid ow a b rest)
  then have "link_n a < link_n b"
    by (auto simp: extends_next split: if_splits)
  with 1 show ?case
    by (auto intro: order_less_trans)
qed simp_all

lemma base_owner_genesis:
  assumes "base_owner C sid l = Some ow" and "is_genesis_id sid"
  obtains c where "link_nonce l = Some c" and "derive_server_id C ow c = sid"
  using assms by (auto simp: base_owner_def split: option.splits if_splits)

lemma base_owner_signed:
  assumes "base_owner C sid l = Some ow"
  obtains k kb where "link_owner l = Some k" and "key_bytes C k = Some kb"
    and "peer_id_from_pubkey_protobuf C kb = Some ow"
    and "signed_by C k (link_payload sid l) (link_sig l)" and "link_well_formed C l"
  using assms by (auto simp: base_owner_def split: option.splits if_splits)

lemma verify_chainD:
  assumes "verify_chain C sid links pin = Some ow"
  shows "links \<noteq> []" and "length links \<le> MAX_CHAIN" and "base_owner C sid (hd links) = Some ow"
    and "is_none_or (\<lambda>p. p = ow) pin" and "windows_ok C sid ow links"
  using assms by (cases pin; auto simp: verify_chain_def split: list.splits option.splits if_splits)+

lemma key_bytes_text:
  assumes "encoding_laws C" and "signature_laws C" and "length sk = 32"
  shows "key_bytes C (key_text C (from_secret_bytes C sk)) = Some (public_key_protobuf C (from_secret_bytes C sk))"
  using assms by (simp add: key_bytes_def key_text_def public_key_protobuf_def from_secret_bytes_def)

lemma signed_by_own:
  assumes "encoding_laws C" and "signature_laws C" and "length sk = 32"
  shows "signed_by C (key_text C (from_secret_bytes C sk)) payload
           (b64_encode C (kp_sign C (from_secret_bytes C sk) payload))"
  using assms by (simp add: signed_by_def key_bytes_text verify_own_signature)

lemma fresh_lock_well_formed:
  assumes "encoding_laws C" and "signature_laws C" and "box_laws C" and "length d = 32" and "length c = 32"
    and "n \<le> MAX_N" and "length sg = 64"
  shows "link_well_formed C ((lock_link (fresh_lock C d c n))\<lparr>link_sig := b64_encode C sg\<rparr>)"
proof -
  have "length (public_of C d) = 32"
    using assms by (simp add: box_lawsD)
  with assms show ?thesis
    by (simp add: link_well_formed_def fresh_lock_def door_key_def key_from_text_def key_to_text_def
        key_bytes_text)
qed

lemma length_kp_sign:
  "signature_laws C \<Longrightarrow> length sk = 32 \<Longrightarrow> length (kp_sign C (from_secret_bytes C sk) m) = 64"
  by (simp add: kp_sign_def from_secret_bytes_def)

lemma link_payload_sig [simp]: "link_payload sid (l\<lparr>link_sig := s\<rparr>) = link_payload sid l"
  by (simp add: link_payload_def Let_def split: option.split)

lemma mint_next_extends:
  assumes laws: "encoding_laws C" "signature_laws C" "box_laws C"
    and len: "length d = 32" "length c = 32" "length pc = 32"
    and lock: "mint_next C d c sid prev pc = Some lock"
  shows "extends C sid prev (lock_link lock)"
proof -
  obtain n where prev: "link_change prev = key_text C (from_secret_bytes C pc)"
    and n: "checked_add (link_n prev) 1 = Some n" "n \<le> MAX_N"
    and lk: "lock_link lock = (lock_link (fresh_lock C d c n))
       \<lparr>link_sig := b64_encode C (kp_sign C (from_secret_bytes C pc)
          (link_payload sid (lock_link (fresh_lock C d c n))))\<rparr>"
    using lock by (auto simp: mint_next_def Let_def opt_filter_def split: option.splits if_splits)
  have "link_well_formed C (lock_link lock)"
    unfolding lk by (rule fresh_lock_well_formed) (simp_all add: laws len n length_kp_sign)
  moreover have "\<not> is_base (lock_link lock)" "link_n (lock_link lock) = n"
    by (simp_all add: lk fresh_lock_def is_base_def)
  moreover have "signed_by C (link_change prev) (link_payload sid (lock_link lock)) (link_sig (lock_link lock))"
    unfolding prev lk by (simp add: signed_by_own laws len)
  ultimately show ?thesis
    by (simp add: extends_def n)
qed

lemma owner_signed_base:
  assumes laws: "encoding_laws C" "signature_laws C" "box_laws C"
    and len: "length d = 32" "length c = 32" "length ok = 32" and n: "n \<le> MAX_N"
    and genesis: "is_genesis_id sid \<Longrightarrow> \<exists>k. nonce = Some k \<and> length k \<le> 64 \<and> list_all is_ascii_hexdigit k
        \<and> derive_server_id C (peer_id (from_secret_bytes C ok)) k = sid"
  shows "base_owner C sid (owner_signed C sid (lock_link (fresh_lock C d c n)) (from_secret_bytes C ok) nonce)
       = Some (peer_id (from_secret_bytes C ok))"
proof -
  let ?kp = "from_secret_bytes C ok"
  let ?nonce = "opt_filter (\<lambda>_. is_genesis_id sid) nonce"
  define base where "base = (lock_link (fresh_lock C d c n))
      \<lparr>link_owner := Some (key_text C ?kp), link_nonce := ?nonce, link_sig := []\<rparr>"
  define l where "l = base\<lparr>link_sig := b64_encode C (kp_sign C ?kp (link_payload sid base))\<rparr>"
  have l: "owner_signed C sid (lock_link (fresh_lock C d c n)) ?kp nonce = l"
    by (simp add: owner_signed_def l_def base_def Let_def)
  have own: "link_owner l = Some (key_text C ?kp)" and nonce: "link_nonce l = ?nonce"
    by (simp_all add: l_def base_def)
  have "link_well_formed C ((lock_link (fresh_lock C d c n))
      \<lparr>link_sig := b64_encode C (kp_sign C ?kp (link_payload sid base))\<rparr>)"
    by (rule fresh_lock_well_formed) (simp_all add: laws len n length_kp_sign)
  moreover have "is_none_or (\<lambda>k. length k \<le> 64 \<and> list_all is_ascii_hexdigit k) ?nonce"
    using genesis by (cases "is_genesis_id sid") (auto simp: opt_filter_def split: option.splits)
  ultimately have "link_well_formed C l"
    using laws len by (simp add: link_well_formed_def l_def base_def fresh_lock_def door_key_def key_bytes_text)
  moreover have "signed_by C (key_text C ?kp) (link_payload sid l) (link_sig l)"
    unfolding l_def by (simp add: signed_by_own laws len)
  moreover have "\<not> (is_genesis_id sid \<and> (case ?nonce of None \<Rightarrow> True
      | Some k \<Rightarrow> derive_server_id C (peer_id ?kp) k \<noteq> sid))"
    using genesis by (auto simp: opt_filter_def)
  ultimately show ?thesis
    unfolding l base_owner_def own nonce by (simp add: key_bytes_text laws len public_key_protobuf_id)
qed

lemma windows_ok_snoc:
  "windows_ok C sid ow links \<Longrightarrow> links \<noteq> [] \<Longrightarrow> extends C sid (last links) l \<Longrightarrow>
     windows_ok C sid ow (links @ [l])"
proof (induction links rule: windows_ok.induct)
  case (1 C sid ow a b rest)
  then show ?case by simp
qed (simp_all add: extends_def)

lemma minted_base_verifies:
  assumes "encoding_laws C" "signature_laws C" "box_laws C"
    and "length d = 32" "length c = 32" "length k = 32" and "n \<le> MAX_N"
    and "is_genesis_id sid \<Longrightarrow> \<exists>k'. nonce = Some k' \<and> length k' \<le> 64
        \<and> list_all is_ascii_hexdigit k' \<and> derive_server_id C (peer_id (from_secret_bytes C k)) k' = sid"
  shows "verify_chain C sid [lock_link (mint_base C d c sid n (from_secret_bytes C k) nonce)] None
      = Some (peer_id (from_secret_bytes C k))"
  using owner_signed_base [OF assms] by (simp add: verify_chain_def mint_base_def MAX_CHAIN_def Let_def)

lemma new_nonce_hex:
  "encoding_laws C \<Longrightarrow> list_all is_ascii_hexdigit (new_nonce C r)"
  using encoding_lawsD(6) [of C r]
  by (auto simp: new_nonce_def list_all_iff lowercase_hex_char_def is_ascii_hexdigit_def)

lemma minted_next_verifies:
  assumes "encoding_laws C" "signature_laws C" "box_laws C"
    and "length d = 32" "length c = 32" "length k = 32"
    and chain: "verify_chain C sid links pin = Some ow" and room: "length links < MAX_CHAIN"
    and lock: "mint_next C d c sid (last links) k = Some lock"
  shows "verify_chain C sid (links @ [lock_link lock]) pin = Some ow"
proof -
  note ok = verify_chainD [OF chain]
  have "windows_ok C sid ow (links @ [lock_link lock])"
    by (rule windows_ok_snoc [OF ok(5,1) mint_next_extends [OF assms(1-6) lock]])
  with chain room ok show ?thesis
    by (cases links; cases pin) (auto simp: verify_chain_def split: option.splits if_splits)
qed

section \<open>Correctness of the chain\<close>


text \<open>What the owner mints verifies as a chain of its own, on a legacy id and on the
  self-certifying id its nonce derives, and what a holder of the newest change key mints next keeps
  any chain that still has room valid for the same owner.\<close>

theorem minted_chain_verifies:
  assumes "encoding_laws C" "signature_laws C" "box_laws C"
    and "length d = 32" "length c = 32" "length k = 32" and "n \<le> MAX_N" and "length r = 16"
  shows "(\<not> is_genesis_id sid \<longrightarrow>
           verify_chain C sid [lock_link (mint_base C d c sid n (from_secret_bytes C k) nonce)] None
             = Some (peer_id (from_secret_bytes C k)))
    \<and> (let nonce' = new_nonce C r; sid' = derive_server_id C (peer_id (from_secret_bytes C k)) nonce'
        in verify_chain C sid' [lock_link (mint_base C d c sid' n (from_secret_bytes C k) (Some nonce'))] None
             = Some (peer_id (from_secret_bytes C k)))
    \<and> (verify_chain C sid links pin = Some ow \<and> length links < MAX_CHAIN
         \<and> mint_next C d c sid (last links) k = Some lock \<longrightarrow>
         verify_chain C sid (links @ [lock_link lock]) pin = Some ow)"
proof -
  have "length (new_nonce C r) \<le> 64"
    using assms(1,8) by (simp add: new_nonce_def)
  then have genesis: "let nonce' = new_nonce C r; sid' = derive_server_id C (peer_id (from_secret_bytes C k)) nonce'
        in verify_chain C sid' [lock_link (mint_base C d c sid' n (from_secret_bytes C k) (Some nonce'))] None
             = Some (peer_id (from_secret_bytes C k))"
    unfolding Let_def by (intro minted_base_verifies [OF assms(1-7)]) (simp add: new_nonce_hex assms(1))
  have legacy: "verify_chain C sid [lock_link (mint_base C d c sid n (from_secret_bytes C k) nonce)] None
      = Some (peer_id (from_secret_bytes C k))" if "\<not> is_genesis_id sid"
    using that by (intro minted_base_verifies [OF assms(1-7)]) simp
  show ?thesis
    using genesis legacy minted_next_verifies [OF assms(1-6)] by blast
qed

text \<open>A chain of two links over the sample primitives: the owner's lock and the one after it.\<close>

definition sample_key :: "char \<Rightarrow> bytes" where
  "sample_key c = replicate 32 c"

lemma length_sample_key [simp]: "length (sample_key c) = 32"
  by (simp add: sample_key_def)

definition sample_base :: new_lock where
  "sample_base = mint_base sample_crypto (sample_key (CHR ''d'')) (sample_key (CHR ''c'')) ''srv'' 4
     (from_secret_bytes sample_crypto (sample_key (CHR ''o''))) None"

lemma sample_not_genesis: "\<not> is_genesis_id ''srv''"
  by (simp add: is_genesis_id_def GENESIS_ID_LEN_def)

lemma sample_base_verifies:
  "verify_chain sample_crypto ''srv'' [lock_link sample_base] None
     = Some (peer_id (from_secret_bytes sample_crypto (sample_key (CHR ''o''))))"
  unfolding sample_base_def
  by (rule minted_base_verifies)
    (simp_all add: sample_encoding_laws sample_signature_laws sample_box_laws sample_not_genesis MAX_N_def)


theorem minted_chain_verifies_witness:
  "\<exists>lock. mint_next sample_crypto (sample_key (CHR ''x'')) (sample_key (CHR ''y'')) ''srv''
       (lock_link sample_base) (sample_key (CHR ''c'')) = Some lock
     \<and> verify_chain sample_crypto ''srv'' [lock_link sample_base, lock_link lock] None
       = Some (peer_id (from_secret_bytes sample_crypto (sample_key (CHR ''o''))))"
proof -
  let ?m = "mint_next sample_crypto (sample_key (CHR ''x'')) (sample_key (CHR ''y'')) ''srv''
       (lock_link sample_base) (sample_key (CHR ''c''))"
  have sel: "link_n (lock_link sample_base) = 4"
    "link_change (lock_link sample_base) = key_text sample_crypto (from_secret_bytes sample_crypto (sample_key (CHR ''c'')))"
    by (simp_all add: sample_base_def mint_base_def owner_signed_def fresh_lock_def Let_def)
  obtain lock where lock: "?m = Some lock"
    by (simp add: mint_next_def sel checked_add_def MAX_N_def opt_filter_def Let_def)
  moreover have "verify_chain sample_crypto ''srv'' ([lock_link sample_base] @ [lock_link lock]) None
       = Some (peer_id (from_secret_bytes sample_crypto (sample_key (CHR ''o''))))"
    using minted_chain_verifies [OF sample_encoding_laws sample_signature_laws sample_box_laws
        length_sample_key length_sample_key length_sample_key, of 0 "replicate 16 (CHR ''r'')" "''srv''"
        "CHR ''x''" "CHR ''y''" "CHR ''c''" None "[lock_link sample_base]" None
        "peer_id (from_secret_bytes sample_crypto (sample_key (CHR ''o'')))" lock]
      sample_base_verifies lock
    by (simp add: MAX_CHAIN_def)
  ultimately show ?thesis by auto
qed

end
