(* ===== verification/HashMap.thy ===== *)
theory HashMap
  imports Prelude
begin

text \<open>
  A Rust \<open>HashMap<String, V>\<close> is an association list whose keys are distinct (\<open>hm_wf\<close>); the order
  of the list stands for the map's iteration order, which Rust leaves unspecified, so no result
  of the development may rest on it except through lookups. The operations are the ones the
  code calls: \<open>get\<close> is \<^const>\<open>map_of\<close>, \<open>insert\<close> is \<^const>\<open>AList.update\<close>, \<open>remove\<close> is
  \<^const>\<open>AList.delete\<close>, and below are \<open>entry().or_insert\<close>, \<open>get_mut\<close>, \<open>retain\<close> and
  \<open>values_mut\<close>. The locale \<open>keyed_map\<close> is the contract a client of a map relies on.
\<close>

type_synonym 'v hmap = "(string \<times> 'v) list"

abbreviation hm_get :: "'v hmap \<Rightarrow> string \<Rightarrow> 'v option" where
  "hm_get \<equiv> map_of"

abbreviation hm_insert :: "string \<Rightarrow> 'v \<Rightarrow> 'v hmap \<Rightarrow> 'v hmap" where
  "hm_insert \<equiv> AList.update"

abbreviation hm_remove :: "string \<Rightarrow> 'v hmap \<Rightarrow> 'v hmap" where
  "hm_remove \<equiv> AList.delete"

definition hm_wf :: "'v hmap \<Rightarrow> bool" where
  "hm_wf m \<longleftrightarrow> distinct (map fst m)"

definition hm_has :: "'v hmap \<Rightarrow> string \<Rightarrow> bool" where
  "hm_has m k \<longleftrightarrow> map_of m k \<noteq> None"

definition hm_or_insert :: "string \<Rightarrow> 'v \<Rightarrow> 'v hmap \<Rightarrow> 'v hmap" where
  "hm_or_insert k v m = (if hm_has m k then m else hm_insert k v m)"

definition hm_modify :: "string \<Rightarrow> ('v \<Rightarrow> 'v) \<Rightarrow> 'v hmap \<Rightarrow> 'v hmap" where
  "hm_modify k f m = (case map_of m k of None \<Rightarrow> m | Some v \<Rightarrow> hm_insert k (f v) m)"

definition hm_retain :: "(string \<Rightarrow> 'v \<Rightarrow> bool) \<Rightarrow> 'v hmap \<Rightarrow> 'v hmap" where
  "hm_retain P m = filter (\<lambda>(k, v). P k v) m"

definition hm_map_values :: "('v \<Rightarrow> 'v) \<Rightarrow> 'v hmap \<Rightarrow> 'v hmap" where
  "hm_map_values f m = map (\<lambda>(k, v). (k, f v)) m"

lemma hm_insert_get [hmap_simps, simp]: "hm_get (hm_insert k v m) = (hm_get m)(k \<mapsto> v)"
  by (rule AList.update_conv')

lemma hm_remove_get [hmap_simps, simp]: "hm_get (hm_remove k m) = (hm_get m)(k := None)"
  by (rule AList.delete_conv')

lemma hm_or_insert_get [hmap_simps]:
  "hm_get (hm_or_insert k v m) j = (if j = k \<and> hm_get m k = None then Some v else hm_get m j)"
  by (simp add: hm_or_insert_def hm_has_def)

lemma hm_modify_get [hmap_simps]:
  "hm_get (hm_modify k f m) j = (if j = k then map_option f (hm_get m k) else hm_get m j)"
  by (simp add: hm_modify_def split: option.splits)

lemma hm_map_values_get [hmap_simps]: "hm_get (hm_map_values f m) j = map_option f (hm_get m j)"
  by (induction m) (auto simp: hm_map_values_def)

lemma hm_retain_get [hmap_simps]:
  "hm_wf m \<Longrightarrow> hm_get (hm_retain P m) j = opt_filter (P j) (hm_get m j)"
proof (induction m)
  case (Cons kv m)
  then have IH: "hm_get (hm_retain P m) j = opt_filter (P j) (hm_get m j)"
    by (simp add: hm_wf_def)
  obtain k v where kv: "kv = (k, v)" by (cases kv)
  from Cons.prems have "hm_get m k = None"
    by (simp add: hm_wf_def kv map_of_eq_None_iff)
  with IH show ?case
    by (auto simp: hm_retain_def kv)
qed (simp add: hm_retain_def)

lemma hm_wf_Nil [simp]: "hm_wf []"
  by (simp add: hm_wf_def)

lemma hm_wf_insert [hmap_wf]: "hm_wf m \<Longrightarrow> hm_wf (hm_insert k v m)"
  by (simp add: hm_wf_def distinct_update)

lemma hm_wf_remove [hmap_wf]: "hm_wf m \<Longrightarrow> hm_wf (hm_remove k m)"
  by (simp add: hm_wf_def distinct_delete)

lemma hm_wf_or_insert [hmap_wf]: "hm_wf m \<Longrightarrow> hm_wf (hm_or_insert k v m)"
  by (simp add: hm_or_insert_def hm_wf_insert)

lemma hm_wf_modify [hmap_wf]: "hm_wf m \<Longrightarrow> hm_wf (hm_modify k f m)"
  by (simp add: hm_modify_def hm_wf_insert split: option.splits)

lemma hm_wf_retain [hmap_wf]: "hm_wf m \<Longrightarrow> hm_wf (hm_retain P m)"
  by (simp add: hm_wf_def hm_retain_def distinct_map_filter)

lemma hm_wf_map_values [hmap_wf]: "hm_wf m \<Longrightarrow> hm_wf (hm_map_values f m)"
  by (simp add: hm_wf_def hm_map_values_def case_prod_unfold comp_def)

lemma hm_get_in: "hm_get m k = Some v \<Longrightarrow> (k, v) \<in> set m"
  by (rule map_of_SomeD)

lemma hm_in_get: "hm_wf m \<Longrightarrow> (k, v) \<in> set m \<longleftrightarrow> hm_get m k = Some v"
  by (simp add: hm_wf_def)

lemma hm_has_iff: "hm_has m k \<longleftrightarrow> k \<in> fst ` set m"
  by (simp add: hm_has_def map_of_eq_None_iff)

lemma hm_size_insert: "hm_wf m \<Longrightarrow> length (hm_insert k v m) = (if hm_has m k then length m else Suc (length m))"
  by (induction m) (auto simp: hm_wf_def hm_has_def)

lemma hm_size_remove: "length (hm_remove k m) \<le> length m"
  by (rule length_delete_le)

subsection \<open>The contract of a keyed map\<close>

locale keyed_map =
  fixes wf :: "'m \<Rightarrow> bool"
    and get :: "'m \<Rightarrow> 'k \<Rightarrow> 'v option"
    and put :: "'k \<Rightarrow> 'v \<Rightarrow> 'm \<Rightarrow> 'm"
    and del :: "'k \<Rightarrow> 'm \<Rightarrow> 'm"
  assumes get_put: "wf m \<Longrightarrow> get (put k v m) j = (if j = k then Some v else get m j)"
    and get_del: "wf m \<Longrightarrow> get (del k m) j = (if j = k then None else get m j)"
    and wf_put: "wf m \<Longrightarrow> wf (put k v m)"
    and wf_del: "wf m \<Longrightarrow> wf (del k m)"
begin

lemma put_absorb: "wf m \<Longrightarrow> get (put k v (put k u m)) = get (put k v m)"
  by (simp add: fun_eq_iff get_put wf_put)

lemma put_swap: "wf m \<Longrightarrow> j \<noteq> k \<Longrightarrow> get (put j u (put k v m)) = get (put k v (put j u m))"
  by (simp add: fun_eq_iff get_put wf_put)

lemma del_put: "wf m \<Longrightarrow> get (del k (put k v m)) = get (del k m)"
  by (simp add: fun_eq_iff get_put get_del wf_put)

end

interpretation hm: keyed_map hm_wf hm_get hm_insert hm_remove
  by unfold_locales (simp_all add: hmap_wf)

end
