(* ===== verification/Hlc.thy ===== *)
theory Hlc
  imports Prelude
begin

text \<open>
  The hybrid logical clock of \<open>crdt/hlc.rs\<close>: timestamps with their total order, the counter lane
  a device mints in, and the clock's two steps, \<open>now_at\<close> and \<open>witness_at\<close>. The wall clock is an
  argument. The locale \<open>ticking_clock\<close> is what the op authoring code relies on: a tick reads later
  than everything the clock ticked or observed before.
\<close>

section \<open>Timestamps\<close>

datatype hlc_timestamp =
  HlcTimestamp (physical_ms: u64) (counter: u32) (actor: string)

instantiation hlc_timestamp :: linorder
begin

definition less_hlc_timestamp :: "hlc_timestamp \<Rightarrow> hlc_timestamp \<Rightarrow> bool" where
  "less_hlc_timestamp a b \<longleftrightarrow>
     physical_ms a < physical_ms b
     \<or> physical_ms a = physical_ms b
       \<and> (counter a < counter b \<or> counter a = counter b \<and> actor a < actor b)"

definition less_eq_hlc_timestamp :: "hlc_timestamp \<Rightarrow> hlc_timestamp \<Rightarrow> bool" where
  "less_eq_hlc_timestamp a b \<longleftrightarrow> a < b \<or> a = b"

instance
proof
  fix a b c :: hlc_timestamp
  show "(a < b) = (a \<le> b \<and> \<not> b \<le> a)"
    by (auto simp: less_eq_hlc_timestamp_def less_hlc_timestamp_def)
  show "a \<le> a"
    by (simp add: less_eq_hlc_timestamp_def)
  show "a \<le> b \<Longrightarrow> b \<le> c \<Longrightarrow> a \<le> c"
    by (auto simp: less_eq_hlc_timestamp_def less_hlc_timestamp_def)
  show "a \<le> b \<Longrightarrow> b \<le> a \<Longrightarrow> a = b"
    by (auto simp: less_eq_hlc_timestamp_def less_hlc_timestamp_def)
  show "a \<le> b \<or> b \<le> a"
    by (auto simp: less_eq_hlc_timestamp_def less_hlc_timestamp_def
        intro: hlc_timestamp.expand)
qed

end

text \<open>The part of a timestamp a clock moves: its millisecond and counter.\<close>

definition reading :: "hlc_timestamp \<Rightarrow> u64 \<times> u32" where
  "reading t = (physical_ms t, counter t)"

lemma reading_less: "reading a < reading b \<Longrightarrow> a < b"
  by (auto simp: reading_def less_hlc_timestamp_def)

lemma reading_pair [simp]: "reading (HlcTimestamp m k a) = (m, k)"
  by (simp add: reading_def)

definition hlc_zero :: "string \<Rightarrow> hlc_timestamp" where
  "hlc_zero a = HlcTimestamp 0 0 a"

definition MAX_DRIFT_MS :: u64 where
  "MAX_DRIFT_MS = 5 * 60 * 1000"

section \<open>The clock\<close>

definition LANES :: u32 where
  "LANES = push_bit 24 1"

definition be_u32 :: "bytes \<Rightarrow> u32" where
  "be_u32 bs = of_nat (foldl (\<lambda>n b. 256 * n + code_of b) 0 bs)"

text \<open>\<open>sha256\<close> is the digest of the \<open>sha2\<close> crate.\<close>

definition lane_of :: "(bytes \<Rightarrow> bytes) \<Rightarrow> string \<Rightarrow> u32" where
  "lane_of sha256 device_peer_id =
     be_u32 (take 4 (sha256 (''hollow-hlc-lane1:'' @ device_peer_id))) mod LANES"

record hlc =
  latest :: hlc_timestamp
  hlc_actor :: string
  lane :: "u32 option"

definition seeded :: "string \<Rightarrow> u32 option \<Rightarrow> u64 \<Rightarrow> hlc" where
  "seeded a ln wall = \<lparr>latest = HlcTimestamp wall 0 a, hlc_actor = a, lane = ln\<rparr>"

definition for_device :: "(bytes \<Rightarrow> bytes) \<Rightarrow> string \<Rightarrow> string \<Rightarrow> u64 \<Rightarrow> hlc" where
  "for_device sha256 master device_peer_id wall = seeded master (Some (lane_of sha256 device_peer_id)) wall"

text \<open>The timestamp right after \<open>(physical_ms, counter)\<close>: at the counter's ceiling the
  millisecond steps instead.\<close>

definition successor :: "u64 \<Rightarrow> u32 \<Rightarrow> u64 \<times> u32" where
  "successor ms k =
     (case checked_add k 1 of
        Some k' \<Rightarrow> (ms, k')
      | None \<Rightarrow> (saturating_add ms 1, 0))"

definition step_to :: "hlc \<Rightarrow> u64 \<times> u32 \<Rightarrow> hlc" where
  "step_to c p = c\<lparr>latest := HlcTimestamp (fst p) (snd p) (hlc_actor c)\<rparr>"

definition next_after :: "hlc \<Rightarrow> u64 \<Rightarrow> u32 \<Rightarrow> u64 \<times> u32" where
  "next_after c ms k =
     (case lane c of
        None \<Rightarrow> successor ms k
      | Some ln \<Rightarrow>
          (let k64 = (ucast k :: u64); lane64 = (ucast ln :: u64); lanes = (ucast LANES :: u64);
               in_block = k64 - k64 mod lanes + lane64;
               next = (if k64 < in_block then in_block else in_block + lanes)
           in if unat next < 2 ^ 32 then (ms, ucast next)
              else (saturating_add ms 1, ln)))"

definition now_at :: "hlc \<Rightarrow> u64 \<Rightarrow> hlc_timestamp \<times> hlc" where
  "now_at c wall =
     (let next = (if physical_ms (latest c) < wall
                  then (wall, case lane c of None \<Rightarrow> 0 | Some ln \<Rightarrow> ln)
                  else next_after c (physical_ms (latest c)) (counter (latest c)));
          c' = step_to c next
      in (latest c', c'))"

definition witness_at :: "hlc \<Rightarrow> hlc_timestamp \<Rightarrow> u64 \<Rightarrow> hlc" where
  "witness_at c other wall =
     (if wall + MAX_DRIFT_MS < physical_ms other then c
      else if lane c \<noteq> None then
        (if reading (latest c) < (physical_ms other, counter other)
         then step_to c (physical_ms other, counter other) else c)
      else
        (let ours = latest c;
             max_physical = max (max wall (physical_ms ours)) (physical_ms other);
             next =
               (if max_physical = physical_ms ours \<and> max_physical = physical_ms other
                then successor max_physical (max (counter ours) (counter other))
                else if max_physical = physical_ms ours
                then successor max_physical (counter ours)
                else if max_physical = physical_ms other
                then successor max_physical (counter other)
                else (max_physical, 0))
         in step_to c next))"

section \<open>The clock only moves forward\<close>

text \<open>A clock has a well-formed lane when the lane is one of the \<open>LANES\<close>, as \<open>for_device\<close> makes
  it; it has room to tick while its millisecond is below the ceiling.\<close>

definition lane_wf :: "hlc \<Rightarrow> bool" where
  "lane_wf c \<longleftrightarrow> is_none_or (\<lambda>ln. ln < LANES) (lane c)"

definition has_room :: "hlc \<Rightarrow> bool" where
  "has_room c \<longleftrightarrow> lane_wf c \<and> physical_ms (latest c) \<noteq> u64_MAX"

lemma unat_LANES [simp]: "unat LANES = 2 ^ 24"
  by (simp add: LANES_def)

lemma lane_of_less: "lane_of h d < LANES"
  by (simp add: lane_of_def word_less_nat_alt unat_mod)

lemma step_to_simps [simp]:
  "latest (step_to c p) = HlcTimestamp (fst p) (snd p) (hlc_actor c)"
  "hlc_actor (step_to c p) = hlc_actor c"
  "lane (step_to c p) = lane c"
  by (simp_all add: step_to_def)

lemma lane_wf_step_to [simp]: "lane_wf (step_to c p) = lane_wf c"
  by (simp add: lane_wf_def)

lemma successor_beats:
  assumes "m \<noteq> u64_MAX" and "ms \<le> m" and "ms = m \<Longrightarrow> k \<le> k'"
  shows "(ms, k) < successor m k'"
proof (cases "checked_add k' 1")
  case None
  then show ?thesis
    using saturating_add_one_gt [OF assms(1)] assms(2)
    by (auto simp: successor_def)
next
  case (Some k'')
  then have "k' < k''"
    by (auto simp: checked_add_def word_less_nat_alt unat_add_no_wrap split: if_splits)
  with assms(3) have "ms = m \<Longrightarrow> k < k''"
    by (metis order_le_less_trans)
  with assms(2) Some show ?thesis
    by (cases "ms = m") (auto simp: successor_def)
qed

lemma successor_greater: "ms \<noteq> u64_MAX \<Longrightarrow> (ms, k) < successor ms k"
  by (rule successor_beats) simp_all

text \<open>The block arithmetic of \<open>next_after\<close> in natural numbers: none of its 64-bit sums can wrap.\<close>

definition lane_next :: "nat \<Rightarrow> nat \<Rightarrow> nat \<Rightarrow> nat" where
  "lane_next n k ln =
     (let in_block = k - k mod n + ln
      in if k < in_block then in_block else in_block + n)"

lemma lane_next_greater: "0 < n \<Longrightarrow> k < lane_next n k ln"
proof -
  assume "0 < n"
  then have "k mod n < n" "k mod n \<le> k" by simp_all
  then show ?thesis by (auto simp: lane_next_def Let_def)
qed

lemma lane_next_lane: "ln < n \<Longrightarrow> lane_next n k ln mod n = ln"
proof -
  assume ln: "ln < n"
  have "k - k mod n + ln = k div n * n + ln"
    by (simp add: minus_mod_eq_div_mult)
  with ln show ?thesis
    by (simp add: lane_next_def Let_def add.assoc)
qed

lemma unat_ucast_u32_u64: "unat (ucast (k :: u32) :: u64) = unat k"
  by (simp add: unsigned_ucast_eq take_bit_nat_eq_self less_trans [OF unat_bound])

lemma next_after_lane:
  assumes "lane c = Some ln" and "ln < LANES"
  shows "next_after c ms k =
     (if lane_next (2 ^ 24) (unat k) (unat ln) < 2 ^ 32 then (ms, of_nat (lane_next (2 ^ 24) (unat k) (unat ln)))
      else (saturating_add ms 1, ln))"
proof -
  let ?k = "ucast k :: u64" and ?l = "ucast ln :: u64" and ?n = "ucast LANES :: u64"
  let ?b = "?k - ?k mod ?n + ?l"
  have ln: "unat ln < 2 ^ 24"
    using assms(2) by (simp add: word_less_nat_alt)
  have k: "unat k < 2 ^ 32"
    using unat_bound [of k] by simp
  have n: "unat ?n = 2 ^ 24" by (simp add: unat_ucast_u32_u64)
  have "?k mod ?n \<le> ?k"
    by (simp add: word_le_nat_alt unat_mod)
  then have sub: "unat (?k - ?k mod ?n) = unat k - unat k mod 2 ^ 24"
    by (simp add: unat_sub_if' word_le_nat_alt unat_mod unat_ucast_u32_u64 n)
  have b: "unat ?b = unat k - unat k mod 2 ^ 24 + unat ln"
    using k ln by (subst unat_add_no_wrap) (auto simp: sub unat_ucast_u32_u64)
  have bn: "unat (?b + ?n) = unat k - unat k mod 2 ^ 24 + unat ln + 2 ^ 24"
    using k ln by (subst unat_add_no_wrap) (auto simp: b n)
  let ?x = "if ?k < ?b then ?b else ?b + ?n"
  have x: "unat ?x = lane_next (2 ^ 24) (unat k) (unat ln)"
    using b bn by (auto simp: lane_next_def Let_def word_less_nat_alt unat_ucast_u32_u64)
  have cast: "(ucast ?x :: u32) = of_nat (unat ?x)"
    by (simp only: of_nat_unat)
  have "next_after c ms k =
      (if unat ?x < 2 ^ 32 then (ms, ucast ?x) else (saturating_add ms 1, ln))"
    by (simp only: next_after_def assms(1) Let_def option.case)
  then show ?thesis
    by (simp only: cast x)
qed

lemma next_after_greater:
  assumes "has_room c" and "physical_ms (latest c) = ms"
  shows "(ms, k) < next_after c ms k"
proof (cases "lane c")
  case None
  with assms show ?thesis
    by (simp add: next_after_def has_room_def successor_greater)
next
  case (Some ln)
  with assms have ln: "ln < LANES"
    by (simp add: has_room_def lane_wf_def)
  have "k < of_nat (lane_next (2 ^ 24) (unat k) (unat ln))" if "lane_next (2 ^ 24) (unat k) (unat ln) < 2 ^ 32"
    using that lane_next_greater [of "2 ^ 24" "unat k" "unat ln"]
    by (simp add: word_less_nat_alt unat_of_nat)
  with assms show ?thesis
    by (simp add: next_after_lane [OF Some ln] has_room_def saturating_add_one_gt)
qed

lemma now_at_latest [simp]: "latest (snd (now_at c wall)) = fst (now_at c wall)"
  by (simp add: now_at_def Let_def)

lemma now_at_frame [simp]:
  "hlc_actor (snd (now_at c wall)) = hlc_actor c"
  "lane (snd (now_at c wall)) = lane c"
  "lane_wf (snd (now_at c wall)) = lane_wf c"
  "actor (fst (now_at c wall)) = hlc_actor c"
  by (simp_all add: now_at_def Let_def)

lemma now_at_greater: "has_room c \<Longrightarrow> reading (latest c) < reading (fst (now_at c wall))"
  using next_after_greater [of c "physical_ms (latest c)" "counter (latest c)"]
  by (simp add: now_at_def Let_def reading_def)

lemma witness_at_frame [simp]:
  "hlc_actor (witness_at c t wall) = hlc_actor c"
  "lane (witness_at c t wall) = lane c"
  "lane_wf (witness_at c t wall) = lane_wf c"
  by (simp_all add: witness_at_def Let_def)

lemma saturating_add_ceiling [simp]: "saturating_add u64_MAX 1 = u64_MAX"
  by (simp add: saturating_add_def unat_minus_one_word)

lemma u64_MAX_le [simp]: "u64_MAX \<le> x \<longleftrightarrow> x = u64_MAX"
  by (metis word_le_minus_one order_antisym order_refl)

lemma successor_ceiling [simp]: "fst (successor u64_MAX k) = u64_MAX"
  by (simp add: successor_def split: option.split)

lemma next_after_ceiling [simp]: "fst (next_after c u64_MAX k) = u64_MAX"
  by (simp add: next_after_def Let_def split: option.split)

text \<open>A clock at the ceiling stays there, so room after a step is room before it.\<close>

lemma has_room_now_at: "has_room (snd (now_at c wall)) \<Longrightarrow> has_room c"
  by (auto simp: has_room_def now_at_def Let_def)

lemma witness_at_laneless:
  assumes "lane c = None" and "\<not> wall + MAX_DRIFT_MS < physical_ms t"
    and "has_room (witness_at c t wall)"
  shows "has_room c"
    and "reading (latest c) < reading (latest (witness_at c t wall))"
    and "reading t < reading (latest (witness_at c t wall))"
proof -
  have room: "physical_ms (latest c) \<noteq> u64_MAX" "physical_ms t \<noteq> u64_MAX"
    using assms by (auto simp: has_room_def witness_at_def Let_def max_def split: if_splits)
  with assms(3) show "has_room c"
    by (simp add: has_room_def)
  have "reading (latest c) < reading (latest (witness_at c t wall))
      \<and> reading t < reading (latest (witness_at c t wall))"
    using assms(1,2) room
    by (auto simp: witness_at_def Let_def reading_def max_def not_le
        intro!: successor_beats split: if_splits)
  then show "reading (latest c) < reading (latest (witness_at c t wall))"
    and "reading t < reading (latest (witness_at c t wall))" by simp_all
qed

lemma witness_at_laned:
  assumes "lane c = Some ln" and "\<not> wall + MAX_DRIFT_MS < physical_ms t"
  shows "reading (latest (witness_at c t wall)) = max (reading (latest c)) (reading t)"
  using assms by (auto simp: witness_at_def reading_def max_def split: if_splits)

lemma witness_at_ge:
  assumes "has_room (witness_at c t wall)"
  shows "has_room c \<and> reading (latest c) \<le> reading (latest (witness_at c t wall))"
proof (cases "wall + MAX_DRIFT_MS < physical_ms t")
  case True
  with assms show ?thesis by (simp add: witness_at_def)
next
  case near: False
  show ?thesis
  proof (cases "lane c")
    case None
    show ?thesis
      using witness_at_laneless(1,2) [OF None near assms] by simp
  next
    case (Some ln)
    have "physical_ms (latest c) \<le> physical_ms (latest (witness_at c t wall))"
      using witness_at_laned [OF Some near] by (auto simp: reading_def max_def split: if_splits)
    with assms have "has_room c"
      by (auto simp: has_room_def)
    with witness_at_laned [OF Some near] show ?thesis by simp
  qed
qed

lemma witness_at_covers:
  assumes "has_room (witness_at c t wall)" and "\<not> wall + MAX_DRIFT_MS < physical_ms t"
  shows "reading t \<le> reading (latest (witness_at c t wall))"
proof (cases "lane c")
  case None
  show ?thesis
    using witness_at_laneless(3) [OF None assms(2,1)] by simp
next
  case (Some ln)
  show ?thesis
    using witness_at_laned [OF Some assms(2)] by simp
qed

section \<open>Runs of a clock\<close>

text \<open>What a process does with its clock: tick for an op of its own, observe a peer's op.\<close>

datatype ('t, 'w) clock_event = Tick 'w | Observe 't 'w

fun clock_run ::
  "('c \<Rightarrow> 'w \<Rightarrow> 't \<times> 'c) \<Rightarrow> ('c \<Rightarrow> 't \<Rightarrow> 'w \<Rightarrow> 'c) \<Rightarrow> 'c \<Rightarrow> ('t, 'w) clock_event list \<Rightarrow> 't list \<times> 'c"
where
  "clock_run tick observe c [] = ([], c)"
| "clock_run tick observe c (Tick w # es) =
     (let (t, c') = tick c w; (ts, c'') = clock_run tick observe c' es in (t # ts, c''))"
| "clock_run tick observe c (Observe t w # es) = clock_run tick observe (observe c t w) es"

locale ticking_clock =
  fixes tick :: "'c \<Rightarrow> 'w \<Rightarrow> 't \<times> 'c"
    and observe :: "'c \<Rightarrow> 't \<Rightarrow> 'w \<Rightarrow> 'c"
    and now_reading :: "'c \<Rightarrow> 'r::linorder"
    and stamp_reading :: "'t \<Rightarrow> 'r"
    and room :: "'c \<Rightarrow> bool"
  assumes tick_gt: "room (snd (tick c w)) \<Longrightarrow> room c \<and> now_reading c < now_reading (snd (tick c w))"
    and tick_stamp: "stamp_reading (fst (tick c w)) = now_reading (snd (tick c w))"
    and observe_ge: "room (observe c t w) \<Longrightarrow> room c \<and> now_reading c \<le> now_reading (observe c t w)"
begin

lemma run_above:
  "room (snd (clock_run tick observe c es)) \<Longrightarrow>
     room c \<and> now_reading c \<le> now_reading (snd (clock_run tick observe c es))
     \<and> (\<forall>t \<in> set (fst (clock_run tick observe c es)). now_reading c < stamp_reading t)"
proof (induction es arbitrary: c)
  case Nil
  then show ?case by simp
next
  case (Cons e es)
  show ?case
  proof (cases e)
    case (Tick w)
    with Cons.IH [of "snd (tick c w)"] Cons.prems tick_gt [of c w] tick_stamp [of c w] show ?thesis
      by (auto simp: split_beta Let_def)
  next
    case (Observe t w)
    with Cons.IH [of "observe c t w"] Cons.prems observe_ge [of c t w] show ?thesis
      by (auto intro: order_trans order_le_less_trans)
  qed
qed

lemma run_increasing:
  "room (snd (clock_run tick observe c es)) \<Longrightarrow>
     sorted_wrt (<) (map stamp_reading (fst (clock_run tick observe c es)))"
proof (induction es arbitrary: c)
  case Nil
  then show ?case by simp
next
  case (Cons e es)
  show ?case
  proof (cases e)
    case (Tick w)
    with Cons.IH [of "snd (tick c w)"] Cons.prems run_above [of "snd (tick c w)" es]
      tick_stamp [of c w]
    show ?thesis by (auto simp: split_beta Let_def)
  next
    case (Observe t w)
    with Cons show ?thesis by simp
  qed
qed

end

interpretation hlc_clock: ticking_clock now_at witness_at "\<lambda>c. reading (latest c)" reading has_room
proof
  fix c w
  show "has_room (snd (now_at c w)) \<Longrightarrow>
      has_room c \<and> reading (latest c) < reading (latest (snd (now_at c w)))"
    using has_room_now_at [of c w] now_at_greater [of c w] by simp
qed (simp_all add: witness_at_ge)

lemma now_at_lane:
  assumes "lane c = Some ln" and "ln < LANES"
  shows "counter (fst (now_at c wall)) mod LANES = ln"
proof -
  have ln: "unat ln < 2 ^ 24"
    using assms(2) by (simp add: word_less_nat_alt)
  have self: "ln mod LANES = ln"
    using ln by (simp add: word_unat_eq_iff unat_mod)
  have "of_nat (lane_next (2 ^ 24) k (unat ln)) mod LANES = ln" if "lane_next (2 ^ 24) k (unat ln) < 2 ^ 32" for k
    using that lane_next_lane [OF ln, of k] by (simp add: word_unat_eq_iff unat_mod unat_of_nat)
  with self show ?thesis
    by (simp add: now_at_def Let_def assms next_after_lane [OF assms])
qed

lemma run_lane:
  assumes "lane c = Some ln" and "ln < LANES"
    and "t \<in> set (fst (clock_run now_at witness_at c es))"
  shows "counter t mod LANES = ln"
  using assms(1,3)
proof (induction es arbitrary: c)
  case Nil
  then show ?case by simp
next
  case (Cons e es)
  show ?case
  proof (cases e)
    case (Tick w)
    with Cons.prems Cons.IH [of "snd (now_at c w)"] now_at_lane [of c ln w] assms(2) show ?thesis
      by (auto simp: split_beta Let_def)
  next
    case (Observe u w)
    with Cons.prems Cons.IH [of "witness_at c u w"] show ?thesis by simp
  qed
qed

lemma run_actor:
  "t \<in> set (fst (clock_run now_at witness_at c es)) \<Longrightarrow> actor t = hlc_actor c"
proof (induction es arbitrary: c)
  case (Cons e es)
  then show ?case
    by (cases e) (auto simp: split_beta Let_def)
qed simp

section \<open>Correctness of the clock\<close>

lemmas hlc_eval = has_room_def lane_wf_def seeded_def now_at_def witness_at_def next_after_def
  MAX_DRIFT_MS_def LANES_def Let_def reading_def

text \<open>C28: Every timestamp a clock mints is strictly greater than all it minted before, whatever wall
  clock readings it is given (also backwards ones) and whatever remote timestamps it witnesses in
  between, as long as the millisecond has not reached the 64-bit ceiling.\<close>

theorem hlc_run_increasing:
  assumes "has_room (snd (clock_run now_at witness_at c es))"
  shows "sorted_wrt (<) (fst (clock_run now_at witness_at c es))"
proof -
  have "sorted_wrt (\<lambda>a b. reading a < reading b) (fst (clock_run now_at witness_at c es))"
    using hlc_clock.run_increasing [OF assms] by (simp add: sorted_wrt_map)
  then show ?thesis
    by (rule sorted_wrt_mono_rel [rotated]) (rule reading_less)
qed

theorem hlc_run_increasing_witness:
  "sorted_wrt (<) (fst (clock_run now_at witness_at (seeded ''alice'' (Some 7) 100)
     [Tick 100, Observe (HlcTimestamp 150 3 ''bob'') 120, Tick 90, Tick 200, Tick 10]))"
  by (rule hlc_run_increasing) (simp add: hlc_eval)

text \<open>C29: Two devices of one master whose device ids hash to different lanes never mint the same
  timestamp, over any histories of ticks and observations on either side.\<close>

theorem sibling_clocks_disjoint:
  assumes "lane_of sha256 d1 \<noteq> lane_of sha256 d2"
  shows "set (fst (clock_run now_at witness_at (for_device sha256 master d1 w1) es1))
       \<inter> set (fst (clock_run now_at witness_at (for_device sha256 master d2 w2) es2)) = {}"
proof -
  have "counter t mod LANES = lane_of sha256 d"
    if "t \<in> set (fst (clock_run now_at witness_at (for_device sha256 master d w) es))" for t d w es
    using that by (rule run_lane [rotated 2]) (simp_all add: for_device_def seeded_def lane_of_less)
  with assms show ?thesis
    by (metis (no_types, lifting) disjoint_iff)
qed

theorem sibling_clocks_disjoint_witness:
  "set (fst (clock_run now_at witness_at (for_device rev ''m'' ''phone1'' 5) [Tick 5, Tick 5]))
     \<inter> set (fst (clock_run now_at witness_at (for_device rev ''m'' ''laptop'' 5) [Tick 5, Tick 6])) = {}"
  by (rule sibling_clocks_disjoint) (simp add: lane_of_def be_u32_def LANES_def)

text \<open>After witnessing a remote timestamp that is not beyond the drift bound, whatever the clock
  mints next is strictly greater than it; a timestamp beyond the bound leaves the clock as it was.\<close>

theorem witness_then_now:
  assumes "has_room (snd (now_at (witness_at c t wall) wall'))"
  shows "if wall + MAX_DRIFT_MS < physical_ms t then witness_at c t wall = c
         else t < fst (now_at (witness_at c t wall) wall')"
proof (cases "wall + MAX_DRIFT_MS < physical_ms t")
  case True
  then show ?thesis by (simp add: witness_at_def)
next
  case False
  have "reading t \<le> reading (latest (witness_at c t wall))"
    by (rule witness_at_covers [OF has_room_now_at [OF assms] False])
  also have "\<dots> < reading (fst (now_at (witness_at c t wall) wall'))"
    by (rule now_at_greater [OF has_room_now_at [OF assms]])
  finally show ?thesis
    using False by (simp add: reading_less)
qed

theorem witness_then_now_witness:
  "HlcTimestamp 150 3 ''bob'' <
     fst (now_at (witness_at (seeded ''alice'' (Some 7) 100) (HlcTimestamp 150 3 ''bob'') 120) 90)"
proof -
  have "has_room (snd (now_at (witness_at (seeded ''alice'' (Some 7) 100)
      (HlcTimestamp 150 3 ''bob'') 120) 90))" by (simp add: hlc_eval)
  moreover have "\<not> (120 :: u64) + MAX_DRIFT_MS < physical_ms (HlcTimestamp 150 3 ''bob'')"
    by (simp add: MAX_DRIFT_MS_def)
  ultimately show ?thesis
    using witness_then_now [of "seeded ''alice'' (Some 7) 100" "HlcTimestamp 150 3 ''bob''" 120 90]
    by simp
qed

end
