(* ===== verification/AdminLww.thy ===== *)
theory AdminLww
  imports HashMap Hlc
begin

text \<open>
  The last-writer-wins register of \<open>crdt/admin_lww.rs\<close> and the two ways the server state holds
  registers: in a map keyed by a string, written through \<open>entry().or_insert_with().merge()\<close>, and as
  the newest of a series of clocks. The locale \<open>max_register\<close> is the convergence contract of a
  merge that keeps the later stamp; \<open>register_store\<close> lifts it to a keyed map of registers.
\<close>

record 'v admin_lww_reg =
  reg_value :: 'v
  reg_priority :: u8
  reg_hlc :: hlc_timestamp

definition lww_new :: "'v \<Rightarrow> hlc_timestamp \<Rightarrow> u8 \<Rightarrow> 'v admin_lww_reg" where
  "lww_new v h p = \<lparr>reg_value = v, reg_priority = p, reg_hlc = h\<rparr>"

definition lww_update :: "'v \<Rightarrow> hlc_timestamp \<Rightarrow> u8 \<Rightarrow> 'v admin_lww_reg \<Rightarrow> 'v admin_lww_reg" where
  "lww_update v h p r = r\<lparr>reg_value := v, reg_priority := p, reg_hlc := h\<rparr>"

definition lww_read :: "'v admin_lww_reg \<Rightarrow> 'v" where
  "lww_read r = reg_value r"

definition lww_clamp_hlc :: "u64 \<Rightarrow> 'v admin_lww_reg \<Rightarrow> bool \<times> 'v admin_lww_reg" where
  "lww_clamp_hlc max_ms r =
     (if max_ms < physical_ms (reg_hlc r)
      then (True, r\<lparr>reg_hlc := HlcTimestamp max_ms (counter (reg_hlc r)) (actor (reg_hlc r))\<rparr>)
      else (False, r))"

definition lww_merge :: "'v admin_lww_reg \<Rightarrow> 'v admin_lww_reg \<Rightarrow> 'v admin_lww_reg" where
  "lww_merge self other =
     (if reg_hlc self < reg_hlc other
      then self\<lparr>reg_value := reg_value other, reg_priority := reg_priority other,
                reg_hlc := reg_hlc other\<rparr>
      else self)"

text \<open>\<open>map.entry(k).or_insert_with(|| remote.clone()).merge(&remote)\<close>.\<close>

definition lww_write :: "string \<Rightarrow> 'v admin_lww_reg \<Rightarrow> 'v admin_lww_reg hmap \<Rightarrow> 'v admin_lww_reg hmap" where
  "lww_write k remote m =
     hm_modify k (\<lambda>entry. lww_merge entry remote) (hm_or_insert k remote m)"

text \<open>\<open>if slot.is_none_or(|h| hlc > h) { slot = Some(hlc) }\<close>.\<close>

definition keep_later :: "hlc_timestamp option \<Rightarrow> hlc_timestamp \<Rightarrow> hlc_timestamp option" where
  "keep_later slot h = (if is_none_or (\<lambda>old. old < h) slot then Some h else slot)"

lemmas lww_simps = lww_new_def lww_update_def lww_read_def

section \<open>Registers that keep the later stamp\<close>

locale max_register =
  fixes merge :: "'r \<Rightarrow> 'r \<Rightarrow> 'r"
    and stamp :: "'r \<Rightarrow> 'k::linorder"
  assumes merge_later: "stamp a < stamp b \<Longrightarrow> merge a b = b"
    and merge_earlier: "\<not> stamp a < stamp b \<Longrightarrow> merge a b = a"
begin

lemma merge_idem: "merge a a = a"
  by (simp add: merge_earlier)

lemma stamp_merge: "stamp (merge a b) = max (stamp a) (stamp b)"
  by (cases "stamp a < stamp b") (auto simp: merge_later merge_earlier max_def)

lemma merge_assoc: "merge (merge a b) c = merge a (merge b c)"
  by (cases "stamp a < stamp b"; cases "stamp b < stamp c"; cases "stamp a < stamp c")
    (simp_all add: merge_later merge_earlier)

lemma merge_comm: "(stamp a = stamp b \<Longrightarrow> a = b) \<Longrightarrow> merge a b = merge b a"
  by (cases "stamp a < stamp b"; cases "stamp b < stamp a")
    (auto simp: merge_later merge_earlier)

lemma merge_absorb: "merge (merge a b) b = merge a b"
  by (simp add: merge_assoc merge_idem)

lemma foldl_merge_in: "foldl merge x xs \<in> set (x # xs)"
proof (induction xs arbitrary: x)
  case (Cons y ys)
  show ?case
    using Cons [of "merge x y"]
    by (cases "stamp x < stamp y") (auto simp: merge_later merge_earlier)
qed simp

lemma foldl_merge_top: "y \<in> set (x # xs) \<Longrightarrow> stamp y \<le> stamp (foldl merge x xs)"
proof (induction xs arbitrary: x y)
  case (Cons z zs)
  have "stamp (merge x z) \<le> stamp (foldl merge (merge x z) zs)"
    by (rule Cons.IH) simp
  moreover have "stamp x \<le> stamp (merge x z)" "stamp z \<le> stamp (merge x z)"
    by (simp_all add: stamp_merge)
  ultimately show ?case
    using Cons.prems Cons.IH [of y "merge x z"] by (auto intro: order_trans)
qed simp

lemma foldl_merge_cong:
  assumes inj: "inj_on stamp (set (x # xs))" and same: "set (x # xs) = set (y # ys)"
  shows "foldl merge x xs = foldl merge y ys"
proof (rule inj_onD [OF inj])
  show x: "foldl merge x xs \<in> set (x # xs)"
    by (rule foldl_merge_in)
  show y: "foldl merge y ys \<in> set (x # xs)"
    unfolding same by (rule foldl_merge_in)
  show "stamp (foldl merge x xs) = stamp (foldl merge y ys)"
    by (rule order_antisym) (rule foldl_merge_top [OF x [unfolded same]], rule foldl_merge_top [OF y])
qed

end

interpretation lww: max_register lww_merge reg_hlc
  by unfold_locales (simp_all add: lww_merge_def)

definition later_clock :: "hlc_timestamp option \<Rightarrow> hlc_timestamp option \<Rightarrow> hlc_timestamp option" where
  "later_clock slot h = (case h of None \<Rightarrow> slot | Some h \<Rightarrow> keep_later slot h)"

interpretation clk: max_register later_clock "\<lambda>x. x"
proof
  fix a b :: "hlc_timestamp option"
  show "a < b \<Longrightarrow> later_clock a b = b"
    by (cases a; cases b) (simp_all add: later_clock_def keep_later_def)
  show "\<not> a < b \<Longrightarrow> later_clock a b = a"
    by (cases a; cases b) (simp_all add: later_clock_def keep_later_def)
qed

section \<open>A map of registers\<close>

locale register_store = max_register merge stamp
  for merge :: "'r \<Rightarrow> 'r \<Rightarrow> 'r" and stamp :: "'r \<Rightarrow> 'k::linorder" +
  fixes lookup :: "'m \<Rightarrow> 'key \<Rightarrow> 'r option"
    and put_reg :: "'key \<Rightarrow> 'r \<Rightarrow> 'm \<Rightarrow> 'm"
  assumes lookup_write:
    "lookup (put_reg k r m) j =
       (if j = k then Some (case lookup m k of None \<Rightarrow> r | Some s \<Rightarrow> merge s r) else lookup m j)"
begin

lemma write_absorb: "lookup (put_reg k r (put_reg k r m)) = lookup (put_reg k r m)"
  by (rule ext) (auto simp: lookup_write merge_idem merge_absorb split: option.split)

lemma write_swap:
  assumes "j = k \<Longrightarrow> stamp r = stamp s \<Longrightarrow> r = s"
  shows "lookup (put_reg k r (put_reg j s m)) = lookup (put_reg j s (put_reg k r m))"
  using assms
  by (intro ext) (auto simp: lookup_write merge_assoc merge_comm [of r s] split: option.split)

lemma lookup_fold:
  "lookup (fold (\<lambda>(k, r). put_reg k r) ws m) j =
     (case lookup m j of
        Some s \<Rightarrow> Some (foldl merge s (map snd (filter (\<lambda>w. fst w = j) ws)))
      | None \<Rightarrow> (case map snd (filter (\<lambda>w. fst w = j) ws) of
                   [] \<Rightarrow> None
                 | r # rs \<Rightarrow> Some (foldl merge r rs)))"
  by (induction ws arbitrary: m) (auto simp: lookup_write split: option.split)

lemma fold_writes_agree:
  assumes same: "set vs = set ws"
    and inj: "\<And>k. inj_on stamp (snd ` {w \<in> set ws. fst w = k} \<union> set_option (lookup m k))"
  shows "lookup (fold (\<lambda>(k, r). put_reg k r) vs m) = lookup (fold (\<lambda>(k, r). put_reg k r) ws m)"
proof
  fix k
  let ?f = "\<lambda>us :: ('key \<times> 'r) list. map snd (filter (\<lambda>w. fst w = k) us)"
  have sets: "set (?f vs) = set (?f ws)"
    using same by auto
  have im: "snd ` {w \<in> set ws. fst w = k} = set (?f ws)" by auto
  note inj = inj [of k, unfolded im]
  show "lookup (fold (\<lambda>(k, r). put_reg k r) vs m) k = lookup (fold (\<lambda>(k, r). put_reg k r) ws m) k"
  proof (cases "lookup m k")
    case (Some s)
    have "foldl merge s (?f vs) = foldl merge s (?f ws)"
      by (rule foldl_merge_cong) (use inj sets Some in simp_all)
    with Some show ?thesis by (simp add: lookup_fold)
  next
    case None
    show ?thesis
    proof (cases "?f ws")
      case Nil
      moreover from Nil sets have "?f vs = []"
        by (metis set_empty)
      ultimately show ?thesis
        using None by (simp only: lookup_fold option.case list.case)
    next
      case (Cons r rs)
      with sets obtain q qs where vs: "?f vs = q # qs"
        by (cases "?f vs") auto
      have "foldl merge q qs = foldl merge r rs"
        by (rule foldl_merge_cong) (use inj sets None Cons vs in auto)
      with None Cons vs show ?thesis by (simp add: lookup_fold)
    qed
  qed
qed

end

lemma lww_write_get [hmap_simps]:
  "hm_get (lww_write k r m) j =
     (if j = k then Some (case hm_get m k of None \<Rightarrow> r | Some s \<Rightarrow> lww_merge s r) else hm_get m j)"
  by (auto simp: lww_write_def hm_modify_get hm_or_insert_get lww.merge_idem split: option.split)

lemma lww_write_wf [hmap_wf]: "hm_wf m \<Longrightarrow> hm_wf (lww_write k r m)"
  by (simp add: lww_write_def hmap_wf)

interpretation lww_map: register_store lww_merge reg_hlc hm_get lww_write
  by unfold_locales (rule lww_write_get)

section \<open>Convergence of registers\<close>

text \<open>Two replicas that apply the same set of register writes to the same map, each in its own
  order and with any repetition, read the same register under every key, provided that distinct
  writes to one key carry distinct timestamps.\<close>

theorem lww_writes_converge:
  assumes "set vs = set ws"
    and "\<And>k. inj_on reg_hlc (snd ` {w \<in> set ws. fst w = k} \<union> set_option (hm_get m k))"
  shows "hm_get (fold (\<lambda>(k, r). lww_write k r) vs m) = hm_get (fold (\<lambda>(k, r). lww_write k r) ws m)"
  by (rule lww_map.fold_writes_agree [OF assms])

theorem lww_writes_converge_witness:
  "hm_get (fold (\<lambda>(k, r). lww_write k r)
       [(''name'', lww_new (1 :: nat) (HlcTimestamp 5 0 ''a'') 3), (''name'', lww_new 2 (HlcTimestamp 6 0 ''b'') 0)] [])
   = hm_get (fold (\<lambda>(k, r). lww_write k r)
       [(''name'', lww_new 2 (HlcTimestamp 6 0 ''b'') 0), (''name'', lww_new 1 (HlcTimestamp 5 0 ''a'') 3),
        (''name'', lww_new 2 (HlcTimestamp 6 0 ''b'') 0)] [])"
  by (rule lww_writes_converge) (auto simp: lww_new_def inj_on_def)

text \<open>The register merge is idempotent and associative, and commutative on registers whose equal
  timestamps mean the identical write; the merged register always carries the later timestamp.\<close>

theorem lww_merge_semilattice:
  "lww_merge a a = a
   \<and> lww_merge (lww_merge a b) c = lww_merge a (lww_merge b c)
   \<and> reg_hlc (lww_merge a b) = max (reg_hlc a) (reg_hlc b)
   \<and> ((reg_hlc a = reg_hlc b \<longrightarrow> a = b) \<longrightarrow> lww_merge a b = lww_merge b a)"
  using lww.merge_comm [of a b] by (simp add: lww.merge_idem lww.merge_assoc lww.stamp_merge)

theorem lww_merge_semilattice_witness:
  "lww_merge (lww_new (1 :: nat) (HlcTimestamp 5 0 ''a'') 3) (lww_new 2 (HlcTimestamp 5 1 ''a'') 0)
   = lww_merge (lww_new 2 (HlcTimestamp 5 1 ''a'') 0) (lww_new 1 (HlcTimestamp 5 0 ''a'') 3)"
  using lww_merge_semilattice [of "lww_new (1 :: nat) (HlcTimestamp 5 0 ''a'') 3"
      "lww_new 2 (HlcTimestamp 5 1 ''a'') 0"]
  by (simp add: lww_new_def)

end
