(* ===== verification/Operations.thy ===== *)
theory Operations
  imports JoinLock AdminLww
begin

text \<open>
  Operations and their author proof (\<open>crdt/operations.rs\<close>): the payload variants in the order of the
  source, signing and verification, the tolerant batch parse, a joiner's signed ask, roles and
  permission bits. JSON is serde's: the four fields of the record \<open>env\<close> stand for it.
\<close>

section \<open>Data\<close>

record crdt_auth =
  auth_sig :: string
  auth_pk :: string

datatype op_reject =
  MissingSignature | AuthorMismatch | ActorMismatch | BadSignature | FutureHlc | WrongServer | NotAllowed

definition op_reject_fmt :: "op_reject \<Rightarrow> string" where
  "op_reject_fmt r =
     (case r of
        MissingSignature \<Rightarrow> ''no author signature''
      | AuthorMismatch \<Rightarrow> ''signing key does not match the author''
      | ActorMismatch \<Rightarrow> ''clock names someone other than the author''
      | BadSignature \<Rightarrow> ''signature does not verify''
      | FutureHlc \<Rightarrow> ''timestamp too far ahead of the wall clock''
      | WrongServer \<Rightarrow> ''op belongs to another server''
      | NotAllowed \<Rightarrow> ''author lacks permission for this operation'')"

datatype member_role = Owner | Admin | Moderator | Member

datatype voice_chat = ChatServer | ChatOn | ChatOff

record join_ask =
  ask_at :: int
  ask_sig :: string
  ask_pk :: string

text \<open>The fields of each variant are in the order the source declares them. A join secret is its
  text; the grants of a join lock are the entries of a \<open>BTreeMap\<close>, sorted by key.\<close>

datatype (plugins only: code size) crdt_payload =
    ServerCreated string string string
  | ServerCheckpoint string hlc_timestamp
  | ServerRenamed string
  | ServerSettingChanged string string
  | JoinKeySet string
  | JoinLock lock_link "string option" "(string \<times> string) list"
  | ServerDeleted int
  | ChannelAdded string string "string option" string
  | ChannelRemoved string
  | ChannelRenamed string string
  | MemberAdded string string "string option" "join_ask option"
  | MemberRemoved string
  | RoleChanged string member_role u8
  | NicknameChanged string string
  | TwitchUsernameChanged string string
  | ChannelLayoutUpdated string
  | MessagePinned string string
  | MessageUnpinned string string
  | StoragePledgeChanged string u64
  | RolePermissionsChanged string u32
  | LabelCreated string string string bool
  | LabelDeleted string
  | LabelUpdated string string string "bool option"
  | LabelAssigned string string
  | LabelUnassigned string string
  | ChannelVisibilityChanged string string
  | ChannelPostingChanged string string
  | ChannelPublicChanged string bool
  | ChannelVisibilityLabelsChanged string "string list"
  | ChannelPostingLabelsChanged string "string list"
  | ChannelGrantSet string string u64
  | ChannelGrantRevoked string string
  | MemberBanned string
  | MemberUnbanned string
  | MemberMuted string u64
  | MemberUnmuted string
  | ChannelSlowModeChanged string u32
  | ChannelMediaOnlyChanged string bool
  | ChannelVoiceChatChanged string voice_chat
  | EmojiAdded string string bool
  | EmojiRemoved string
  | StickerAdded string string string bool u32 u32
  | StickerRemoved string

record crdt_op =
  op_server_id :: string
  op_hlc :: hlc_timestamp
  op_author :: string
  op_payload :: crdt_payload
  op_auth :: "crdt_auth option"

record op_shape =
  shape_server_id :: string
  shape_hlc :: hlc_timestamp
  shape_author :: string
  shape_raw :: string
  shape_auth :: "crdt_auth option"

text \<open>\<open>payload_json\<close> and \<open>payload_of_json\<close> are serde's writer and reader of a payload,
  \<open>shape_of_json\<close> the reader of an op whose payload stays raw text, \<open>items_of_json\<close> the reader of an
  array of raw items.\<close>

record env = crypto +
  payload_json :: "crdt_payload \<Rightarrow> string"
  payload_of_json :: "string \<Rightarrow> crdt_payload option"
  shape_of_json :: "string \<Rightarrow> op_shape option"
  items_of_json :: "string \<Rightarrow> string list option"

section \<open>Signing\<close>

definition signing_payload_of :: "string \<Rightarrow> hlc_timestamp \<Rightarrow> string \<Rightarrow> string \<Rightarrow> string" where
  "signing_payload_of server_id h author json =
     ''hollow-crdt1:'' @ server_id @ '':'' @ show_word (physical_ms h) @ '':'' @ show_word (counter h)
     @ '':'' @ actor h @ '':'' @ author @ '':'' @ json"

definition signing_payload :: "('a) env_scheme \<Rightarrow> crdt_op \<Rightarrow> string" where
  "signing_payload E op =
     signing_payload_of (op_server_id op) (op_hlc op) (op_author op) (payload_json E (op_payload op))"

definition op_sign :: "('a) env_scheme \<Rightarrow> native_keypair \<Rightarrow> string \<Rightarrow> crdt_op \<Rightarrow> crdt_op" where
  "op_sign E kp pk_b64 op =
     (let sig = kp_sign E kp (signing_payload E op)
      in op\<lparr>op_auth := Some \<lparr>auth_sig = b64_encode E sig, auth_pk = pk_b64\<rparr>\<rparr>)"

definition verify_signed ::
  "('a) crypto_scheme \<Rightarrow> string \<Rightarrow> hlc_timestamp \<Rightarrow> crdt_auth option \<Rightarrow> string \<Rightarrow> op_reject + unit" where
  "verify_signed C author h auth text =
     (case auth of
        None \<Rightarrow> Inl MissingSignature
      | Some a \<Rightarrow>
          (case b64_decode C (auth_pk a) of
             None \<Rightarrow> Inl AuthorMismatch
           | Some pk_bytes \<Rightarrow>
               (case peer_id_from_pubkey_protobuf C pk_bytes of
                  None \<Rightarrow> Inl AuthorMismatch
                | Some derived \<Rightarrow>
                    if derived \<noteq> author then Inl AuthorMismatch
                    else if actor h \<noteq> author then Inl ActorMismatch
                    else
                      (case b64_decode C (auth_sig a) of
                         None \<Rightarrow> Inl BadSignature
                       | Some sig_bytes \<Rightarrow>
                           if verify_peer_signature C pk_bytes sig_bytes text = Inr True
                           then Inr () else Inl BadSignature))))"

definition verify_author :: "('a) env_scheme \<Rightarrow> crdt_op \<Rightarrow> op_reject + unit" where
  "verify_author E op =
     verify_signed E (op_author op) (op_hlc op) (op_auth op) (signing_payload E op)"

section \<open>Reading ops\<close>

record unread_op =
  unread_server_id :: string
  unread_author :: string
  unread_hlc :: hlc_timestamp
  unread_raw :: string

datatype read_op = ReadOp crdt_op | ReadUnread unread_op | ReadJunk

definition read_op :: "('a) env_scheme \<Rightarrow> string \<Rightarrow> read_op" where
  "read_op E item =
     (case shape_of_json E item of
        None \<Rightarrow> ReadJunk
      | Some shape \<Rightarrow>
          (let raw = shape_raw shape;
               parsed = payload_of_json E raw;
               whole = is_some_and (\<lambda>p. payload_json E p = raw) parsed;
               text = signing_payload_of (shape_server_id shape) (shape_hlc shape) (shape_author shape) raw
           in if \<not> whole
                 \<and> verify_signed E (shape_author shape) (shape_hlc shape) (shape_auth shape) text = Inr ()
              then ReadUnread \<lparr>unread_server_id = shape_server_id shape, unread_author = shape_author shape,
                               unread_hlc = shape_hlc shape, unread_raw = item\<rparr>
              else
                (case parsed of
                   Some p \<Rightarrow> ReadOp \<lparr>op_server_id = shape_server_id shape, op_hlc = shape_hlc shape,
                                     op_author = shape_author shape, op_payload = p,
                                     op_auth = shape_auth shape\<rparr>
                 | None \<Rightarrow> ReadJunk)))"

record tolerant_parse =
  parsed_ops :: "crdt_op list"
  parsed_unread :: "unread_op list"
  malformed :: bool

fun tolerant_push :: "tolerant_parse \<Rightarrow> read_op \<Rightarrow> tolerant_parse" where
  "tolerant_push out (ReadOp op) = out\<lparr>parsed_ops := parsed_ops out @ [op]\<rparr>"
| "tolerant_push out (ReadUnread op) = out\<lparr>parsed_unread := parsed_unread out @ [op]\<rparr>"
| "tolerant_push out ReadJunk = out"

definition parse_ops_tolerant :: "('a) env_scheme \<Rightarrow> string \<Rightarrow> tolerant_parse" where
  "parse_ops_tolerant E json =
     (let empty = \<lparr>parsed_ops = [], parsed_unread = [], malformed = False\<rparr>
      in case items_of_json E json of
           None \<Rightarrow> empty\<lparr>malformed := True\<rparr>
         | Some items \<Rightarrow> foldl (\<lambda>out item. tolerant_push out (read_op E item)) empty items)"

section \<open>Join asks\<close>

definition ask_signing_payload :: "string \<Rightarrow> string \<Rightarrow> int \<Rightarrow> bytes" where
  "ask_signing_payload server_id joiner at =
     ''hollow-join-ask1'' @ [CHR 0x00] @ server_id @ [CHR 0x00] @ joiner @ [CHR 0x00] @ show_int at"

definition ask_sign :: "('a) crypto_scheme \<Rightarrow> string \<Rightarrow> int \<Rightarrow> native_keypair \<Rightarrow> join_ask" where
  "ask_sign C server_id at kp =
     (let sig = kp_sign C kp (ask_signing_payload server_id (peer_id kp) at)
      in \<lparr>ask_at = at, ask_sig = b64_encode C sig, ask_pk = b64_encode C (public_key_protobuf C kp)\<rparr>)"

definition ask_verifies :: "('a) crypto_scheme \<Rightarrow> join_ask \<Rightarrow> string \<Rightarrow> string \<Rightarrow> bool" where
  "ask_verifies C ask server_id joiner =
     (case (b64_decode C (ask_pk ask), b64_decode C (ask_sig ask)) of
        (Some pk, Some sig) \<Rightarrow>
          is_some_and (\<lambda>i. i = joiner) (peer_id_from_pubkey_protobuf C pk)
          \<and> verify_peer_signature C pk sig (ask_signing_payload server_id joiner (ask_at ask)) = Inr True
      | _ \<Rightarrow> False)"

end
