(* ===== verification/Roles.thy ===== *)
theory Roles
  imports Operations
begin

unbundle bit_operations_syntax

text \<open>Member roles and permission bits (the end of \<open>crdt/operations.rs\<close>).\<close>

definition MANAGE_SERVER :: u32 where "MANAGE_SERVER = push_bit 0 1"

definition MANAGE_CHANNELS :: u32 where "MANAGE_CHANNELS = push_bit 1 1"

definition MANAGE_ROLES :: u32 where "MANAGE_ROLES = push_bit 2 1"

definition KICK_MEMBERS :: u32 where "KICK_MEMBERS = push_bit 4 1"

definition SEND_MESSAGES :: u32 where "SEND_MESSAGES = push_bit 5 1"

definition READ_MESSAGES :: u32 where "READ_MESSAGES = push_bit 6 1"

definition MANAGE_EMOTES :: u32 where "MANAGE_EMOTES = push_bit 7 1"

definition ALL_PERMISSIONS :: u32 where
  "ALL_PERMISSIONS = MANAGE_SERVER OR MANAGE_CHANNELS OR MANAGE_ROLES OR KICK_MEMBERS
     OR SEND_MESSAGES OR READ_MESSAGES OR MANAGE_EMOTES"

fun priority :: "member_role \<Rightarrow> u8" where
  "priority Owner = 3"
| "priority Admin = 2"
| "priority Moderator = 1"
| "priority Member = 0"

fun as_str :: "member_role \<Rightarrow> string" where
  "as_str Owner = ''owner''"
| "as_str Admin = ''admin''"
| "as_str Moderator = ''moderator''"
| "as_str Member = ''member''"

definition from_str :: "string \<Rightarrow> member_role" where
  "from_str s =
     (if s = ''owner'' then Owner
      else if s = ''admin'' then Admin
      else if s = ''moderator'' then Moderator
      else Member)"

fun default_permissions :: "member_role \<Rightarrow> u32" where
  "default_permissions Owner = ALL_PERMISSIONS"
| "default_permissions Admin =
     MANAGE_SERVER OR MANAGE_CHANNELS OR MANAGE_ROLES OR KICK_MEMBERS OR SEND_MESSAGES
     OR READ_MESSAGES OR MANAGE_EMOTES"
| "default_permissions Moderator = KICK_MEMBERS OR SEND_MESSAGES OR READ_MESSAGES"
| "default_permissions Member = SEND_MESSAGES OR READ_MESSAGES"

definition outranks :: "member_role \<Rightarrow> member_role \<Rightarrow> bool" where
  "outranks a b \<longleftrightarrow> priority b < priority a"

lemmas permission_bits = MANAGE_SERVER_def MANAGE_CHANNELS_def MANAGE_ROLES_def KICK_MEMBERS_def
  SEND_MESSAGES_def READ_MESSAGES_def MANAGE_EMOTES_def ALL_PERMISSIONS_def

lemma from_str_as_str [simp]: "from_str (as_str r) = r"
  by (cases r) (simp_all add: from_str_def)

lemma as_str_inject [simp]: "as_str a = as_str b \<longleftrightarrow> a = b"
  by (metis from_str_as_str)

lemma priority_inject [simp]: "priority a = priority b \<longleftrightarrow> a = b"
  by (cases a; cases b) simp_all

lemma priority_le_three: "priority r \<le> 3"
  by (cases r) simp_all

lemma priority_lt_iff:
  "priority a < priority b \<longleftrightarrow>
     (a, b) \<in> {(Member, Moderator), (Member, Admin), (Member, Owner), (Moderator, Admin),
              (Moderator, Owner), (Admin, Owner)}"
  by (cases a; cases b) simp_all

lemma outranks_owner [simp]: "\<not> outranks r Owner"
  by (cases r) (simp_all add: outranks_def)

lemma outranks_irrefl [simp]: "\<not> outranks r r"
  by (simp add: outranks_def)

lemma outranks_trans: "outranks a b \<Longrightarrow> outranks b c \<Longrightarrow> outranks a c"
  by (simp add: outranks_def)

lemma outranks_total: "a = b \<or> outranks a b \<or> outranks b a"
  by (cases a; cases b) (simp_all add: outranks_def)

text \<open>The role names round-trip through their text, ranking is a strict total order with the Owner
  on top, and a role's default permission bits include those of every role it outranks.\<close>

theorem role_ladder:
  "from_str (as_str r) = r
   \<and> (a = b \<or> outranks a b \<or> outranks b a) \<and> \<not> (outranks a b \<and> outranks b a)
   \<and> \<not> outranks r Owner
   \<and> (outranks a b \<longrightarrow> default_permissions b AND default_permissions a = default_permissions b)"
proof -
  have "outranks a b \<longrightarrow> default_permissions b AND default_permissions a = default_permissions b"
    by (cases a; cases b) (simp_all add: outranks_def permission_bits)
  then show ?thesis
    using outranks_total [of a b] outranks_trans [of a b a] by auto
qed

theorem role_ladder_witness:
  "default_permissions Moderator AND default_permissions Admin = default_permissions Moderator"
  using role_ladder [of Owner Admin Moderator] by (simp add: outranks_def)

end
