(* ===== verification/AuthorProof.thy ===== *)
theory AuthorProof
  imports Operations
begin

text \<open>What the author proof of \<open>crdt/operations.rs\<close> gives: signatures of the model's own signer verify,
  a verified op is bound to its author, signed texts of different ops differ, and the tolerant parse
  never hands a truly signed op on in a shape whose signature fails.\<close>

lemma verify_signed_ok:
  "verify_signed C author h auth text = Inr () \<longleftrightarrow>
     (\<exists>a pk sig. auth = Some a \<and> b64_decode C (auth_pk a) = Some pk
        \<and> peer_id_from_pubkey_protobuf C pk = Some author \<and> actor h = author
        \<and> b64_decode C (auth_sig a) = Some sig \<and> verify_peer_signature C pk sig text = Inr True)"
  by (auto simp: verify_signed_def split: option.splits if_splits)

lemma verify_signed_rejects:
  assumes "verify_signed C author h auth text = Inl r"
  shows "r \<in> {MissingSignature, AuthorMismatch, ActorMismatch, BadSignature}"
  using assms by (auto simp: verify_signed_def split: option.splits if_splits)

lemma signing_payload_of_inject:
  assumes same: "signing_payload_of s h a j = signing_payload_of s' h' a' j'"
    and colon: "CHR '':'' \<notin> set s" "CHR '':'' \<notin> set s'" "CHR '':'' \<notin> set (actor h)"
      "CHR '':'' \<notin> set (actor h')" "CHR '':'' \<notin> set a" "CHR '':'' \<notin> set a'"
  shows "s = s' \<and> h = h' \<and> a = a' \<and> j = j'"
proof -
  note num = show_nat_no_colon
  from same have *: "s @ CHR '':'' # show_word (physical_ms h) @ CHR '':'' # show_word (counter h) @ CHR '':''
      # actor h @ CHR '':'' # a @ CHR '':'' # j
    = s' @ CHR '':'' # show_word (physical_ms h') @ CHR '':'' # show_word (counter h') @ CHR '':''
      # actor h' @ CHR '':'' # a' @ CHR '':'' # j'"
    by (simp add: signing_payload_of_def)
  note 1 = split_at_colon [OF * colon(1,2)]
  note 2 = split_at_colon [OF conjunct2 [OF 1] num num]
  note 3 = split_at_colon [OF conjunct2 [OF 2] num num]
  note 4 = split_at_colon [OF conjunct2 [OF 3] colon(3,4)]
  note 5 = split_at_colon [OF conjunct2 [OF 4] colon(5,6)]
  from 1 2 3 4 5 show ?thesis
    by (cases h; cases h') (simp add: word_unat_eq_iff)
qed

lemma signing_payload_auth [simp]: "signing_payload E (op\<lparr>op_auth := a\<rparr>) = signing_payload E op"
  by (simp add: signing_payload_def)

lemma tolerant_fold:
  "parsed_ops (foldl (\<lambda>out item. tolerant_push out (f item)) out items)
     = parsed_ops out @ concat (map (\<lambda>i. case f i of ReadOp op \<Rightarrow> [op] | _ \<Rightarrow> []) items)
   \<and> parsed_unread (foldl (\<lambda>out item. tolerant_push out (f item)) out items)
     = parsed_unread out @ concat (map (\<lambda>i. case f i of ReadUnread u \<Rightarrow> [u] | _ \<Rightarrow> []) items)
   \<and> malformed (foldl (\<lambda>out item. tolerant_push out (f item)) out items) = malformed out"
proof (induction items arbitrary: out)
  case (Cons i items)
  then show ?case by (cases "f i") simp_all
qed simp

section \<open>Correctness of the author proof\<close>

lemma signed_op_verifies:
  assumes "encoding_laws E" and "signature_laws E" and "length sk = 32"
    and "op_author op = peer_id (from_secret_bytes E sk)" and "actor (op_hlc op) = op_author op"
  shows "verify_author E (op_sign E (from_secret_bytes E sk)
    (b64_encode E (public_key_protobuf E (from_secret_bytes E sk))) op) = Inr ()"
  using assms by (simp add: verify_author_def verify_signed_ok op_sign_def Let_def
      public_key_protobuf_id verify_own_signature)

text \<open>C31: An op passes the author check exactly when it carries a key that derives its author and a
  signature of that key over its signing payload, with its clock naming the author; an op signed by
  its author's own keypair passes.\<close>

theorem verify_author_correct:
  "(verify_author E op = Inr () \<longleftrightarrow>
      (\<exists>a pk sig. op_auth op = Some a \<and> b64_decode E (auth_pk a) = Some pk
         \<and> peer_id_from_pubkey_protobuf E pk = Some (op_author op) \<and> actor (op_hlc op) = op_author op
         \<and> b64_decode E (auth_sig a) = Some sig
         \<and> verify_peer_signature E pk sig (signing_payload E op) = Inr True))
   \<and> (encoding_laws E \<and> signature_laws E \<and> length sk = 32
        \<and> op_author op = peer_id (from_secret_bytes E sk) \<and> actor (op_hlc op) = op_author op \<longrightarrow>
      verify_author E (op_sign E (from_secret_bytes E sk)
        (b64_encode E (public_key_protobuf E (from_secret_bytes E sk))) op) = Inr ())"
  using signed_op_verifies [of E sk op] by (auto simp: verify_author_def verify_signed_ok)

definition sample_shape :: op_shape where
  "sample_shape =
     (let kp = from_secret_bytes sample_crypto (sample_key (CHR ''k''));
          h = HlcTimestamp 7 0 (peer_id kp)
      in \<lparr>shape_server_id = ''srv'', shape_hlc = h, shape_author = peer_id kp, shape_raw = ''new'',
          shape_auth = Some \<lparr>auth_sig = b64_encode sample_crypto (kp_sign sample_crypto kp
                                (signing_payload_of ''srv'' h (peer_id kp) ''new'')),
                             auth_pk = b64_encode sample_crypto (public_key_protobuf sample_crypto kp)\<rparr>\<rparr>)"

definition sample_env :: env where
  "sample_env = crypto.extend sample_crypto
     (env.fields (\<lambda>p. case p of ServerRenamed n \<Rightarrow> n | _ \<Rightarrow> [])
        (\<lambda>s. Some (ServerRenamed s)) (\<lambda>_. Some sample_shape) (\<lambda>s. Some [s]))"

lemma sample_env_simps [simp]:
  "b64_encode sample_env = sample_b64" "b64_decode sample_env = sample_unb64"
  "bs58_encode sample_env = (\<lambda>bs. bs)" "ed_public sample_env = (\<lambda>sk. sk)"
  "ed_key_error sample_env = (\<lambda>_. None)"
  "ed_verify_strict sample_env = (\<lambda>pk sig msg. sig = sample_sign pk msg)"
  "shape_of_json sample_env = (\<lambda>_. Some sample_shape)"
  by (simp_all add: sample_env_def crypto.defs env.defs)

lemma sample_env_laws: "encoding_laws sample_env" "signature_laws sample_env" "box_laws sample_env"
  using sample_encoding_laws sample_signature_laws sample_box_laws
  by (simp_all add: sample_env_def crypto.defs env.defs encoding_laws_def signature_laws_def box_laws_def)

definition sample_op :: "string \<Rightarrow> crdt_op" where
  "sample_op author = \<lparr>op_server_id = ''srv'', op_hlc = HlcTimestamp 7 0 author, op_author = author,
     op_payload = ServerRenamed ''new'', op_auth = None\<rparr>"

theorem verify_author_correct_witness:
  "verify_author sample_env (op_sign sample_env (from_secret_bytes sample_env (sample_key (CHR ''k'')))
     (b64_encode sample_env (public_key_protobuf sample_env (from_secret_bytes sample_env (sample_key (CHR ''k'')))))
     (sample_op (peer_id (from_secret_bytes sample_env (sample_key (CHR ''k'')))))) = Inr ()"
  using verify_author_correct [of sample_env "sample_op (peer_id (from_secret_bytes sample_env (sample_key (CHR ''k''))))"
      "sample_key (CHR ''k'')"]
  by (simp add: sample_env_laws sample_op_def)

text \<open>C32: The signing payload determines the server, the timestamp, the author and the payload's JSON,
  as long as the fields before the JSON hold no colon.\<close>

theorem signing_payload_injective:
  assumes "signing_payload E op = signing_payload E op'"
    and "CHR '':'' \<notin> set (op_server_id op) \<union> set (actor (op_hlc op)) \<union> set (op_author op)"
    and "CHR '':'' \<notin> set (op_server_id op') \<union> set (actor (op_hlc op')) \<union> set (op_author op')"
  shows "op_server_id op = op_server_id op' \<and> op_hlc op = op_hlc op' \<and> op_author op = op_author op'
       \<and> payload_json E (op_payload op) = payload_json E (op_payload op')"
  using signing_payload_of_inject [OF assms(1) [unfolded signing_payload_def]] assms(2,3) by auto

theorem signing_payload_injective_witness:
  "op_hlc (sample_op ''alice'') = op_hlc ((sample_op ''alice'')\<lparr>op_auth := Some \<lparr>auth_sig = [], auth_pk = []\<rparr>\<rparr>)"
  using signing_payload_injective [of sample_env "sample_op ''alice''"
      "(sample_op ''alice'')\<lparr>op_auth := Some \<lparr>auth_sig = [], auth_pk = []\<rparr>\<rparr>"]
  by (simp add: sample_op_def)

text \<open>When an item's author signed the very bytes its payload came in, reading it never drops it and
  never yields an op whose signature then fails: it is the op, passing the author check, or it is
  reported as unread. A batch keeps exactly the ops read, in order.\<close>

theorem read_op_keeps_signed:
  assumes "shape_of_json E item = Some shape"
    and "verify_signed E (shape_author shape) (shape_hlc shape) (shape_auth shape)
           (signing_payload_of (shape_server_id shape) (shape_hlc shape) (shape_author shape) (shape_raw shape)) = Inr ()"
  shows "(read_op E item \<noteq> ReadJunk)
    \<and> (\<forall>op. read_op E item = ReadOp op \<longrightarrow> verify_author E op = Inr ())
    \<and> (items_of_json E json = Some items \<longrightarrow>
         parsed_ops (parse_ops_tolerant E json)
           = concat (map (\<lambda>i. case read_op E i of ReadOp op \<Rightarrow> [op] | _ \<Rightarrow> []) items))"
proof -
  have "parsed_ops (parse_ops_tolerant E json)
      = concat (map (\<lambda>i. case read_op E i of ReadOp op \<Rightarrow> [op] | _ \<Rightarrow> []) items)"
    if "items_of_json E json = Some items"
    using that by (simp add: parse_ops_tolerant_def tolerant_fold Let_def)
  moreover have "read_op E item \<noteq> ReadJunk \<and> (\<forall>op. read_op E item = ReadOp op \<longrightarrow> verify_author E op = Inr ())"
    using assms by (auto simp: read_op_def Let_def verify_author_def signing_payload_def split: option.splits if_splits)
  ultimately show ?thesis by blast
qed

lemma sample_shape_signed:
  "verify_signed sample_crypto (shape_author sample_shape) (shape_hlc sample_shape) (shape_auth sample_shape)
     (signing_payload_of (shape_server_id sample_shape) (shape_hlc sample_shape) (shape_author sample_shape)
        (shape_raw sample_shape)) = Inr ()"
  using public_key_protobuf_id [OF sample_signature_laws, of "sample_key (CHR ''k'')"]
    verify_own_signature [OF sample_signature_laws, of "sample_key (CHR ''k'')"]
  by (simp add: sample_shape_def Let_def verify_signed_ok)

lemma sample_env_verify_signed: "verify_signed sample_env = verify_signed sample_crypto"
  unfolding verify_signed_def peer_id_from_pubkey_protobuf_def verify_peer_signature_def
    sample_env_simps sample_crypto_simps ..

lemma sample_read: "\<exists>op. read_op sample_env ''item'' = ReadOp op"
  by (simp add: read_op_def Let_def) (simp add: sample_env_def crypto.defs env.defs sample_shape_def Let_def)

theorem read_op_keeps_signed_witness:
  "\<exists>op. read_op sample_env ''item'' = ReadOp op \<and> verify_author sample_env op = Inr ()"
  using read_op_keeps_signed [of sample_env "''item''" sample_shape]
    sample_shape_signed [folded sample_env_verify_signed] sample_read by auto

end
