(* ===== verification/BTreeMap.thy ===== *)
theory BTreeMap
  imports HashMap
begin

text \<open>
  A Rust \<open>BTreeMap<String, V>\<close> is an association list with strictly increasing keys, which is also its
  iteration order; it keeps the contract \<open>keyed_map\<close>. Also the iterator methods \<open>max_by_key\<close> (the last
  of several maximal elements) and \<open>partition_point\<close> with the insertion it positions.
\<close>

fun bt_insert :: "string \<Rightarrow> 'v \<Rightarrow> 'v hmap \<Rightarrow> 'v hmap" where
  "bt_insert k v [] = [(k, v)]"
| "bt_insert k v ((j, w) # m) =
     (if k < j then (k, v) # (j, w) # m
      else if k = j then (k, v) # m
      else (j, w) # bt_insert k v m)"

definition bt_wf :: "'v hmap \<Rightarrow> bool" where
  "bt_wf m \<longleftrightarrow> sorted_wrt (<) (map fst m)"

definition max_by_key :: "('a \<Rightarrow> 'k::linorder) \<Rightarrow> 'a list \<Rightarrow> 'a option" where
  "max_by_key f xs =
     (case xs of [] \<Rightarrow> None | x # ys \<Rightarrow> Some (foldl (\<lambda>best y. if f best \<le> f y then y else best) x ys))"

definition partition_point :: "('a \<Rightarrow> bool) \<Rightarrow> 'a list \<Rightarrow> nat" where
  "partition_point P xs = length (takeWhile P xs)"

definition insert_at :: "nat \<Rightarrow> 'a \<Rightarrow> 'a list \<Rightarrow> 'a list" where
  "insert_at i x xs = take i xs @ x # drop i xs"

section \<open>Laws\<close>

lemma bt_insert_get [hmap_simps, simp]: "hm_get (bt_insert k v m) j = (if j = k then Some v else hm_get m j)"
  by (induction m) (auto split: if_splits)

lemma bt_insert_keys: "fst ` set (bt_insert k v m) = insert k (fst ` set m)"
proof (induction m)
  case (Cons x m)
  then show ?case
    by (cases x) (simp add: insert_commute)
qed simp

lemma bt_insert_set: "set (bt_insert k v m) \<subseteq> insert (k, v) (set m)"
  by (induction m) (auto split: if_splits)

lemma bt_wf_Nil [simp]: "bt_wf []"
  by (simp add: bt_wf_def)

lemma bt_wf_Cons: "bt_wf (x # m) \<longleftrightarrow> (\<forall>k \<in> fst ` set m. fst x < k) \<and> bt_wf m"
  by (auto simp: bt_wf_def)

lemma bt_wf_insert [hmap_wf]: "bt_wf m \<Longrightarrow> bt_wf (bt_insert k v m)"
proof (induction m rule: bt_insert.induct)
  case (2 k v j w m)
  then show ?case
    by (auto simp: bt_wf_Cons bt_insert_keys)
qed (simp add: bt_wf_def)

lemma bt_wf_filter: "bt_wf m \<Longrightarrow> bt_wf (filter P m)"
  by (induction m) (auto simp: bt_wf_Cons)

lemma bt_wf_retain [hmap_wf]: "bt_wf m \<Longrightarrow> bt_wf (hm_retain P m)"
  by (simp add: hm_retain_def bt_wf_filter)

lemma bt_wf_remove [hmap_wf]: "bt_wf m \<Longrightarrow> bt_wf (hm_remove k m)"
  by (simp add: AList.delete_eq bt_wf_filter)

lemma bt_wf_hm_wf: "bt_wf m \<Longrightarrow> hm_wf m"
  by (induction m) (auto simp: bt_wf_Cons hm_wf_def)

interpretation bt: keyed_map bt_wf hm_get bt_insert hm_remove
  by unfold_locales (simp_all add: hmap_wf)

lemma foldl_max_by:
  fixes f :: "'a \<Rightarrow> 'k::linorder"
  shows "foldl (\<lambda>best y. if f best \<le> f y then y else best) x xs \<in> set (x # xs)
   \<and> (\<forall>y \<in> set (x # xs). f y \<le> f (foldl (\<lambda>best y. if f best \<le> f y then y else best) x xs))"
proof (induction xs arbitrary: x)
  case (Cons y ys)
  show ?case
  proof (cases "f x \<le> f y")
    case True
    with Cons [of y] show ?thesis by (auto intro: order_trans [OF True])
  next
    case False
    then have "f y \<le> f x" by simp
    with False Cons [of x] show ?thesis by (auto intro: order_trans [OF \<open>f y \<le> f x\<close>])
  qed
qed simp

lemma max_by_key_in: "max_by_key f xs = Some x \<Longrightarrow> x \<in> set xs"
  using foldl_max_by [of f] by (cases xs) (fastforce simp: max_by_key_def)+

lemma max_by_key_ge: "max_by_key f xs = Some x \<Longrightarrow> y \<in> set xs \<Longrightarrow> f y \<le> f x"
  using foldl_max_by [of f] by (cases xs) (auto simp: max_by_key_def)

lemma max_by_key_None [simp]: "max_by_key f xs = None \<longleftrightarrow> xs = []"
  by (cases xs) (simp_all add: max_by_key_def)

lemma max_by_key_Nil [simp]: "max_by_key f [] = None"
  by (simp add: max_by_key_def)

lemma set_insert_at [simp]: "set (insert_at i x xs) = insert x (set xs)"
  by (metis append_take_drop_id insert_at_def list.set(2) set_append Un_insert_right)

lemma length_insert_at [simp]: "length (insert_at i x xs) = Suc (length xs)"
  by (simp add: insert_at_def)

lemma sorted_insert_mid:
  fixes f :: "'a \<Rightarrow> 'k::linorder"
  shows "sorted (map f (A @ B)) \<Longrightarrow> \<forall>a \<in> set A. f a \<le> f x \<Longrightarrow> \<forall>b \<in> set B. f x \<le> f b \<Longrightarrow> sorted (map f (A @ x # B))"
  by (auto simp: sorted_append)

lemma dropWhile_high:
  fixes f :: "'a \<Rightarrow> 'k::linorder"
  shows "sorted (map f xs) \<Longrightarrow> y \<in> set (dropWhile (\<lambda>y. f y \<le> v) xs) \<Longrightarrow> v \<le> f y"
  by (induction xs) (auto split: if_splits)

lemma sorted_insert_at:
  fixes f :: "'a \<Rightarrow> 'k::linorder"
  assumes "sorted (map f xs)"
  shows "sorted (map f (insert_at (partition_point (\<lambda>y. f y \<le> f x) xs) x xs))"
proof -
  have "insert_at (partition_point (\<lambda>y. f y \<le> f x) xs) x xs
      = takeWhile (\<lambda>y. f y \<le> f x) xs @ x # dropWhile (\<lambda>y. f y \<le> f x) xs"
    by (simp add: insert_at_def partition_point_def takeWhile_eq_take [symmetric] dropWhile_eq_drop)
  moreover have "sorted (map f (takeWhile (\<lambda>y. f y \<le> f x) xs @ x # dropWhile (\<lambda>y. f y \<le> f x) xs))"
    by (rule sorted_insert_mid) (use assms in \<open>auto dest: set_takeWhileD dropWhile_high\<close>)
  ultimately show ?thesis by simp
qed

end
