(* ===== verification/LockState.thy ===== *)
theory LockState
  imports BTreeMap JoinLock AdminLww
begin

text \<open>
  The join lock as a replica holds it (\<open>crdt/lock_state.rs\<close>): chain links sorted by number, door
  secrets, sealed change keys, and the two clocks that say when the lock is due to move.
\<close>

definition DOORS_KEPT :: u64 where
  "DOORS_KEPT = 8"

definition GRANTS_PER_MASTER :: nat where
  "GRANTS_PER_MASTER = 4"

record door =
  door_n :: u64
  door_secret :: string

record join_lock_state =
  links :: "lock_link list"
  doors :: "door hmap"
  grants :: "string list hmap hmap"
  door_hlc :: "hlc_timestamp option"
  removal_hlc :: "hlc_timestamp option"

definition lock_default :: join_lock_state where
  "lock_default = \<lparr>links = [], doors = [], grants = [], door_hlc = None, removal_hlc = None\<rparr>"

definition lock_is_empty :: "join_lock_state \<Rightarrow> bool" where
  "lock_is_empty s \<longleftrightarrow> links s = [] \<and> doors s = [] \<and> removal_hlc s = None"

definition has_lock :: "join_lock_state \<Rightarrow> bool" where
  "has_lock s \<longleftrightarrow> links s \<noteq> []"

definition link_allowed ::
  "('a) crypto_scheme \<Rightarrow> join_lock_state \<Rightarrow> string \<Rightarrow> lock_link \<Rightarrow> string \<Rightarrow> bool" where
  "link_allowed C s server_id link ow \<longleftrightarrow>
     (if list_ex (\<lambda>l. l = link) (links s) then True
      else if is_base link then base_owner C server_id link = Some ow
      else list_ex (\<lambda>prev. extends C server_id prev link) (links s))"

definition secret_bytes :: "('a) crypto_scheme \<Rightarrow> string \<Rightarrow> bytes option" where
  "secret_bytes C secret =
     (if length secret \<noteq> 64 then None
      else opt_filter (\<lambda>b. length b = 32) (hex_decode C secret))"

definition door_matches :: "('a) crypto_scheme \<Rightarrow> string \<Rightarrow> lock_link \<Rightarrow> bool" where
  "door_matches C secret link \<longleftrightarrow>
     is_some_and (\<lambda>s. Some (public_of C s) = door_key C link) (secret_bytes C secret)"

text \<open>\<open>prune\<close> in its two steps, links first and then doors and grants.\<close>

definition prune_links :: "join_lock_state \<Rightarrow> join_lock_state" where
  "prune_links s =
     (let kept = (case list_max (map link_n (filter is_base (links s))) of
                    Some base_n \<Rightarrow> filter (\<lambda>l. base_n \<le> link_n l) (links s)
                  | None \<Rightarrow> links s)
      in s\<lparr>links := (if MAX_CHAIN < length kept then drop (length kept - MAX_CHAIN) kept else kept)\<rparr>)"

definition prune :: "join_lock_state \<Rightarrow> join_lock_state" where
  "prune s =
     (let s = prune_links s in
      case list_max (map (\<lambda>d. door_n (snd d)) (doors s)) of
        None \<Rightarrow> s
      | Some top_n \<Rightarrow>
          (let floor_n = saturating_sub top_n DOORS_KEPT;
               live = map link_change (filter (\<lambda>l. floor_n \<le> link_n l) (links s))
           in s\<lparr>doors := hm_retain (\<lambda>_ d. floor_n \<le> door_n d) (doors s),
                grants := hm_retain (\<lambda>change _. change \<in> set live) (grants s)\<rparr>))"

text \<open>The three parts of \<open>apply\<close> before its final \<open>prune\<close>.\<close>

definition add_link :: "lock_link \<Rightarrow> join_lock_state \<Rightarrow> join_lock_state" where
  "add_link link s =
     (if list_ex (\<lambda>l. l = link) (links s) then s
      else s\<lparr>links := insert_at (partition_point (\<lambda>l. link_n l \<le> link_n link) (links s)) link (links s)\<rparr>)"

definition add_door ::
  "('a) crypto_scheme \<Rightarrow> lock_link \<Rightarrow> string option \<Rightarrow> hlc_timestamp \<Rightarrow> join_lock_state \<Rightarrow> join_lock_state" where
  "add_door C link secret h s =
     (case opt_filter (\<lambda>x. door_matches C x link) secret of
        None \<Rightarrow> s
      | Some x \<Rightarrow>
          s\<lparr>doors := bt_insert (link_door link) \<lparr>door_n = link_n link, door_secret = x\<rparr> (doors s),
            door_hlc := keep_later (door_hlc s) h\<rparr>)"

definition push_grant :: "string \<Rightarrow> string list \<Rightarrow> string list" where
  "push_grant grant held =
     (if grant \<in> set held then held
      else let held' = held @ [grant] in if GRANTS_PER_MASTER < length held' then tl held' else held')"

definition add_grant :: "string \<Rightarrow> string \<times> string \<Rightarrow> string list hmap hmap \<Rightarrow> string list hmap hmap" where
  "add_grant change entry gs =
     (let per_change = (case hm_get gs change of None \<Rightarrow> [] | Some m \<Rightarrow> m);
          held = (case hm_get per_change (fst entry) of None \<Rightarrow> [] | Some g \<Rightarrow> g)
      in bt_insert change (bt_insert (fst entry) (push_grant (snd entry) held) per_change) gs)"

definition lock_apply ::
  "('a) crypto_scheme \<Rightarrow> lock_link \<Rightarrow> string option \<Rightarrow> (string \<times> string) list \<Rightarrow> hlc_timestamp
     \<Rightarrow> join_lock_state \<Rightarrow> join_lock_state" where
  "lock_apply C link secret gs h s =
     (let s = add_door C link secret h (add_link link s)
      in prune (s\<lparr>grants := fold (add_grant (link_change link)) gs (grants s)\<rparr>))"

definition note_removal :: "hlc_timestamp \<Rightarrow> join_lock_state \<Rightarrow> join_lock_state" where
  "note_removal h s = s\<lparr>removal_hlc := keep_later (removal_hlc s) h\<rparr>"

definition rotation_due :: "join_lock_state \<Rightarrow> bool" where
  "rotation_due s =
     (case (removal_hlc s, door_hlc s) of
        (Some removed, Some set_at) \<Rightarrow> set_at < removed
      | _ \<Rightarrow> False)"

text \<open>\<open>newest\<close>: the greatest number, the smaller public half among equals; \<open>max_by\<close> keeps the later of
  two that compare equal.\<close>

definition door_le :: "string \<times> door \<Rightarrow> string \<times> door \<Rightarrow> bool" where
  "door_le a b \<longleftrightarrow>
     door_n (snd a) < door_n (snd b) \<or> door_n (snd a) = door_n (snd b) \<and> fst b \<le> fst a"

definition newest :: "join_lock_state \<Rightarrow> (string \<times> door) option" where
  "newest s =
     (case doors s of
        [] \<Rightarrow> None
      | d # ds \<Rightarrow> Some (foldl (\<lambda>best x. if door_le best x then x else best) d ds))"

definition newest_door :: "('a) crypto_scheme \<Rightarrow> join_lock_state \<Rightarrow> (u64 \<times> bytes \<times> bytes) option" where
  "newest_door C s =
     (case newest s of
        None \<Rightarrow> None
      | Some (pub, d) \<Rightarrow>
          (case (key_from_text C pub, secret_bytes C (door_secret d)) of
             (Some k, Some x) \<Rightarrow> Some (door_n d, k, x)
           | _ \<Rightarrow> None))"

definition newest_door_id :: "join_lock_state \<Rightarrow> (u64 \<times> string) option" where
  "newest_door_id s = map_option (\<lambda>(pub, d). (door_n d, pub)) (newest s)"

definition door_secrets :: "('a) crypto_scheme \<Rightarrow> join_lock_state \<Rightarrow> u64 \<Rightarrow> bytes list" where
  "door_secrets C s n =
     List.map_filter (\<lambda>d. secret_bytes C (door_secret d)) (filter (\<lambda>d. door_n d = n) (map snd (doors s)))"

definition find_link :: "join_lock_state \<Rightarrow> lock_link \<Rightarrow> lock_link option" where
  "find_link s lock = List.find (\<lambda>l. same_lock l lock) (links s)"

definition holds_door :: "join_lock_state \<Rightarrow> string \<Rightarrow> bool" where
  "holds_door s pub \<longleftrightarrow> hm_has (doors s) pub"

function chain_from :: "join_lock_state \<Rightarrow> lock_link list \<Rightarrow> lock_link list" where
  "chain_from s acc =
     (case max_by_key (\<lambda>l. holds_door s (link_door l))
             (filter (\<lambda>l. \<not> is_base l \<and> link_n l = link_n (last acc) + 1) (links s)) of
        None \<Rightarrow> acc
      | Some next \<Rightarrow>
          if MAX_CHAIN \<le> length (acc @ [next]) then acc @ [next]
          else chain_from s (acc @ [next]))"
  by pat_completeness auto
termination
  by (relation "measure (\<lambda>(s, acc). MAX_CHAIN - length acc)") auto

declare chain_from.simps [simp del]

definition chain :: "join_lock_state \<Rightarrow> lock_link list" where
  "chain s =
     (case max_by_key link_n (filter is_base (links s)) of
        None \<Rightarrow> []
      | Some base \<Rightarrow> chain_from s [base])"

definition grants_for :: "join_lock_state \<Rightarrow> string \<Rightarrow> string \<Rightarrow> string list" where
  "grants_for s change master =
     (case hm_get (grants s) change of
        None \<Rightarrow> []
      | Some m \<Rightarrow> (case hm_get m master of None \<Rightarrow> [] | Some g \<Rightarrow> g))"

definition clamp_clock :: "u64 \<Rightarrow> hlc_timestamp option \<Rightarrow> nat \<times> hlc_timestamp option" where
  "clamp_clock max_ms slot =
     (case slot of
        None \<Rightarrow> (0, None)
      | Some h \<Rightarrow>
          if max_ms < physical_ms h then (1, Some (HlcTimestamp max_ms (counter h) (actor h)))
          else (0, Some h))"

definition clamp_hlcs :: "u64 \<Rightarrow> join_lock_state \<Rightarrow> nat \<times> join_lock_state" where
  "clamp_hlcs max_ms s =
     (let (a, d) = clamp_clock max_ms (door_hlc s);
          (b, r) = clamp_clock max_ms (removal_hlc s)
      in (a + b, s\<lparr>door_hlc := d, removal_hlc := r\<rparr>))"

section \<open>The invariant\<close>

definition grants_wf :: "string list hmap hmap \<Rightarrow> bool" where
  "grants_wf gs \<longleftrightarrow>
     bt_wf gs \<and> list_all (\<lambda>(_, m). bt_wf m
        \<and> list_all (\<lambda>(_, g). length g \<le> GRANTS_PER_MASTER \<and> distinct g) m) gs"

definition doors_windowed :: "door hmap \<Rightarrow> bool" where
  "doors_windowed ds \<longleftrightarrow>
     list_all (\<lambda>(_, newer). list_all (\<lambda>(_, d). saturating_sub (door_n newer) DOORS_KEPT \<le> door_n d) ds) ds"

definition links_wf :: "lock_link list \<Rightarrow> bool" where
  "links_wf ls \<longleftrightarrow> sorted (map link_n ls) \<and> distinct ls"

definition lock_inv :: "join_lock_state \<Rightarrow> bool" where
  "lock_inv s \<longleftrightarrow>
     links_wf (links s) \<and> length (links s) \<le> MAX_CHAIN
     \<and> bt_wf (doors s) \<and> doors_windowed (doors s) \<and> grants_wf (grants s)"

lemma distinct_insert_at: "distinct (insert_at i x xs) \<longleftrightarrow> x \<notin> set xs \<and> distinct xs"
proof -
  have "distinct (take i xs @ x # drop i xs) \<longleftrightarrow> x \<notin> set (take i xs @ drop i xs) \<and> distinct (take i xs @ drop i xs)"
    by (simp only: distinct_append distinct.simps set_append) auto
  then show ?thesis by (simp only: insert_at_def append_take_drop_id)
qed

lemma list_all_get: "list_all P m \<Longrightarrow> hm_get m k = Some v \<Longrightarrow> P (k, v)"
  by (auto simp: list_all_iff dest: map_of_SomeD)

lemma links_wf_filter: "links_wf ls \<Longrightarrow> links_wf (filter P ls)"
  by (simp add: links_wf_def sorted_filter)

lemma links_wf_drop: "links_wf ls \<Longrightarrow> links_wf (drop n ls)"
  by (simp add: links_wf_def drop_map [symmetric] sorted_wrt_drop)

lemma links_wf_add: "links_wf (links s) \<Longrightarrow> links_wf (links (add_link l s))"
  by (simp add: add_link_def links_wf_def list_ex_iff sorted_insert_at distinct_insert_at)

lemma prune_links_wf:
  "links_wf (links s) \<Longrightarrow> links_wf (links (prune_links s)) \<and> length (links (prune_links s)) \<le> MAX_CHAIN"
  by (auto simp: prune_links_def Let_def links_wf_drop links_wf_filter split: option.splits)

lemma prune_links_frame [simp]:
  "doors (prune_links s) = doors s" "grants (prune_links s) = grants s"
  "door_hlc (prune_links s) = door_hlc s" "removal_hlc (prune_links s) = removal_hlc s"
  by (simp_all add: prune_links_def Let_def)

lemma links_prune [simp]: "links (prune s) = links (prune_links s)"
  by (simp add: prune_def Let_def split: option.split)

lemma grants_wf_retain: "grants_wf gs \<Longrightarrow> grants_wf (hm_retain P gs)"
  by (auto simp: grants_wf_def bt_wf_retain) (auto simp: hm_retain_def list_all_iff)

lemma saturating_sub_mono: "(a :: 'a::len word) \<le> b \<Longrightarrow> saturating_sub a c \<le> saturating_sub b c"
  by (auto simp: saturating_sub_def word_le_nat_alt unat_sub_if')

lemma prune_windowed: "doors_windowed (doors (prune s))"
proof (cases "list_max (map (\<lambda>d. door_n (snd d)) (doors s))")
  case None
  then have "doors s = []" by simp
  then have "doors (prune s) = []" by (simp add: prune_def Let_def list_max_def)
  then show ?thesis by (simp add: doors_windowed_def)
next
  case (Some t)
  let ?kept = "hm_retain (\<lambda>_ d. saturating_sub t DOORS_KEPT \<le> door_n d) (doors s)"
  have "saturating_sub (door_n e) DOORS_KEPT \<le> door_n d"
    if "(k, e) \<in> set ?kept" "(j, d) \<in> set ?kept" for k e j d
  proof -
    have "door_n e \<le> t"
      using that(1) by (intro list_max_ge [OF Some]) (force simp: hm_retain_def)
    then have "saturating_sub (door_n e) DOORS_KEPT \<le> saturating_sub t DOORS_KEPT"
      by (rule saturating_sub_mono)
    also have "\<dots> \<le> door_n d"
      using that(2) by (simp add: hm_retain_def)
    finally show ?thesis .
  qed
  moreover have "doors (prune s) = ?kept"
    by (simp add: prune_def Let_def Some)
  ultimately show ?thesis
    by (auto simp: doors_windowed_def list_all_iff)
qed

lemma prune_inv:
  assumes "links_wf (links s)" and "bt_wf (doors s)" and "grants_wf (grants s)"
  shows "lock_inv (prune s)"
proof -
  have "bt_wf (doors (prune s))" "grants_wf (grants (prune s))"
    using assms(2,3) by (auto simp: prune_def Let_def bt_wf_retain grants_wf_retain split: option.split)
  then show ?thesis
    using prune_links_wf [OF assms(1)] prune_windowed [of s] by (simp add: lock_inv_def)
qed

lemma push_grant_wf:
  "length g \<le> GRANTS_PER_MASTER \<and> distinct g \<Longrightarrow>
     length (push_grant x g) \<le> GRANTS_PER_MASTER \<and> distinct (push_grant x g)"
  by (cases g) (auto simp: push_grant_def GRANTS_PER_MASTER_def Let_def)

lemma list_all_bt_insert: "list_all P m \<Longrightarrow> P (k, v) \<Longrightarrow> list_all P (bt_insert k v m)"
  using bt_insert_set [of k v m] by (auto simp: list_all_iff)

lemma grants_all:
  "grants_wf gs \<Longrightarrow> list_all (\<lambda>(_, m). bt_wf m
     \<and> list_all (\<lambda>(_, g). length g \<le> GRANTS_PER_MASTER \<and> distinct g) m) gs"
  by (simp add: grants_wf_def)

lemma add_grant_wf:
  assumes "grants_wf gs"
  shows "grants_wf (add_grant c e gs)"
proof -
  define m where "m = (case hm_get gs c of None \<Rightarrow> [] | Some m \<Rightarrow> m)"
  define g where "g = (case hm_get m (fst e) of None \<Rightarrow> [] | Some g \<Rightarrow> g)"
  have m: "bt_wf m \<and> list_all (\<lambda>(_, g). length g \<le> GRANTS_PER_MASTER \<and> distinct g) m"
  proof (cases "hm_get gs c")
    case (Some m')
    show ?thesis
      using list_all_get [OF grants_all [OF assms] Some] by (simp add: m_def Some)
  qed (simp add: m_def)
  have "length g \<le> GRANTS_PER_MASTER \<and> distinct g"
  proof (cases "hm_get m (fst e)")
    case (Some g')
    show ?thesis
      using list_all_get [OF conjunct2 [OF m] Some] by (simp add: g_def Some)
  qed (simp add: g_def)
  then have "length (push_grant (snd e) g) \<le> GRANTS_PER_MASTER \<and> distinct (push_grant (snd e) g)"
    by (rule push_grant_wf)
  with m have "list_all (\<lambda>(_, g). length g \<le> GRANTS_PER_MASTER \<and> distinct g)
      (bt_insert (fst e) (push_grant (snd e) g) m)"
    by (intro list_all_bt_insert) simp_all
  with m assms show ?thesis
    unfolding add_grant_def Let_def m_def [symmetric] g_def [symmetric] grants_wf_def
    by (intro conjI list_all_bt_insert) (simp_all add: bt_wf_insert)
qed

lemma fold_add_grant_wf: "grants_wf gs \<Longrightarrow> grants_wf (fold (add_grant c) es gs)"
  by (induction es arbitrary: gs) (simp_all add: add_grant_wf)

lemma add_link_frame [simp]: "doors (add_link l s) = doors s" "grants (add_link l s) = grants s"
  by (simp_all add: add_link_def)

lemma add_door_frame [simp]: "links (add_door C l x h s) = links s" "grants (add_door C l x h s) = grants s"
  by (simp_all add: add_door_def split: option.split)

lemma add_door_wf: "bt_wf (doors s) \<Longrightarrow> bt_wf (doors (add_door C l x h s))"
  by (simp add: add_door_def bt_wf_insert split: option.split)

lemma lock_apply_inv: "lock_inv s \<Longrightarrow> lock_inv (lock_apply C l x gs h s)"
  unfolding lock_apply_def Let_def
  by (rule prune_inv) (simp_all add: lock_inv_def links_wf_add add_door_wf fold_add_grant_wf)

lemma lock_default_inv: "lock_inv lock_default"
  by (simp add: lock_inv_def lock_default_def links_wf_def doors_windowed_def grants_wf_def)

lemma note_removal_inv: "lock_inv (note_removal h s) = lock_inv s"
  by (simp add: lock_inv_def note_removal_def)

lemma clamp_hlcs_inv: "lock_inv (snd (clamp_hlcs m s)) = lock_inv s"
  by (simp add: lock_inv_def clamp_hlcs_def split_beta Let_def)

section \<open>The republished chain\<close>

definition next_lock :: "lock_link \<Rightarrow> lock_link \<Rightarrow> bool" where
  "next_lock a b \<longleftrightarrow> \<not> is_base b \<and> link_n b = link_n a + 1"

lemma chain_from_shape:
  assumes "acc \<noteq> []" and "length acc < MAX_CHAIN" and "set acc \<subseteq> set (links s)" and "successively next_lock acc"
  shows "successively next_lock (chain_from s acc) \<and> set (chain_from s acc) \<subseteq> set (links s)
    \<and> length (chain_from s acc) \<le> MAX_CHAIN \<and> (\<exists>ys. chain_from s acc = acc @ ys)
    \<and> (length (chain_from s acc) < MAX_CHAIN \<longrightarrow>
         (\<forall>l \<in> set (links s). \<not> next_lock (last (chain_from s acc)) l))"
  using assms
proof (induction s acc rule: chain_from.induct)
  case (1 s acc)
  let ?cands = "filter (\<lambda>l. \<not> is_base l \<and> link_n l = link_n (last acc) + 1) (links s)"
  let ?pick = "max_by_key (\<lambda>l. holds_door s (link_door l)) ?cands"
  show ?case
  proof (cases ?pick)
    case None
    then have "?cands = []" by simp
    then have "\<forall>l \<in> set (links s). \<not> next_lock (last acc) l"
      by (auto simp: filter_empty_conv next_lock_def)
    moreover have "chain_from s acc = acc"
      using None by (subst chain_from.simps) simp
    ultimately show ?thesis
      using 1(2-5) by simp
  next
    case (Some l)
    then have l: "l \<in> set (links s)" "next_lock (last acc) l"
      using max_by_key_in [OF Some] by (auto simp: next_lock_def)
    then have succ: "successively next_lock (acc @ [l])" and sub: "set (acc @ [l]) \<subseteq> set (links s)"
      using 1(2,4,5) by (auto simp: successively_append_iff)
    show ?thesis
    proof (cases "MAX_CHAIN \<le> length (acc @ [l])")
      case True
      then have "chain_from s acc = acc @ [l]"
        using Some by (subst chain_from.simps) simp
      with True succ sub 1(3) show ?thesis by auto
    next
      case False
      then have "chain_from s acc = chain_from s (acc @ [l])"
        using Some by (subst chain_from.simps) simp
      moreover note IH = 1(1) [OF Some False _ _ sub succ]
      ultimately show ?thesis
        using IH False by auto
    qed
  qed
qed

section \<open>Correctness of the lock state\<close>

text \<open>C39: However lock ops, removals and clock clamps reach a replica, its links stay sorted by number,
  without repetition and at most \<open>MAX_CHAIN\<close>, every door kept is within \<open>DOORS_KEPT\<close> numbers of the
  newest, and no master holds more than \<open>GRANTS_PER_MASTER\<close> distinct grants of one change key.\<close>

theorem lock_state_bounded:
  "lock_inv lock_default
   \<and> (lock_inv s \<longrightarrow>
        lock_inv (lock_apply C link secret gs h s) \<and> lock_inv (note_removal h s)
        \<and> lock_inv (snd (clamp_hlcs max_ms s)))"
  by (simp add: lock_default_inv lock_apply_inv note_removal_inv clamp_hlcs_inv)

theorem lock_state_bounded_witness:
  "lock_inv (lock_apply sample_crypto (lock_link sample_base) None [(''m'', ''g'')] (HlcTimestamp 1 0 ''a'') lock_default)"
  using lock_state_bounded [of lock_default] lock_state_bounded by blast

text \<open>The chain a replica republishes is empty exactly when it holds no owner-signed link; otherwise
  it starts at the owner-signed link with the greatest number and goes on through held links that
  count up by one, never longer than \<open>MAX_CHAIN\<close> and, below that, until no held link continues it.\<close>

theorem chain_shape:
  "(chain s = [] \<longleftrightarrow> \<not> list_ex is_base (links s))
   \<and> (chain s \<noteq> [] \<longrightarrow>
        is_base (hd (chain s)) \<and> (\<forall>l \<in> set (links s). is_base l \<longrightarrow> link_n l \<le> link_n (hd (chain s)))
        \<and> successively next_lock (chain s) \<and> set (chain s) \<subseteq> set (links s)
        \<and> length (chain s) \<le> MAX_CHAIN
        \<and> (length (chain s) < MAX_CHAIN \<longrightarrow> (\<forall>l \<in> set (links s). \<not> next_lock (last (chain s)) l)))"
proof (cases "max_by_key link_n (filter is_base (links s))")
  case None
  then have "filter is_base (links s) = []" by simp
  then have "\<not> list_ex is_base (links s)"
    by (simp add: filter_empty_conv list_ex_iff)
  moreover have "chain s = []"
    using None by (simp add: chain_def)
  ultimately show ?thesis by simp
next
  case (Some b)
  have b: "b \<in> set (links s)" "is_base b"
    using max_by_key_in [OF Some] by simp_all
  have top: "link_n l \<le> link_n b" if "l \<in> set (links s)" "is_base l" for l
    using max_by_key_ge [OF Some, of l] that by simp
  have "chain s = chain_from s [b]"
    by (simp add: chain_def Some)
  moreover have "successively next_lock (chain_from s [b]) \<and> set (chain_from s [b]) \<subseteq> set (links s)
    \<and> length (chain_from s [b]) \<le> MAX_CHAIN \<and> (\<exists>ys. chain_from s [b] = [b] @ ys)
    \<and> (length (chain_from s [b]) < MAX_CHAIN \<longrightarrow>
         (\<forall>l \<in> set (links s). \<not> next_lock (last (chain_from s [b])) l))"
    by (rule chain_from_shape) (use b in \<open>auto simp: MAX_CHAIN_def\<close>)
  ultimately show ?thesis
    using b top by (auto simp: list_ex_iff)
qed

definition sample_lock_state :: join_lock_state where
  "sample_lock_state = lock_default\<lparr>links := [lock_link sample_base]\<rparr>"

theorem chain_shape_witness:
  "chain sample_lock_state \<noteq> [] \<and> length (chain sample_lock_state) \<le> MAX_CHAIN"
proof -
  have "is_base (lock_link sample_base)"
    by (simp add: sample_base_def mint_base_def owner_signed_def is_base_def Let_def)
  then have "list_ex is_base (links sample_lock_state)"
    by (simp add: sample_lock_state_def)
  then show ?thesis
    using chain_shape [of sample_lock_state] by blast
qed

end
