(* ===== verification/SupportCreds.thy ===== *)
theory SupportCreds
  imports Operations "HOL-Library.Sublist"
begin

text \<open>
  Support credentials (\<open>node/support_creds.rs\<close>, with the wrapper \<open>node/support_rsa.rs\<close>): the signed
  messages, the item recipes of each type, the chain from the pinned root to a credential's own
  signature, and the filter every profile write goes through. RSA, and the JSON of entries, come from
  crates: they are the fields of \<open>cred_env\<close>. A credential's window is an argument.
\<close>

text \<open>\<open>rsa_from_der\<close> parses a public key and gives its modulus length in bytes, \<open>rsa_verify\<close> checks a
  signature under the key of that DER; the other fields are JSON and error texts.\<close>

record credential_entry =
  ce_t :: u8
  ce_item :: string
  ce_period :: u32
  ce_parts :: "string list"
  ce_key :: string
  ce_key_sig :: string
  ce_issuer :: string
  ce_issuer_sig :: string
  ce_sig :: string
  ce_badge :: bool

record cred_env = env +
  rsa_from_der :: "bytes \<Rightarrow> string + nat"
  rsa_verify :: "bytes \<Rightarrow> bytes \<Rightarrow> bytes \<Rightarrow> bool"
  root_key :: bytes
  decode_error :: "string \<Rightarrow> string"
  entry_of_json :: "string \<Rightarrow> credential_entry option"
  entries_of_json :: "string \<Rightarrow> credential_entry option list option"
  entries_to_json :: "credential_entry list \<Rightarrow> string"

section \<open>Constants and encodings\<close>

definition T_ITEM :: u8 where "T_ITEM = 1"

definition T_SUPPORTER :: u8 where "T_SUPPORTER = 2"

definition T_TWITCH_OWNER :: u8 where "T_TWITCH_OWNER = 3"

definition T_TWITCH_FOLLOW :: u8 where "T_TWITCH_FOLLOW = 4"

definition MAX_ITEM_CREDS :: nat where "MAX_ITEM_CREDS = 3"

definition MAX_SUPPORTER_CREDS :: nat where "MAX_SUPPORTER_CREDS = 1"

definition MAX_TWITCH_OWNER_CREDS :: nat where "MAX_TWITCH_OWNER_CREDS = 1"

definition MAX_TWITCH_FOLLOW_CREDS :: nat where "MAX_TWITCH_FOLLOW_CREDS = 0"

definition PERIOD_DAYS :: u64 where "PERIOD_DAYS = 90"

definition FOLLOW_BUCKETS :: "u32 list" where
  "FOLLOW_BUCKETS = [0, 1, 3, 7, 14, 30, 60, 90, 180, 365]"

definition SUB_TIERS :: "string list" where
  "SUB_TIERS = [''0'', ''1000'', ''2000'', ''3000'']"

definition MAX_PARTS :: nat where "MAX_PARTS = 32"

definition MAX_CREDS_JSON_BYTES :: nat where "MAX_CREDS_JSON_BYTES = 16 * 1024"

definition MODULUS_BYTES :: nat where "MODULUS_BYTES = 3072 div 8"

definition CRED_DOMAIN :: bytes where "CRED_DOMAIN = ''hollow-support-cred/v1''"

definition ISSUER_DOMAIN :: bytes where "ISSUER_DOMAIN = ''hollow-support-issuer/v1''"

definition KEY_DOMAIN :: bytes where "KEY_DOMAIN = ''hollow-support-key/v1''"

definition TWITCH_OWNER_DOMAIN :: bytes where "TWITCH_OWNER_DOMAIN = ''hollow-twitch-owner/v1''"

definition TWITCH_FOLLOW_DOMAIN :: bytes where "TWITCH_FOLLOW_DOMAIN = ''hollow-twitch-follow/v1''"

definition CREDS_SIG_DOMAIN :: bytes where "CREDS_SIG_DOMAIN = ''hollow-support-creds-sig/v1''"

text \<open>\<open>to_be_bytes\<close> of an unsigned number on \<open>n\<close> bytes; a signed one is its value modulo \<open>2 ^ (8 * n)\<close>.\<close>

fun be_bytes :: "nat \<Rightarrow> nat \<Rightarrow> bytes" where
  "be_bytes 0 v = []"
| "be_bytes (Suc n) v = be_bytes n (v div 256) @ [char_of (v mod 256)]"

definition u16_cap :: "bytes \<Rightarrow> nat" where
  "u16_cap bs = min (length bs) 65535"

definition credential_message :: "u8 \<Rightarrow> string \<Rightarrow> bytes \<Rightarrow> u32 \<Rightarrow> bytes" where
  "credential_message t master item period =
     CRED_DOMAIN @ [char_of (unat t)] @ be_bytes 2 (u16_cap master) @ take (u16_cap master) master
     @ item @ be_bytes 4 (unat period)"

definition issuer_message :: "bytes \<Rightarrow> bytes" where
  "issuer_message issuer_pk = ISSUER_DOMAIN @ issuer_pk"

definition key_message :: "u8 \<Rightarrow> bytes \<Rightarrow> u32 \<Rightarrow> bytes \<Rightarrow> bytes" where
  "key_message t item period key_der =
     KEY_DOMAIN @ [char_of (unat t)] @ item @ be_bytes 4 (unat period) @ key_der"

definition support_creds_sig_message :: "string \<Rightarrow> int \<Rightarrow> string \<Rightarrow> bytes" where
  "support_creds_sig_message master updated_at creds =
     CREDS_SIG_DOMAIN @ be_bytes 2 (u16_cap master) @ take (u16_cap master) master
     @ be_bytes 8 (nat (updated_at mod 2 ^ 64)) @ creds"

section \<open>Items\<close>

definition is_hex64 :: "string \<Rightarrow> bool" where
  "is_hex64 s \<longleftrightarrow> length s = 64 \<and> list_all lowercase_hex_char s"

definition to_ascii_lowercase :: "string \<Rightarrow> string" where
  "to_ascii_lowercase s = map (\<lambda>c. if is_ascii_uppercase c then char_of (code_of c + 32) else c) s"

fun hash_parts :: "('a) cred_env_scheme \<Rightarrow> string list \<Rightarrow> bytes \<Rightarrow> string + bytes" where
  "hash_parts E [] acc = Inr (sha256 E acc)"
| "hash_parts E (part # rest) acc =
     (if \<not> is_hex64 part then Inl ''a file hash is 64 hex characters''
      else (case hex_decode E part of
              None \<Rightarrow> Inl (decode_error E part)
            | Some bs \<Rightarrow> hash_parts E rest (acc @ bs)))"

definition item_hash :: "('a) cred_env_scheme \<Rightarrow> string list \<Rightarrow> string + (bytes \<times> string list)" where
  "item_hash E parts =
     (let sorted_parts = remdups_adj (sort (map to_ascii_lowercase parts)) in
      if sorted_parts = [] then Inl ''an item needs at least one file hash''
      else if MAX_PARTS < length sorted_parts
      then Inl (''an item carries at most '' @ show_nat MAX_PARTS @ '' file hashes'')
      else (case hash_parts E sorted_parts [] of
              Inl e \<Rightarrow> Inl e
            | Inr h \<Rightarrow> Inr (h, sorted_parts)))"

definition valid_twitch_id :: "string \<Rightarrow> bool" where
  "valid_twitch_id s \<longleftrightarrow> s \<noteq> [] \<and> length s \<le> 20 \<and> list_all is_ascii_digit s"

definition valid_twitch_login :: "string \<Rightarrow> bool" where
  "valid_twitch_login s \<longleftrightarrow>
     4 \<le> length s \<and> length s \<le> 25
     \<and> list_all (\<lambda>b. is_ascii_lowercase b \<or> is_ascii_digit b \<or> b = CHR ''_'') s"

definition twitch_owner_item :: "('a) crypto_scheme \<Rightarrow> string list \<Rightarrow> string + (bytes \<times> string list)" where
  "twitch_owner_item C parts =
     (case parts of
        [user_id, login] \<Rightarrow>
          if \<not> valid_twitch_id user_id then Inl ''a Twitch user id is decimal digits''
          else if \<not> valid_twitch_login login
          then Inl ''a Twitch login is 4 to 25 lowercase letters, digits or underscores''
          else Inr (sha256 C (TWITCH_OWNER_DOMAIN @ [CHR 0x00] @ user_id @ [CHR 0x00] @ login), [user_id, login])
      | _ \<Rightarrow> Inl ''a Twitch account credential names an id and a login'')"

definition twitch_follow_item :: "('a) crypto_scheme \<Rightarrow> string list \<Rightarrow> string + (bytes \<times> string list)" where
  "twitch_follow_item C parts =
     (case parts of
        [broadcaster, bucket, tier] \<Rightarrow>
          if \<not> valid_twitch_id broadcaster then Inl ''a Twitch broadcaster id is decimal digits''
          else if \<not> list_ex (\<lambda>b. show_word b = bucket) FOLLOW_BUCKETS
          then Inl ''that is not one of the follow-age buckets''
          else if tier \<notin> set SUB_TIERS then Inl ''that is not a Twitch subscription tier''
          else Inr (sha256 C (TWITCH_FOLLOW_DOMAIN @ [CHR 0x00] @ broadcaster @ [CHR 0x00] @ bucket
                      @ [CHR 0x00] @ tier), [broadcaster, bucket, tier])
      | _ \<Rightarrow> Inl ''a Twitch follow credential names a channel, a bucket and a tier'')"

definition bucket_for_days :: "u32 \<Rightarrow> u32" where
  "bucket_for_days days =
     (case List.find (\<lambda>b. b \<le> days) (rev FOLLOW_BUCKETS) of Some b \<Rightarrow> b | None \<Rightarrow> 0)"

definition period_of :: "u64 \<Rightarrow> u32" where
  "period_of unix_secs = ucast (unix_secs div 86400 div PERIOD_DAYS)"

definition period_in_window :: "u32 \<Rightarrow> u32 \<Rightarrow> bool" where
  "period_in_window period now \<longleftrightarrow> period \<noteq> 0 \<and> (period = now \<or> period + 1 = now)"

section \<open>The chain\<close>

definition cred_b64_decode :: "('a) cred_env_scheme \<Rightarrow> string \<Rightarrow> string \<Rightarrow> nat \<Rightarrow> string + bytes" where
  "cred_b64_decode E field s max_len =
     (if max_len < length s then Inl (field @ '' is too long'')
      else (case b64_decode E s of
              None \<Rightarrow> Inl (field @ '' is not base64: '' @ decode_error E s)
            | Some bs \<Rightarrow> Inr bs))"

definition sized :: "nat \<Rightarrow> string \<Rightarrow> bytes \<Rightarrow> string + bytes" where
  "sized n field v =
     (if length v = n then Inr v else Inl (field @ '' is not '' @ show_nat n @ '' bytes''))"

definition rsa_public_key_from_der :: "('a) cred_env_scheme \<Rightarrow> bytes \<Rightarrow> string + bytes" where
  "rsa_public_key_from_der E der =
     (case rsa_from_der E der of
        Inl e \<Rightarrow> Inl (''bad issuing key: '' @ e)
      | Inr n \<Rightarrow> if n \<noteq> MODULUS_BYTES then Inl ''bad issuing key: not RSA-3072'' else Inr der)"

definition rsa_signature_ok :: "('a) cred_env_scheme \<Rightarrow> bytes \<Rightarrow> bytes \<Rightarrow> bytes \<Rightarrow> bool" where
  "rsa_signature_ok E pk sig msg \<longleftrightarrow> length sig = MODULUS_BYTES \<and> rsa_verify E pk sig msg"

abbreviation bind_res :: "'e + 'a \<Rightarrow> ('a \<Rightarrow> 'e + 'b) \<Rightarrow> 'e + 'b" where
  "bind_res r f \<equiv> (case r of Inl e \<Rightarrow> Inl e | Inr x \<Rightarrow> f x)"

text \<open>Step 1 of \<open>verify_chain_at\<close>: the shape of the claim, giving the item and the parts.\<close>

definition claim_shape ::
  "('a) cred_env_scheme \<Rightarrow> u8 \<Rightarrow> string \<Rightarrow> string list \<Rightarrow> u32 \<Rightarrow> u32 \<Rightarrow> string + (bytes \<times> string list)" where
  "claim_shape E t item_hex parts period now =
     (if \<not> is_hex64 item_hex then Inl ''item is not a 64-hex hash''
      else
        bind_res (case hex_decode E item_hex of None \<Rightarrow> Inl (decode_error E item_hex) | Some bs \<Rightarrow> sized 32 ''item'' bs)
          (\<lambda>item.
            if t = T_ITEM then
              (if period \<noteq> 0 then Inl ''an item credential has no period''
               else bind_res (item_hash E parts)
                 (\<lambda>(computed, sorted_parts).
                    if computed \<noteq> item \<or> sorted_parts \<noteq> parts then Inl ''item does not match its parts''
                    else Inr (item, sorted_parts)))
            else if t = T_SUPPORTER then
              (if parts \<noteq> [] \<or> item \<noteq> replicate 32 (CHR 0x00)
               then Inl ''a supporter credential names no parts'' else Inr (item, []))
            else if t = T_TWITCH_OWNER \<or> t = T_TWITCH_FOLLOW then
              (if \<not> period_in_window period now then Inl ''the credential is outside its window''
               else bind_res (if t = T_TWITCH_OWNER then twitch_owner_item E parts else twitch_follow_item E parts)
                 (\<lambda>(computed, canonical).
                    if computed \<noteq> item \<or> canonical \<noteq> parts then Inl ''item does not match its parts''
                    else Inr (item, canonical)))
            else Inl ''unknown credential type''))"

text \<open>Steps 2 and 3: root over issuer, issuer over the listing's key, giving the key.\<close>

definition key_chain ::
  "('a) cred_env_scheme \<Rightarrow> u8 \<Rightarrow> bytes \<Rightarrow> u32 \<Rightarrow> string \<Rightarrow> string \<Rightarrow> string \<Rightarrow> string \<Rightarrow> bytes \<Rightarrow> string + bytes" where
  "key_chain E t item period key_b64 key_sig_b64 issuer_b64 issuer_sig_b64 root =
     bind_res (bind_res (cred_b64_decode E ''issuer'' issuer_b64 64) (sized 32 ''issuer''))
       (\<lambda>issuer_pk.
         case ed_key_error E issuer_pk of
           Some e \<Rightarrow> Inl (''issuer key: '' @ e)
         | None \<Rightarrow>
             bind_res (bind_res (cred_b64_decode E ''issuer_sig'' issuer_sig_b64 128) (sized 64 ''issuer_sig''))
               (\<lambda>issuer_sig.
                 if \<not> ed_verify_strict E root issuer_sig (issuer_message issuer_pk)
                 then Inl ''the issuer key is not signed by the root''
                 else
                   bind_res (cred_b64_decode E ''key'' key_b64 1024)
                     (\<lambda>key_der.
                       bind_res (bind_res (cred_b64_decode E ''key_sig'' key_sig_b64 128) (sized 64 ''key_sig''))
                         (\<lambda>key_sig.
                           if \<not> ed_verify_strict E issuer_pk key_sig (key_message t item period key_der)
                           then Inl ''the issuing key is not signed by the issuer''
                           else bind_res (rsa_public_key_from_der E key_der) (\<lambda>_. Inr key_der)))))"

record verified_chain =
  vc_item :: bytes
  vc_parts :: "string list"
  vc_key_der :: bytes

definition verify_chain_at ::
  "('a) cred_env_scheme \<Rightarrow> credential_entry \<Rightarrow> bytes \<Rightarrow> u32 \<Rightarrow> string + verified_chain" where
  "verify_chain_at E e root now =
     bind_res (claim_shape E (ce_t e) (ce_item e) (ce_parts e) (ce_period e) now)
       (\<lambda>(item, parts).
         bind_res (key_chain E (ce_t e) item (ce_period e) (ce_key e) (ce_key_sig e) (ce_issuer e)
                     (ce_issuer_sig e) root)
           (\<lambda>key_der. Inr \<lparr>vc_item = item, vc_parts = parts, vc_key_der = key_der\<rparr>))"

record verified_credential =
  vd_t :: u8
  vd_item :: bytes
  vd_period :: u32
  vd_parts :: "string list"
  vd_badge :: bool

definition verify_entry_at ::
  "('a) cred_env_scheme \<Rightarrow> credential_entry \<Rightarrow> string \<Rightarrow> bytes \<Rightarrow> u32 \<Rightarrow> string + verified_credential" where
  "verify_entry_at E e master root now =
     bind_res (verify_chain_at E e root now)
       (\<lambda>chain.
         bind_res (rsa_public_key_from_der E (vc_key_der chain))
           (\<lambda>pk.
             bind_res (cred_b64_decode E ''sig'' (ce_sig e) 1024)
               (\<lambda>sig.
                 if \<not> rsa_signature_ok E pk sig (credential_message (ce_t e) master (vc_item chain) (ce_period e))
                 then Inl ''the credential does not verify for this profile''
                 else Inr \<lparr>vd_t = ce_t e, vd_item = vc_item chain, vd_period = ce_period e,
                           vd_parts = vc_parts chain, vd_badge = ce_badge e\<rparr>)))"

section \<open>The profile field\<close>

record keep_state =
  kept :: "credential_entry list"
  seen_items :: "string list"
  n_items :: nat
  n_supporters :: nat
  n_twitch_owners :: nat
  n_twitch_follows :: nat

definition keep_one ::
  "('a) cred_env_scheme \<Rightarrow> string \<Rightarrow> bytes \<Rightarrow> u32 \<Rightarrow> keep_state \<Rightarrow> credential_entry \<Rightarrow> keep_state" where
  "keep_one E master root now k e =
     (case verify_entry_at E e master root now of
        Inl _ \<Rightarrow> k
      | Inr verified \<Rightarrow>
          if ce_item e \<in> set (seen_items k) then k
          else
            (let push = (\<lambda>k. k\<lparr>kept := kept k @ [e], seen_items := seen_items k @ [ce_item e]\<rparr>) in
             if vd_t verified = T_ITEM then
               (if MAX_ITEM_CREDS \<le> n_items k then k else push (k\<lparr>n_items := n_items k + 1\<rparr>))
             else if vd_t verified = T_SUPPORTER then
               (if MAX_SUPPORTER_CREDS \<le> n_supporters k then k else push (k\<lparr>n_supporters := n_supporters k + 1\<rparr>))
             else if vd_t verified = T_TWITCH_OWNER then
               (if MAX_TWITCH_OWNER_CREDS \<le> n_twitch_owners k then k
                else push (k\<lparr>n_twitch_owners := n_twitch_owners k + 1\<rparr>))
             else
               (if MAX_TWITCH_FOLLOW_CREDS \<le> n_twitch_follows k then k
                else push (k\<lparr>n_twitch_follows := n_twitch_follows k + 1\<rparr>))))"

definition keep_empty :: keep_state where
  "keep_empty = \<lparr>kept = [], seen_items = [], n_items = 0, n_supporters = 0, n_twitch_owners = 0, n_twitch_follows = 0\<rparr>"

definition keep_verified_at ::
  "('a) cred_env_scheme \<Rightarrow> credential_entry list \<Rightarrow> string \<Rightarrow> bytes \<Rightarrow> u32 \<Rightarrow> credential_entry list" where
  "keep_verified_at E entries master root now = kept (foldl (keep_one E master root now) keep_empty entries)"

definition parse_stored :: "('a) cred_env_scheme \<Rightarrow> string \<Rightarrow> credential_entry list" where
  "parse_stored E json =
     (if json = [] \<or> MAX_CREDS_JSON_BYTES < length json then []
      else (case entries_of_json E json of
              None \<Rightarrow> []
            | Some vs \<Rightarrow> List.map_filter (\<lambda>v. v) vs))"

definition encode_entries :: "('a) cred_env_scheme \<Rightarrow> credential_entry list \<Rightarrow> string" where
  "encode_entries E entries = (if entries = [] then [] else entries_to_json E entries)"

definition sanitize_incoming_support_creds ::
  "('a) cred_env_scheme \<Rightarrow> string option \<Rightarrow> string \<Rightarrow> u32 \<Rightarrow> string option" where
  "sanitize_incoming_support_creds E raw master now =
     (case raw of
        None \<Rightarrow> None
      | Some r \<Rightarrow>
          if r = [] then Some []
          else if MAX_CREDS_JSON_BYTES < length r then None
          else
            (case entries_of_json E r of
               None \<Rightarrow> None
             | Some vs \<Rightarrow>
                 Some (encode_entries E (keep_verified_at E (List.map_filter (\<lambda>v. v) vs) master (root_key E) now))))"

section \<open>Lemmas\<close>

lemma length_be_bytes [simp]: "length (be_bytes n v) = n"
  by (induction n arbitrary: v) simp_all

lemma be_bytes_inject:
  "v < 256 ^ n \<Longrightarrow> w < 256 ^ n \<Longrightarrow> be_bytes n v = be_bytes n w \<Longrightarrow> v = w"
proof (induction n arbitrary: v w)
  case (Suc n)
  then have tails: "be_bytes n (v div 256) = be_bytes n (w div 256)"
    and last: "char_of (v mod 256) = (char_of (w mod 256) :: char)" by simp_all
  have "v div 256 < 256 ^ n" "w div 256 < 256 ^ n"
    using Suc.prems by (simp_all add: less_mult_imp_div_less mult.commute)
  then have "v div 256 = w div 256"
    using Suc.IH tails by blast
  moreover have "v mod 256 = w mod 256"
    using arg_cong [OF last, of "of_char :: char \<Rightarrow> nat"] by simp
  ultimately show ?case
    by (metis div_mult_mod_eq)
qed simp

lemma verify_entry_at_t: "verify_entry_at E e master root now = Inr v \<Longrightarrow> vd_t v = ce_t e"
  by (auto simp: verify_entry_at_def split: sum.splits if_splits)

definition verifies_for :: "('a) cred_env_scheme \<Rightarrow> string \<Rightarrow> bytes \<Rightarrow> u32 \<Rightarrow> credential_entry \<Rightarrow> bool" where
  "verifies_for E master root now e \<longleftrightarrow> (case verify_entry_at E e master root now of Inl _ \<Rightarrow> False | Inr _ \<Rightarrow> True)"

definition of_type :: "u8 \<Rightarrow> credential_entry list \<Rightarrow> nat" where
  "of_type t es = length (filter (\<lambda>e. ce_t e = t) es)"

definition keep_inv :: "('a) cred_env_scheme \<Rightarrow> string \<Rightarrow> bytes \<Rightarrow> u32 \<Rightarrow> keep_state \<Rightarrow> bool" where
  "keep_inv E master root now k \<longleftrightarrow>
     seen_items k = map ce_item (kept k) \<and> distinct (map ce_item (kept k))
     \<and> list_all (verifies_for E master root now) (kept k)
     \<and> list_all (\<lambda>e. ce_t e \<in> {T_ITEM, T_SUPPORTER, T_TWITCH_OWNER}) (kept k)
     \<and> of_type T_ITEM (kept k) = n_items k \<and> n_items k \<le> MAX_ITEM_CREDS
     \<and> of_type T_SUPPORTER (kept k) = n_supporters k \<and> n_supporters k \<le> MAX_SUPPORTER_CREDS
     \<and> of_type T_TWITCH_OWNER (kept k) = n_twitch_owners k \<and> n_twitch_owners k \<le> MAX_TWITCH_OWNER_CREDS"

lemmas cred_consts = T_ITEM_def T_SUPPORTER_def T_TWITCH_OWNER_def T_TWITCH_FOLLOW_def MAX_ITEM_CREDS_def
  MAX_SUPPORTER_CREDS_def MAX_TWITCH_OWNER_CREDS_def MAX_TWITCH_FOLLOW_CREDS_def

lemma of_type_snoc: "of_type t (es @ [e]) = of_type t es + (if ce_t e = t then 1 else 0)"
  by (simp add: of_type_def)

lemma keep_one_inv:
  assumes "keep_inv E master root now k"
  shows "keep_inv E master root now (keep_one E master root now k e)"
proof (cases "verify_entry_at E e master root now")
  case (Inl err)
  then show ?thesis using assms by (simp add: keep_one_def)
next
  case (Inr v)
  note t = verify_entry_at_t [OF Inr]
  have ok: "verifies_for E master root now e"
    by (simp add: verifies_for_def Inr)
  show ?thesis
  proof (cases "ce_item e \<in> set (seen_items k)")
    case True
    then show ?thesis using assms by (simp add: keep_one_def Inr)
  next
    case new: False
    show ?thesis
    proof (cases "ce_t e = T_ITEM")
      case True
      then show ?thesis
        using assms new ok by (simp add: keep_one_def Inr t keep_inv_def of_type_snoc Let_def cred_consts)
    next
      case item: False
      show ?thesis
      proof (cases "ce_t e = T_SUPPORTER")
        case True
        then show ?thesis
          using assms new ok item by (simp add: keep_one_def Inr t keep_inv_def of_type_snoc Let_def cred_consts)
      next
        case False
        then show ?thesis
          using assms new ok item
          by (cases "ce_t e = T_TWITCH_OWNER")
            (simp_all add: keep_one_def Inr t keep_inv_def of_type_snoc Let_def cred_consts)
      qed
    qed
  qed
qed

lemma keep_fold_inv:
  "keep_inv E master root now k \<Longrightarrow> keep_inv E master root now (foldl (keep_one E master root now) k es)"
  by (induction es arbitrary: k) (simp_all add: keep_one_inv)

lemma keep_one_kept: "kept (keep_one E master root now k e) \<in> {kept k, kept k @ [e]}"
  by (auto simp: keep_one_def Let_def split: sum.split)

lemma keep_fold_subseq: "subseq (kept (foldl (keep_one E master root now) k es)) (kept k @ es)"
proof (induction es arbitrary: k)
  case (Cons e es)
  let ?k = "keep_one E master root now k e"
  have "subseq (kept (foldl (keep_one E master root now) ?k es)) (kept ?k @ es)"
    by (rule Cons.IH)
  also have "subseq (kept ?k @ es) (kept k @ e # es)"
    using keep_one_kept [of E master root now k e] by (auto intro: list_emb_append_mono)
  finally show ?case by simp
qed simp

section \<open>Correctness of credentials\<close>

text \<open>C38: The filter every writer of the profile field goes through keeps, in order, only entries that
  verify for that very profile, no item twice, at most three item credentials, one supporter and one
  Twitch account, and never a follow credential.\<close>

theorem keep_verified_sound:
  "let out = keep_verified_at E entries master root now in
     subseq out entries \<and> distinct (map ce_item out)
     \<and> list_all (verifies_for E master root now) out
     \<and> of_type T_ITEM out \<le> 3 \<and> of_type T_SUPPORTER out \<le> 1 \<and> of_type T_TWITCH_OWNER out \<le> 1
     \<and> list_all (\<lambda>e. ce_t e \<noteq> T_TWITCH_FOLLOW) out"
proof -
  have "keep_inv E master root now keep_empty"
    by (simp add: keep_inv_def keep_empty_def of_type_def)
  from keep_fold_inv [OF this, of entries]
  have inv: "keep_inv E master root now (foldl (keep_one E master root now) keep_empty entries)" .
  have sub: "subseq (kept (foldl (keep_one E master root now) keep_empty entries)) entries"
    using keep_fold_subseq [of E master root now keep_empty entries] by (simp add: keep_empty_def)
  have "list_all (\<lambda>e. ce_t e \<noteq> T_TWITCH_FOLLOW) (kept (foldl (keep_one E master root now) keep_empty entries))"
    using inv unfolding keep_inv_def list_all_iff by (force simp: cred_consts)
  with inv sub show ?thesis
    unfolding Let_def keep_verified_at_def keep_inv_def MAX_ITEM_CREDS_def MAX_SUPPORTER_CREDS_def
      MAX_TWITCH_OWNER_CREDS_def by metis
qed

text \<open>The message a credential signs determines its type, the profile it is for, the item and the
  period, so a signature for one profile is never one for another.\<close>

theorem credential_message_injective:
  assumes "credential_message t m i p = credential_message t' m' i' p'"
    and "length m \<le> 65535" and "length m' \<le> 65535" and "length i = 32" and "length i' = 32"
  shows "t = t' \<and> m = m' \<and> i = i' \<and> p = p'"
proof -
  have eq: "char_of (unat t) # be_bytes 2 (length m) @ m @ i @ be_bytes 4 (unat p)
      = char_of (unat t') # be_bytes 2 (length m') @ m' @ i' @ be_bytes 4 (unat p')"
    using assms(1-3) by (simp add: credential_message_def u16_cap_def)
  then have "char_of (unat t) = (char_of (unat t') :: char)"
    and len: "be_bytes 2 (length m) = be_bytes 2 (length m')"
    and rest: "m @ i @ be_bytes 4 (unat p) = m' @ i' @ be_bytes 4 (unat p')"
    by (simp_all add: append_eq_append_conv)
  then have "of_char (char_of (unat t) :: char) = (of_char (char_of (unat t') :: char) :: nat)" by simp
  then have t: "t = t'"
    using unat_bound [of t] unat_bound [of t'] by (simp add: word_unat_eq_iff)
  have "length m = length m'"
    by (rule be_bytes_inject [OF _ _ len]) (use assms(2,3) in simp_all)
  with rest assms(4,5) have m: "m = m'" "i = i'" and p: "be_bytes 4 (unat p) = be_bytes 4 (unat p')"
    by simp_all
  have "unat p = unat p'"
    by (rule be_bytes_inject [OF _ _ p]) (use unat_bound [of p] unat_bound [of p'] in simp_all)
  with t m show ?thesis
    by (simp add: word_unat_eq_iff)
qed

theorem credential_message_injective_witness:
  "credential_message 1 ''alice'' (replicate 32 (CHR ''i'')) 7 \<noteq> credential_message 1 ''bob'' (replicate 32 (CHR ''i'')) 7"
  using credential_message_injective [of 1 "''alice''" "replicate 32 (CHR ''i'')" 7 1 "''bob''"
      "replicate 32 (CHR ''i'')" 7] by auto

end
