(* ===== verification/ServerState.thy ===== *)
theory ServerState
  imports Roles AuthorProof LockState SupportCreds
begin

text \<open>
  The materialized state of a server (\<open>crdt/server_state.rs\<close>): its data, the membership record, and
  the read-only queries. The source keeps everything in one struct; its fields that the state JSON
  carries are the record \<open>server_state\<close> here, and the ones it skips (log, clock, dedup set, held ops,
  signer) are in the record \<open>replica\<close> of the theory \<open>OpLog\<close>.
\<close>

section \<open>Data\<close>

datatype channel_type = Text | Voice

datatype channel_layout_item = Category string | Channel string | Separator

record label_info =
  lb_id :: string
  lb_name :: string
  lb_color :: string
  lb_access :: bool

record emote_info =
  em_name :: string
  em_hash :: string
  em_animated :: bool

record sticker_info =
  stk_hash :: string
  stk_name :: string
  stk_pack :: string
  stk_animated :: bool
  stk_w :: u32
  stk_h :: u32

definition MAX_SERVER_EMOTES :: nat where "MAX_SERVER_EMOTES = 50"

definition MAX_SERVER_STICKERS :: nat where "MAX_SERVER_STICKERS = 50"

definition MAX_STICKER_LABEL :: nat where "MAX_STICKER_LABEL = 32"

definition valid_sticker_label :: "string \<Rightarrow> bool" where
  "valid_sticker_label s \<longleftrightarrow> chars_count s \<le> MAX_STICKER_LABEL \<and> \<not> any_control s"

datatype channel_visibility = VisEveryone | VisModeratorPlus | VisAdminPlus

datatype channel_posting = PostEveryone | PostModeratorPlus | PostAdminPlus

record channel_info =
  ch_id :: string
  ch_name :: string
  ch_category :: "string option"
  ch_type :: channel_type
  ch_visibility :: channel_visibility
  ch_posting :: channel_posting
  ch_is_public :: bool
  ch_slow_mode :: u32
  ch_media_only :: bool
  ch_visibility_labels :: "string list"
  ch_posting_labels :: "string list"
  ch_voice_chat :: voice_chat

definition restricted :: "channel_info \<Rightarrow> bool" where
  "restricted ch \<longleftrightarrow> ch_visibility ch \<noteq> VisEveryone \<or> ch_visibility_labels ch \<noteq> []"

definition effective_public :: "channel_info \<Rightarrow> bool" where
  "effective_public ch \<longleftrightarrow> ch_is_public ch \<and> ch_type ch = Text \<and> \<not> restricted ch"

record member_info =
  mi_peer_id :: string
  mi_display_name :: string

record member_span =
  from_ms :: u64
  until_ms :: u64
  asked_at :: int
  from_hlc :: "hlc_timestamp option"
  admitted :: "(string \<times> hlc_timestamp) list"

text \<open>\<open>note_admitter\<close>: the first entry of that author is lowered, or a new one appended.\<close>

fun admit_earliest ::
  "string \<Rightarrow> hlc_timestamp \<Rightarrow> (string \<times> hlc_timestamp) list \<Rightarrow> (string \<times> hlc_timestamp) list" where
  "admit_earliest who h [] = [(who, h)]"
| "admit_earliest who h ((author, old) # rest) =
     (if author = who then (author, if h < old then h else old) # rest
      else (author, old) # admit_earliest who h rest)"

definition note_admitter :: "string \<Rightarrow> hlc_timestamp \<Rightarrow> member_span \<Rightarrow> member_span" where
  "note_admitter who h span = span\<lparr>admitted := admit_earliest who h (admitted span)\<rparr>"

definition MEMBER_SPAN_SLACK_MS :: u64 where
  "MEMBER_SPAN_SLACK_MS = 10 * 60 * 1000"

datatype anchor = Legacy | Genesis | Checkpoint

record server_state =
  server_id :: string
  srv_name :: "string admin_lww_reg"
  channels :: "channel_info hmap"
  members :: "member_info hmap"
  roles :: "member_role admin_lww_reg hmap"
  nicknames :: "string admin_lww_reg hmap"
  twitch_usernames :: "string admin_lww_reg hmap"
  pinned_messages :: "string list hmap"
  channel_layout :: "channel_layout_item list"
  storage_pledges :: "u64 admin_lww_reg hmap"
  settings :: "string admin_lww_reg hmap"
  role_permissions :: "u32 admin_lww_reg hmap"
  banned_members :: "bool admin_lww_reg hmap"
  muted_members :: "u64 admin_lww_reg hmap"
  channel_grants :: "u64 admin_lww_reg hmap hmap"
  labels :: "label_info hmap"
  label_assignments :: "string list hmap"
  emotes :: "emote_info hmap"
  stickers :: "sticker_info hmap"
  deleted :: bool
  member_record :: "member_span list hmap"
  join_secret :: "string admin_lww_reg option"
  join_lock :: join_lock_state
  owner_pin :: "string option"
  checkpoint_hlc :: "hlc_timestamp option"
  standing_folded :: bool

text \<open>\<open>state_json\<close> and \<open>state_of_json\<close> are serde's writer and reader of a state, \<open>layout_of_json\<close> the
  reader of a channel layout. \<open>identity_resolver\<close> is the hook the node installs at startup
  (\<open>crdt/mod.rs\<close>).\<close>

record fold_env = cred_env +
  state_json :: "server_state \<Rightarrow> string"
  state_of_json :: "string \<Rightarrow> server_state option"
  layout_of_json :: "string \<Rightarrow> channel_layout_item list option"
  identity_resolver :: "(string \<Rightarrow> string) option"

definition resolve_identity :: "('a) fold_env_scheme \<Rightarrow> string \<Rightarrow> string" where
  "resolve_identity E pid = (case identity_resolver E of Some f \<Rightarrow> f pid | None \<Rightarrow> pid)"

definition skeleton :: "string \<Rightarrow> server_state" where
  "skeleton sid =
     \<lparr>server_id = sid, srv_name = lww_new [] (hlc_zero []) 0, channels = [], members = [], roles = [],
      nicknames = [], twitch_usernames = [], pinned_messages = [], channel_layout = [],
      storage_pledges = [], settings = [], role_permissions = [], banned_members = [],
      muted_members = [], channel_grants = [], labels = [], label_assignments = [], emotes = [],
      stickers = [], deleted = False, member_record = [], join_secret = None,
      join_lock = lock_default, owner_pin = None, checkpoint_hlc = None, standing_folded = False\<rparr>"

section \<open>The membership record\<close>

definition open_span :: "string \<Rightarrow> hlc_timestamp \<Rightarrow> int \<Rightarrow> string option \<Rightarrow> server_state \<Rightarrow> server_state" where
  "open_span master h asked who s =
     (let spans = (case hm_get (member_record s) master of None \<Rightarrow> [] | Some sp \<Rightarrow> sp);
          spans = (if spans = [] \<or> until_ms (last spans) \<noteq> u64_MAX
                   then spans @ [\<lparr>from_ms = physical_ms h, until_ms = u64_MAX, asked_at = asked,
                                  from_hlc = Some h, admitted = []\<rparr>]
                   else spans);
          spans = (case who of
                     None \<Rightarrow> spans
                   | Some w \<Rightarrow> butlast spans @ [note_admitter w h (last spans)])
      in s\<lparr>member_record := hm_insert master spans (member_record s)\<rparr>)"

text \<open>\<open>get_mut(master).last_mut().filter(|s| s.until_ms == u64::MAX)\<close>, the span the code edits in place.\<close>

definition edit_open_span :: "string \<Rightarrow> (member_span \<Rightarrow> member_span) \<Rightarrow> server_state \<Rightarrow> server_state" where
  "edit_open_span master f s =
     s\<lparr>member_record := hm_modify master
         (\<lambda>spans. if spans \<noteq> [] \<and> until_ms (last spans) = u64_MAX
                  then butlast spans @ [f (last spans)] else spans) (member_record s)\<rparr>"

definition close_span :: "string \<Rightarrow> u64 \<Rightarrow> server_state \<Rightarrow> server_state" where
  "close_span master at_ms s =
     edit_open_span master (\<lambda>sp. sp\<lparr>until_ms := max at_ms (from_ms sp)\<rparr>) s"

definition was_member_at :: "server_state \<Rightarrow> string \<Rightarrow> u64 \<Rightarrow> bool" where
  "was_member_at s master at_ms \<longleftrightarrow>
     is_some_and (list_ex (\<lambda>sp. saturating_sub (from_ms sp) MEMBER_SPAN_SLACK_MS \<le> at_ms
                              \<and> at_ms < saturating_add (until_ms sp) MEMBER_SPAN_SLACK_MS))
       (hm_get (member_record s) master)"

definition last_span :: "server_state \<Rightarrow> string \<Rightarrow> member_span option" where
  "last_span s master =
     (case hm_get (member_record s) master of
        None \<Rightarrow> None
      | Some spans \<Rightarrow> if spans = [] then None else Some (last spans))"

definition left_at :: "server_state \<Rightarrow> string \<Rightarrow> u64 option" where
  "left_at s master = map_option until_ms (opt_filter (\<lambda>sp. until_ms sp \<noteq> u64_MAX) (last_span s master))"

definition member_since :: "server_state \<Rightarrow> string \<Rightarrow> u64 option" where
  "member_since s master = map_option from_ms (opt_filter (\<lambda>sp. until_ms sp = u64_MAX) (last_span s master))"

section \<open>Queries\<close>

definition owner_entries :: "server_state \<Rightarrow> string list" where
  "owner_entries s = map fst (filter (\<lambda>e. lww_read (snd e) = Owner) (roles s))"

definition current_owner :: "server_state \<Rightarrow> string option" where
  "current_owner s = map_option fst (List.find (\<lambda>e. lww_read (snd e) = Owner) (roles s))"

definition anchor :: "server_state \<Rightarrow> anchor" where
  "anchor s =
     (if checkpoint_hlc s \<noteq> None then Checkpoint
      else if is_genesis_id (server_id s) then Genesis else Legacy)"

definition anchor_owner :: "server_state \<Rightarrow> string option" where
  "anchor_owner s = (case owner_pin s of Some p \<Rightarrow> Some p | None \<Rightarrow> current_owner s)"

definition channels_list :: "server_state \<Rightarrow> channel_info list" where
  "channels_list s = sort_key ch_name (map snd (channels s))"

definition members_list :: "server_state \<Rightarrow> member_info list" where
  "members_list s = sort_key mi_display_name (map snd (members s))"

abbreviation reg_get :: "'v admin_lww_reg hmap \<Rightarrow> string \<Rightarrow> 'v option" where
  "reg_get m k \<equiv> map_option lww_read (hm_get m k)"

definition get_role :: "('a) fold_env_scheme \<Rightarrow> server_state \<Rightarrow> string \<Rightarrow> member_role" where
  "get_role E s pid = unwrap_or Member (reg_get (roles s) (resolve_identity E pid))"

definition get_nickname :: "server_state \<Rightarrow> string \<Rightarrow> string" where
  "get_nickname s pid = unwrap_or [] (reg_get (nicknames s) pid)"

definition get_twitch_username :: "server_state \<Rightarrow> string \<Rightarrow> string" where
  "get_twitch_username s pid = unwrap_or [] (reg_get (twitch_usernames s) pid)"

definition get_pinned_messages :: "server_state \<Rightarrow> string \<Rightarrow> string list" where
  "get_pinned_messages s cid = unwrap_or [] (hm_get (pinned_messages s) cid)"

definition get_storage_pledge :: "server_state \<Rightarrow> string \<Rightarrow> u64" where
  "get_storage_pledge s pid = unwrap_or 0 (reg_get (storage_pledges s) pid)"

definition total_pledged_bytes :: "server_state \<Rightarrow> u64" where
  "total_pledged_bytes s = sum_list (map (\<lambda>e. lww_read (snd e)) (storage_pledges s))"

definition min_pledge_mb :: "server_state \<Rightarrow> u64" where
  "min_pledge_mb s = unwrap_or 512 (Option.bind (reg_get (settings s) ''min_pledge_mb'') parse_u64)"

definition relay_catchup_secs :: "server_state \<Rightarrow> int" where
  "relay_catchup_secs s =
     max (unwrap_or (3 * 86400) (Option.bind (reg_get (settings s) ''relay_catchup_secs'') parse_i64)) 0"

definition is_private :: "server_state \<Rightarrow> bool" where
  "is_private s = unwrap_or False (map_option (\<lambda>v. v = ''true'') (reg_get (settings s) ''is_private''))"

definition is_nsfw :: "server_state \<Rightarrow> bool" where
  "is_nsfw s = unwrap_or False (map_option (\<lambda>v. v = ''true'') (reg_get (settings s) ''is_nsfw''))"

definition max_members :: "server_state \<Rightarrow> u32 option" where
  "max_members s = opt_filter (\<lambda>n. 0 < n) (Option.bind (reg_get (settings s) ''max_members'') parse_u32)"

definition join_secret_shape :: "('a) crypto_scheme \<Rightarrow> string \<Rightarrow> bytes option" where
  "join_secret_shape C secret =
     (if length secret \<noteq> 64 then None
      else opt_filter (\<lambda>b. length b = 32) (hex_decode C secret))"

definition get_join_secret :: "('a) crypto_scheme \<Rightarrow> server_state \<Rightarrow> bytes option" where
  "get_join_secret C s =
     (case join_secret s of None \<Rightarrow> None | Some reg \<Rightarrow> join_secret_shape C (lww_read reg))"

definition join_public_text :: "('a) crypto_scheme \<Rightarrow> server_state \<Rightarrow> string option" where
  "join_public_text C s = map_option (\<lambda>sec. key_to_text C (public_of C sec)) (get_join_secret C s)"

definition holds_moderation :: "server_state \<Rightarrow> string \<Rightarrow> bool" where
  "holds_moderation s master \<longleftrightarrow>
     hm_has (members s) master \<and> is_some_and (\<lambda>r. priority Moderator \<le> priority r) (reg_get (roles s) master)"

definition moderation_masters :: "server_state \<Rightarrow> string list" where
  "moderation_masters s = sort (filter (holds_moderation s) (map fst (members s)))"

definition author_priority :: "('a) fold_env_scheme \<Rightarrow> server_state \<Rightarrow> string \<Rightarrow> u8" where
  "author_priority E s author =
     unwrap_or 0 (map_option priority (reg_get (roles s) (resolve_identity E author)))"

definition permissions_of :: "server_state \<Rightarrow> member_role \<Rightarrow> u32" where
  "permissions_of s role =
     (if role = Owner then ALL_PERMISSIONS
      else unwrap_or (default_permissions role) (reg_get (role_permissions s) (as_str role)))"

definition get_permissions :: "('a) fold_env_scheme \<Rightarrow> server_state \<Rightarrow> string \<Rightarrow> u32" where
  "get_permissions E s pid = permissions_of s (get_role E s pid)"

definition get_role_permissions :: "server_state \<Rightarrow> string \<Rightarrow> u32" where
  "get_role_permissions s role =
     (if role = ''owner'' then ALL_PERMISSIONS
      else unwrap_or (default_permissions (from_str role)) (reg_get (role_permissions s) role))"

unbundle bit_operations_syntax

definition has_bits :: "u32 \<Rightarrow> u32 \<Rightarrow> bool" where
  "has_bits perms bits \<longleftrightarrow> perms AND bits \<noteq> 0"

definition has_permission :: "('a) fold_env_scheme \<Rightarrow> server_state \<Rightarrow> string \<Rightarrow> u32 \<Rightarrow> bool" where
  "has_permission E s pid bits \<longleftrightarrow> has_bits (get_permissions E s pid) bits"

definition author_role :: "server_state \<Rightarrow> string \<Rightarrow> member_role option" where
  "author_role s author =
     (if hm_has (members s) author then Some (unwrap_or Member (reg_get (roles s) author)) else None)"

definition is_banned :: "('a) fold_env_scheme \<Rightarrow> server_state \<Rightarrow> string \<Rightarrow> bool" where
  "is_banned E s pid = unwrap_or False (reg_get (banned_members s) (resolve_identity E pid))"

definition is_deleted :: "server_state \<Rightarrow> bool" where
  "is_deleted s = deleted s"

definition is_member :: "('a) fold_env_scheme \<Rightarrow> server_state \<Rightarrow> string \<Rightarrow> bool" where
  "is_member E s pid = hm_has (members s) (resolve_identity E pid)"

definition is_muted :: "('a) fold_env_scheme \<Rightarrow> server_state \<Rightarrow> string \<Rightarrow> u64 \<Rightarrow> bool" where
  "is_muted E s pid now_ms =
     unwrap_or False (map_option (\<lambda>t. now_ms < t) (reg_get (muted_members s) (resolve_identity E pid)))"

definition muted_list :: "server_state \<Rightarrow> u64 \<Rightarrow> (string \<times> u64) list" where
  "muted_list s now_ms =
     map (\<lambda>(pid, reg). (pid, lww_read reg)) (filter (\<lambda>(_, reg). now_ms < lww_read reg) (muted_members s))"

definition banned_list :: "server_state \<Rightarrow> string list" where
  "banned_list s = map fst (filter (\<lambda>(_, reg). lww_read reg) (banned_members s))"

definition labels_list :: "server_state \<Rightarrow> label_info list" where
  "labels_list s = sort_key lb_name (map snd (labels s))"

definition emotes_list :: "server_state \<Rightarrow> emote_info list" where
  "emotes_list s = sort_key em_name (map snd (emotes s))"

definition stickers_list :: "server_state \<Rightarrow> sticker_info list" where
  "stickers_list s = sort_key (\<lambda>k. (stk_pack k, stk_name k, stk_hash k)) (map snd (stickers s))"

definition get_member_labels :: "server_state \<Rightarrow> string \<Rightarrow> label_info list" where
  "get_member_labels s pid =
     unwrap_or [] (map_option (List.map_filter (hm_get (labels s))) (hm_get (label_assignments s) pid))"

definition has_channel_grant :: "('a) fold_env_scheme \<Rightarrow> server_state \<Rightarrow> string \<Rightarrow> string \<Rightarrow> u64 \<Rightarrow> bool" where
  "has_channel_grant E s pid cid now_ms =
     unwrap_or False (map_option (\<lambda>reg. now_ms < lww_read reg)
       (Option.bind (hm_get (channel_grants s) cid) (\<lambda>m. hm_get m (resolve_identity E pid))))"

definition channel_grants_list :: "server_state \<Rightarrow> string \<Rightarrow> u64 \<Rightarrow> (string \<times> u64) list" where
  "channel_grants_list s cid now_ms =
     unwrap_or [] (map_option
       (\<lambda>m. map (\<lambda>(pid, reg). (pid, lww_read reg)) (filter (\<lambda>(_, reg). now_ms < lww_read reg) m))
       (hm_get (channel_grants s) cid))"

definition holds_any_label :: "server_state \<Rightarrow> string \<Rightarrow> string list \<Rightarrow> bool" where
  "holds_any_label s master wanted \<longleftrightarrow>
     is_some_and (\<lambda>held. list_ex (\<lambda>w. w \<in> set held) wanted) (hm_get (label_assignments s) master)"

definition can_self_toggle_label :: "('a) fold_env_scheme \<Rightarrow> server_state \<Rightarrow> string \<Rightarrow> string \<Rightarrow> string \<Rightarrow> bool" where
  "can_self_toggle_label E s who target label \<longleftrightarrow>
     resolve_identity E who = resolve_identity E target
     \<and> is_some_and (\<lambda>l. \<not> lb_access l) (hm_get (labels s) label)"

definition can_see_channel_at :: "('a) fold_env_scheme \<Rightarrow> server_state \<Rightarrow> string \<Rightarrow> string \<Rightarrow> u64 \<Rightarrow> bool" where
  "can_see_channel_at E s pid cid now_ms =
     (let master = resolve_identity E pid; role = get_role E s master in
      if role = Owner then True
      else (case hm_get (channels s) cid of
              None \<Rightarrow> False
            | Some ch \<Rightarrow>
                if has_channel_grant E s master cid now_ms then True
                else if ch_visibility_labels ch \<noteq> []
                then priority Admin \<le> priority role \<or> holds_any_label s master (ch_visibility_labels ch)
                else (case ch_visibility ch of
                        VisEveryone \<Rightarrow> True
                      | VisModeratorPlus \<Rightarrow> priority Moderator \<le> priority role
                      | VisAdminPlus \<Rightarrow> priority Admin \<le> priority role)))"

definition is_channel_public :: "server_state \<Rightarrow> string \<Rightarrow> bool" where
  "is_channel_public s cid = is_some_and effective_public (hm_get (channels s) cid)"

definition can_post_in_channel_at :: "('a) fold_env_scheme \<Rightarrow> server_state \<Rightarrow> string \<Rightarrow> string \<Rightarrow> u64 \<Rightarrow> bool" where
  "can_post_in_channel_at E s pid cid now_ms =
     (let master = resolve_identity E pid; role = get_role E s master in
      if role = Owner then True
      else (case hm_get (channels s) cid of
              None \<Rightarrow> False
            | Some ch \<Rightarrow>
                if has_channel_grant E s master cid now_ms then True
                else if ch_posting_labels ch \<noteq> []
                then priority Admin \<le> priority role \<or> holds_any_label s master (ch_posting_labels ch)
                else (case ch_posting ch of
                        PostEveryone \<Rightarrow> has_permission E s master SEND_MESSAGES
                      | PostModeratorPlus \<Rightarrow> priority Moderator \<le> priority role
                      | PostAdminPlus \<Rightarrow> priority Admin \<le> priority role)))"

definition channel_slow_mode :: "server_state \<Rightarrow> string \<Rightarrow> u32" where
  "channel_slow_mode s cid = unwrap_or 0 (map_option ch_slow_mode (hm_get (channels s) cid))"

definition is_channel_media_only :: "server_state \<Rightarrow> string \<Rightarrow> bool" where
  "is_channel_media_only s cid = is_some_and ch_media_only (hm_get (channels s) cid)"

definition VOICE_TEXT_CHAT_KEY :: string where
  "VOICE_TEXT_CHAT_KEY = ''voice_text_chat''"

definition voice_text_chat_default :: "server_state \<Rightarrow> bool" where
  "voice_text_chat_default s = is_none_or (\<lambda>v. v \<noteq> ''false'') (reg_get (settings s) VOICE_TEXT_CHAT_KEY)"

definition channel_chat_open :: "server_state \<Rightarrow> string \<Rightarrow> bool" where
  "channel_chat_open s cid =
     (case hm_get (channels s) cid of
        None \<Rightarrow> True
      | Some ch \<Rightarrow>
          if ch_type ch \<noteq> Voice then True
          else (case ch_voice_chat ch of
                  ChatOn \<Rightarrow> True
                | ChatOff \<Rightarrow> False
                | ChatServer \<Rightarrow> voice_text_chat_default s))"

definition bypasses_slow_mode :: "('a) fold_env_scheme \<Rightarrow> server_state \<Rightarrow> string \<Rightarrow> bool" where
  "bypasses_slow_mode E s pid \<longleftrightarrow> priority Moderator \<le> priority (get_role E s pid)"

definition channel_uses_subgroup :: "server_state \<Rightarrow> string \<Rightarrow> bool" where
  "channel_uses_subgroup s cid = is_some_and restricted (hm_get (channels s) cid)"

definition subgroup_channel_ids :: "server_state \<Rightarrow> string list" where
  "subgroup_channel_ids s = map ch_id (filter restricted (map snd (channels s)))"

definition short_name :: "string \<Rightarrow> string" where
  "short_name pid = (if 12 < length pid then take 12 pid @ ''...'' else pid)"

end
