(* ===== verification/PayloadApply.thy ===== *)
theory PayloadApply
  imports ServerState
begin

text \<open>
  The state change each op makes (\<open>ServerState::apply_payload\<close> and what it calls): one definition per
  arm of the source's match, then the match itself. Nothing here judges the op or touches the log.
\<close>

section \<open>Founding, clamping, rebasing\<close>

definition default_channel :: "string \<Rightarrow> string \<Rightarrow> string option \<Rightarrow> channel_type \<Rightarrow> channel_info" where
  "default_channel cid nm cat kind =
     \<lparr>ch_id = cid, ch_name = nm, ch_category = cat, ch_type = kind, ch_visibility = VisEveryone,
      ch_posting = PostEveryone, ch_is_public = False, ch_slow_mode = 0, ch_media_only = False,
      ch_visibility_labels = [], ch_posting_labels = [], ch_voice_chat = ChatServer\<rparr>"

definition seed_founder :: "string \<Rightarrow> string \<Rightarrow> hlc_timestamp \<Rightarrow> server_state \<Rightarrow> server_state" where
  "seed_founder nm ow h s =
     (let s = s\<lparr>srv_name := lww_new nm h (priority Owner),
                members := hm_insert ow \<lparr>mi_peer_id = ow, mi_display_name = short_name ow\<rparr> (members s),
                roles := hm_insert ow (lww_new Owner h (priority Owner)) (roles s)\<rparr>;
          s = open_span ow h 0 None s;
          general_id = take (min 8 (length (server_id s))) (server_id s) @ ''-general'';
          s = s\<lparr>channels := hm_or_insert general_id (default_channel general_id ''general'' None Text) (channels s)\<rparr>
      in if owner_pin s = None then s\<lparr>owner_pin := Some ow\<rparr> else s)"

text \<open>\<open>clamp_map\<close>: the number of registers pulled back, and the map.\<close>

definition clamp_map :: "u64 \<Rightarrow> 'v admin_lww_reg hmap \<Rightarrow> nat \<times> 'v admin_lww_reg hmap" where
  "clamp_map max_ms m =
     (length (filter (\<lambda>e. fst (lww_clamp_hlc max_ms (snd e))) m),
      hm_map_values (\<lambda>r. snd (lww_clamp_hlc max_ms r)) m)"

definition clamp_future_hlcs :: "u64 \<Rightarrow> server_state \<Rightarrow> nat \<times> server_state" where
  "clamp_future_hlcs now_ms s =
     (let max_ms = saturating_add now_ms MAX_DRIFT_MS;
          (c1, nm) = lww_clamp_hlc max_ms (srv_name s);
          (c2, sec) = (case join_secret s of
                         None \<Rightarrow> (False, None)
                       | Some reg \<Rightarrow> (let (c, r) = lww_clamp_hlc max_ms reg in (c, Some r)));
          (n3, lock) = clamp_hlcs max_ms (join_lock s);
          (n4, ro) = clamp_map max_ms (roles s);
          (n5, ni) = clamp_map max_ms (nicknames s);
          (n6, tw) = clamp_map max_ms (twitch_usernames s);
          (n7, pl) = clamp_map max_ms (storage_pledges s);
          (n8, se) = clamp_map max_ms (settings s);
          (n9, rp) = clamp_map max_ms (role_permissions s);
          (n10, ba) = clamp_map max_ms (banned_members s);
          (n11, mu) = clamp_map max_ms (muted_members s);
          n12 = sum_list (map (\<lambda>e. fst (clamp_map max_ms (snd e))) (channel_grants s));
          gr = hm_map_values (\<lambda>m. snd (clamp_map max_ms m)) (channel_grants s)
      in (of_bool c1 + of_bool c2 + n3 + n4 + n5 + n6 + n7 + n8 + n9 + n10 + n11 + n12,
          s\<lparr>srv_name := nm, join_secret := sec, join_lock := lock, roles := ro, nicknames := ni,
            twitch_usernames := tw, storage_pledges := pl, settings := se, role_permissions := rp,
            banned_members := ba, muted_members := mu, channel_grants := gr\<rparr>))"

definition well_formed_channels :: "channel_info hmap \<Rightarrow> channel_info hmap" where
  "well_formed_channels chs = hm_retain (\<lambda>cid ch. valid_channel_id cid \<and> ch_id ch = cid) chs"

definition retain_well_formed_channels :: "server_state \<Rightarrow> server_state" where
  "retain_well_formed_channels s = s\<lparr>channels := well_formed_channels (channels s)\<rparr>"

definition rebase_on :: "server_state \<Rightarrow> string \<Rightarrow> hlc_timestamp \<Rightarrow> server_state \<Rightarrow> server_state" where
  "rebase_on base ow covers s =
     snd (clamp_future_hlcs (physical_ms covers)
       (s\<lparr>srv_name := srv_name base,
          channels := well_formed_channels (channels base),
          members := members base, roles := roles base, nicknames := nicknames base,
          twitch_usernames := twitch_usernames base, pinned_messages := pinned_messages base,
          channel_layout := channel_layout base, storage_pledges := storage_pledges base,
          settings := settings base, role_permissions := role_permissions base,
          banned_members := banned_members base, muted_members := muted_members base,
          channel_grants := channel_grants base, labels := labels base,
          label_assignments := label_assignments base, emotes := emotes base,
          stickers := stickers base, deleted := deleted base, member_record := member_record base,
          join_secret := join_secret base, join_lock := join_lock base,
          owner_pin := Some ow, checkpoint_hlc := Some covers\<rparr>))"

definition reset_materialized :: "server_state \<Rightarrow> server_state" where
  "reset_materialized s =
     (skeleton (server_id s))\<lparr>owner_pin := owner_pin s, standing_folded := standing_folded s\<rparr>"

section \<open>The arms\<close>

definition apply_server_created :: "string \<Rightarrow> string \<Rightarrow> crdt_op \<Rightarrow> server_state \<Rightarrow> server_state" where
  "apply_server_created nm ow op s =
     (if current_owner s = None then seed_founder nm ow (op_hlc op) s else s)"

definition apply_checkpoint ::
  "('a) fold_env_scheme \<Rightarrow> string \<Rightarrow> hlc_timestamp \<Rightarrow> crdt_op \<Rightarrow> server_state \<Rightarrow> server_state" where
  "apply_checkpoint E json covers op s =
     (case state_of_json E json of
        Some base \<Rightarrow> rebase_on base (op_author op) covers s
      | None \<Rightarrow> s)"

abbreviation op_reg :: "('a) fold_env_scheme \<Rightarrow> server_state \<Rightarrow> crdt_op \<Rightarrow> 'v \<Rightarrow> 'v admin_lww_reg" where
  "op_reg E s op v \<equiv> lww_new v (op_hlc op) (author_priority E s (op_author op))"

definition apply_renamed :: "('a) fold_env_scheme \<Rightarrow> string \<Rightarrow> crdt_op \<Rightarrow> server_state \<Rightarrow> server_state" where
  "apply_renamed E nm op s = s\<lparr>srv_name := lww_merge (srv_name s) (op_reg E s op nm)\<rparr>"

definition apply_setting :: "('a) fold_env_scheme \<Rightarrow> string \<Rightarrow> string \<Rightarrow> crdt_op \<Rightarrow> server_state \<Rightarrow> server_state" where
  "apply_setting E k v op s = s\<lparr>settings := lww_write k (op_reg E s op v) (settings s)\<rparr>"

definition apply_join_key :: "string \<Rightarrow> crdt_op \<Rightarrow> server_state \<Rightarrow> server_state" where
  "apply_join_key secret op s =
     (let remote = lww_new secret (op_hlc op) (priority Owner)
      in s\<lparr>join_secret := Some (case join_secret s of Some reg \<Rightarrow> lww_merge reg remote | None \<Rightarrow> remote)\<rparr>)"

definition apply_join_lock ::
  "('a) crypto_scheme \<Rightarrow> lock_link \<Rightarrow> string option \<Rightarrow> (string \<times> string) list \<Rightarrow> crdt_op \<Rightarrow> server_state \<Rightarrow> server_state" where
  "apply_join_lock C link secret gs op s = s\<lparr>join_lock := lock_apply C link secret gs (op_hlc op) (join_lock s)\<rparr>"

definition apply_deleted :: "server_state \<Rightarrow> server_state" where
  "apply_deleted s =
     s\<lparr>deleted := True, members := [], roles := [], channels := [], nicknames := [],
       twitch_usernames := [], storage_pledges := [], label_assignments := []\<rparr>"

definition apply_channel_added ::
  "string \<Rightarrow> string \<Rightarrow> string option \<Rightarrow> string \<Rightarrow> server_state \<Rightarrow> server_state" where
  "apply_channel_added cid nm cat tname s =
     (let kind = (if tname = ''voice'' then Voice else Text)
      in s\<lparr>channels := hm_or_insert cid (default_channel cid nm cat kind) (channels s)\<rparr>)"

definition apply_channel_removed :: "string \<Rightarrow> server_state \<Rightarrow> server_state" where
  "apply_channel_removed cid s = s\<lparr>channels := hm_remove cid (channels s)\<rparr>"

definition edit_channel :: "string \<Rightarrow> (channel_info \<Rightarrow> channel_info) \<Rightarrow> server_state \<Rightarrow> server_state" where
  "edit_channel cid f s = s\<lparr>channels := hm_modify cid f (channels s)\<rparr>"

definition apply_channel_renamed :: "string \<Rightarrow> string \<Rightarrow> server_state \<Rightarrow> server_state" where
  "apply_channel_renamed cid nm = edit_channel cid (\<lambda>ch. ch\<lparr>ch_name := nm\<rparr>)"

definition apply_member_added ::
  "string \<Rightarrow> string \<Rightarrow> join_ask option \<Rightarrow> crdt_op \<Rightarrow> server_state \<Rightarrow> server_state" where
  "apply_member_added pid nm ask op s =
     (let s = (if \<not> hm_has (members s) pid
               then open_span pid (op_hlc op) (case ask of None \<Rightarrow> 0 | Some a \<Rightarrow> ask_at a) (Some (op_author op)) s
               else edit_open_span pid (note_admitter (op_author op) (op_hlc op)) s)
      in s\<lparr>members := hm_or_insert pid \<lparr>mi_peer_id = pid, mi_display_name = nm\<rparr> (members s),
           roles := hm_or_insert pid (lww_new Member (op_hlc op) (priority Member)) (roles s)\<rparr>)"

text \<open>What \<open>MemberRemoved\<close> and \<open>MemberBanned\<close> share.\<close>

definition drop_member :: "string \<Rightarrow> crdt_op \<Rightarrow> server_state \<Rightarrow> server_state" where
  "drop_member pid op s =
     (let s = (if hm_has (members s) pid then s\<lparr>join_lock := note_removal (op_hlc op) (join_lock s)\<rparr> else s);
          s = close_span pid (physical_ms (op_hlc op)) s
      in s\<lparr>members := hm_remove pid (members s), roles := hm_remove pid (roles s),
           nicknames := hm_remove pid (nicknames s), twitch_usernames := hm_remove pid (twitch_usernames s),
           storage_pledges := hm_remove pid (storage_pledges s)\<rparr>)"

definition apply_member_removed :: "string \<Rightarrow> crdt_op \<Rightarrow> server_state \<Rightarrow> server_state" where
  "apply_member_removed pid op s = drop_member pid op s"

definition close_to_guests :: "channel_info \<Rightarrow> channel_info" where
  "close_to_guests ch = ch\<lparr>ch_is_public := (ch_is_public ch \<and> \<not> restricted ch)\<rparr>"

definition apply_visibility :: "string \<Rightarrow> string \<Rightarrow> server_state \<Rightarrow> server_state" where
  "apply_visibility cid v =
     edit_channel cid (\<lambda>ch. close_to_guests (ch\<lparr>ch_visibility :=
       (if v = ''moderator'' then VisModeratorPlus else if v = ''admin'' then VisAdminPlus else VisEveryone)\<rparr>))"

definition apply_posting :: "string \<Rightarrow> string \<Rightarrow> server_state \<Rightarrow> server_state" where
  "apply_posting cid v =
     edit_channel cid (\<lambda>ch. ch\<lparr>ch_posting :=
       (if v = ''moderator'' then PostModeratorPlus else if v = ''admin'' then PostAdminPlus else PostEveryone)\<rparr>)"

definition apply_public :: "string \<Rightarrow> bool \<Rightarrow> server_state \<Rightarrow> server_state" where
  "apply_public cid p = edit_channel cid (\<lambda>ch. if ch_type ch = Text then ch\<lparr>ch_is_public := p\<rparr> else ch)"

definition apply_slow_mode :: "string \<Rightarrow> u32 \<Rightarrow> server_state \<Rightarrow> server_state" where
  "apply_slow_mode cid n = edit_channel cid (\<lambda>ch. ch\<lparr>ch_slow_mode := n\<rparr>)"

definition apply_media_only :: "string \<Rightarrow> bool \<Rightarrow> server_state \<Rightarrow> server_state" where
  "apply_media_only cid b = edit_channel cid (\<lambda>ch. ch\<lparr>ch_media_only := b\<rparr>)"

definition apply_voice_chat :: "string \<Rightarrow> voice_chat \<Rightarrow> server_state \<Rightarrow> server_state" where
  "apply_voice_chat cid m = edit_channel cid (\<lambda>ch. ch\<lparr>ch_voice_chat := m\<rparr>)"

definition apply_visibility_labels :: "string \<Rightarrow> string list \<Rightarrow> server_state \<Rightarrow> server_state" where
  "apply_visibility_labels cid ls =
     edit_channel cid (\<lambda>ch. close_to_guests (ch\<lparr>ch_visibility_labels := ls\<rparr>))"

definition apply_posting_labels :: "string \<Rightarrow> string list \<Rightarrow> server_state \<Rightarrow> server_state" where
  "apply_posting_labels cid ls = edit_channel cid (\<lambda>ch. ch\<lparr>ch_posting_labels := ls\<rparr>)"

definition grants_of :: "server_state \<Rightarrow> string \<Rightarrow> u64 admin_lww_reg hmap" where
  "grants_of s cid = unwrap_or [] (hm_get (channel_grants s) cid)"

definition apply_grant_set ::
  "('a) fold_env_scheme \<Rightarrow> string \<Rightarrow> string \<Rightarrow> u64 \<Rightarrow> crdt_op \<Rightarrow> server_state \<Rightarrow> server_state" where
  "apply_grant_set E cid pid expires op s =
     s\<lparr>channel_grants := hm_insert cid (lww_write pid (op_reg E s op expires) (grants_of s cid)) (channel_grants s)\<rparr>"

definition apply_grant_revoked ::
  "('a) fold_env_scheme \<Rightarrow> string \<Rightarrow> string \<Rightarrow> crdt_op \<Rightarrow> server_state \<Rightarrow> server_state" where
  "apply_grant_revoked E cid pid op s =
     (let per_chan = hm_retain (\<lambda>_ reg. lww_read reg \<noteq> 0) (lww_write pid (op_reg E s op 0) (grants_of s cid))
      in s\<lparr>channel_grants := (if per_chan = [] then hm_remove cid (channel_grants s)
                              else hm_insert cid per_chan (channel_grants s))\<rparr>)"

definition apply_role_changed ::
  "string \<Rightarrow> member_role \<Rightarrow> u8 \<Rightarrow> crdt_op \<Rightarrow> server_state \<Rightarrow> server_state" where
  "apply_role_changed pid role prio op s =
     (let was_moderation = is_some_and (\<lambda>r. priority Moderator \<le> priority r) (reg_get (roles s) pid);
          s = s\<lparr>roles := lww_write pid (lww_new role (op_hlc op) prio) (roles s)\<rparr>
      in if was_moderation \<and> is_some_and (\<lambda>r. priority r < priority Moderator) (reg_get (roles s) pid)
         then s\<lparr>join_lock := note_removal (op_hlc op) (join_lock s)\<rparr> else s)"

definition apply_nickname :: "('a) fold_env_scheme \<Rightarrow> string \<Rightarrow> string \<Rightarrow> crdt_op \<Rightarrow> server_state \<Rightarrow> server_state" where
  "apply_nickname E pid v op s = s\<lparr>nicknames := lww_write pid (op_reg E s op v) (nicknames s)\<rparr>"

definition apply_twitch_username ::
  "('a) fold_env_scheme \<Rightarrow> string \<Rightarrow> string \<Rightarrow> crdt_op \<Rightarrow> server_state \<Rightarrow> server_state" where
  "apply_twitch_username E pid v op s = s\<lparr>twitch_usernames := lww_write pid (op_reg E s op v) (twitch_usernames s)\<rparr>"

definition apply_layout :: "('a) fold_env_scheme \<Rightarrow> string \<Rightarrow> server_state \<Rightarrow> server_state" where
  "apply_layout E json s =
     (case layout_of_json E json of Some l \<Rightarrow> s\<lparr>channel_layout := l\<rparr> | None \<Rightarrow> s)"

definition apply_pinned :: "string \<Rightarrow> string \<Rightarrow> server_state \<Rightarrow> server_state" where
  "apply_pinned cid mid s =
     (let pins = unwrap_or [] (hm_get (pinned_messages s) cid)
      in s\<lparr>pinned_messages := hm_insert cid (if mid \<in> set pins then pins else pins @ [mid]) (pinned_messages s)\<rparr>)"

definition apply_unpinned :: "string \<Rightarrow> string \<Rightarrow> server_state \<Rightarrow> server_state" where
  "apply_unpinned cid mid s =
     (case hm_get (pinned_messages s) cid of
        None \<Rightarrow> s
      | Some pins \<Rightarrow>
          (let pins = filter (\<lambda>i. i \<noteq> mid) pins
           in s\<lparr>pinned_messages := (if pins = [] then hm_remove cid (pinned_messages s)
                                    else hm_insert cid pins (pinned_messages s))\<rparr>))"

definition apply_pledge :: "('a) fold_env_scheme \<Rightarrow> string \<Rightarrow> u64 \<Rightarrow> crdt_op \<Rightarrow> server_state \<Rightarrow> server_state" where
  "apply_pledge E pid n op s = s\<lparr>storage_pledges := lww_write pid (op_reg E s op n) (storage_pledges s)\<rparr>"

definition apply_role_permissions ::
  "('a) fold_env_scheme \<Rightarrow> string \<Rightarrow> u32 \<Rightarrow> crdt_op \<Rightarrow> server_state \<Rightarrow> server_state" where
  "apply_role_permissions E role bits op s =
     s\<lparr>role_permissions := lww_write role (op_reg E s op bits) (role_permissions s)\<rparr>"

definition apply_banned :: "('a) fold_env_scheme \<Rightarrow> string \<Rightarrow> crdt_op \<Rightarrow> server_state \<Rightarrow> server_state" where
  "apply_banned E pid op s =
     drop_member pid op (s\<lparr>banned_members := lww_write pid (op_reg E s op True) (banned_members s)\<rparr>)"

definition apply_unbanned :: "('a) fold_env_scheme \<Rightarrow> string \<Rightarrow> crdt_op \<Rightarrow> server_state \<Rightarrow> server_state" where
  "apply_unbanned E pid op s =
     s\<lparr>banned_members := hm_retain (\<lambda>_ reg. lww_read reg)
         (lww_write pid (op_reg E s op False) (banned_members s))\<rparr>"

definition apply_muted :: "('a) fold_env_scheme \<Rightarrow> string \<Rightarrow> u64 \<Rightarrow> crdt_op \<Rightarrow> server_state \<Rightarrow> server_state" where
  "apply_muted E pid expires op s = s\<lparr>muted_members := lww_write pid (op_reg E s op expires) (muted_members s)\<rparr>"

definition apply_unmuted :: "('a) fold_env_scheme \<Rightarrow> string \<Rightarrow> crdt_op \<Rightarrow> server_state \<Rightarrow> server_state" where
  "apply_unmuted E pid op s =
     s\<lparr>muted_members := hm_retain (\<lambda>_ reg. lww_read reg \<noteq> 0)
         (lww_write pid (op_reg E s op 0) (muted_members s))\<rparr>"

definition apply_label_created :: "string \<Rightarrow> string \<Rightarrow> string \<Rightarrow> bool \<Rightarrow> server_state \<Rightarrow> server_state" where
  "apply_label_created lid nm col acc s =
     s\<lparr>labels := hm_or_insert lid \<lparr>lb_id = lid, lb_name = nm, lb_color = col, lb_access = acc\<rparr> (labels s)\<rparr>"

definition apply_label_deleted :: "string \<Rightarrow> server_state \<Rightarrow> server_state" where
  "apply_label_deleted lid s =
     s\<lparr>labels := hm_remove lid (labels s),
       label_assignments := hm_map_values (filter (\<lambda>i. i \<noteq> lid)) (label_assignments s)\<rparr>"

definition apply_label_updated :: "string \<Rightarrow> string \<Rightarrow> string \<Rightarrow> bool option \<Rightarrow> server_state \<Rightarrow> server_state" where
  "apply_label_updated lid nm col acc s =
     s\<lparr>labels := hm_modify lid
         (\<lambda>l. let l = l\<lparr>lb_name := nm, lb_color := col\<rparr>
              in case acc of Some a \<Rightarrow> l\<lparr>lb_access := a\<rparr> | None \<Rightarrow> l) (labels s)\<rparr>"

definition apply_label_assigned :: "string \<Rightarrow> string \<Rightarrow> server_state \<Rightarrow> server_state" where
  "apply_label_assigned lid pid s =
     (let held = unwrap_or [] (hm_get (label_assignments s) pid)
      in s\<lparr>label_assignments := hm_insert pid (if lid \<in> set held then held else held @ [lid]) (label_assignments s)\<rparr>)"

definition apply_label_unassigned :: "string \<Rightarrow> string \<Rightarrow> server_state \<Rightarrow> server_state" where
  "apply_label_unassigned lid pid s =
     (case hm_get (label_assignments s) pid of
        None \<Rightarrow> s
      | Some held \<Rightarrow>
          (let held = filter (\<lambda>i. i \<noteq> lid) held
           in s\<lparr>label_assignments := (if held = [] then hm_remove pid (label_assignments s)
                                      else hm_insert pid held (label_assignments s))\<rparr>))"

definition apply_emoji_added :: "string \<Rightarrow> string \<Rightarrow> bool \<Rightarrow> server_state \<Rightarrow> server_state" where
  "apply_emoji_added nm hash anim s =
     (if hm_has (emotes s) nm \<or> length (emotes s) < MAX_SERVER_EMOTES
      then s\<lparr>emotes := hm_insert nm \<lparr>em_name = nm, em_hash = hash, em_animated = anim\<rparr> (emotes s)\<rparr>
      else s)"

definition apply_emoji_removed :: "string \<Rightarrow> server_state \<Rightarrow> server_state" where
  "apply_emoji_removed nm s = s\<lparr>emotes := hm_remove nm (emotes s)\<rparr>"

definition apply_sticker_added ::
  "string \<Rightarrow> string \<Rightarrow> string \<Rightarrow> bool \<Rightarrow> u32 \<Rightarrow> u32 \<Rightarrow> server_state \<Rightarrow> server_state" where
  "apply_sticker_added hash nm pack anim w h s =
     (if hm_has (stickers s) hash \<or> length (stickers s) < MAX_SERVER_STICKERS
      then s\<lparr>stickers := hm_insert hash \<lparr>stk_hash = hash, stk_name = nm, stk_pack = pack,
               stk_animated = anim, stk_w = w, stk_h = h\<rparr> (stickers s)\<rparr>
      else s)"

definition apply_sticker_removed :: "string \<Rightarrow> server_state \<Rightarrow> server_state" where
  "apply_sticker_removed hash s = s\<lparr>stickers := hm_remove hash (stickers s)\<rparr>"

section \<open>The match\<close>

definition apply_payload :: "('a) fold_env_scheme \<Rightarrow> crdt_op \<Rightarrow> server_state \<Rightarrow> server_state" where
  "apply_payload E op s =
     (case op_payload op of
        ServerCreated nm ow _ \<Rightarrow> apply_server_created nm ow op s
      | ServerCheckpoint json covers \<Rightarrow> apply_checkpoint E json covers op s
      | ServerRenamed nm \<Rightarrow> apply_renamed E nm op s
      | ServerSettingChanged k v \<Rightarrow> apply_setting E k v op s
      | JoinKeySet secret \<Rightarrow> apply_join_key secret op s
      | JoinLock link secret gs \<Rightarrow> apply_join_lock E link secret gs op s
      | ServerDeleted _ \<Rightarrow> apply_deleted s
      | ChannelAdded cid nm cat tname \<Rightarrow> apply_channel_added cid nm cat tname s
      | ChannelRemoved cid \<Rightarrow> apply_channel_removed cid s
      | ChannelRenamed cid nm \<Rightarrow> apply_channel_renamed cid nm s
      | MemberAdded pid nm _ ask \<Rightarrow> apply_member_added pid nm ask op s
      | MemberRemoved pid \<Rightarrow> apply_member_removed pid op s
      | RoleChanged pid role prio \<Rightarrow> apply_role_changed pid role prio op s
      | NicknameChanged pid v \<Rightarrow> apply_nickname E pid v op s
      | TwitchUsernameChanged pid v \<Rightarrow> apply_twitch_username E pid v op s
      | ChannelLayoutUpdated json \<Rightarrow> apply_layout E json s
      | MessagePinned cid mid \<Rightarrow> apply_pinned cid mid s
      | MessageUnpinned cid mid \<Rightarrow> apply_unpinned cid mid s
      | StoragePledgeChanged pid n \<Rightarrow> apply_pledge E pid n op s
      | RolePermissionsChanged role bits \<Rightarrow> apply_role_permissions E role bits op s
      | LabelCreated lid nm col acc \<Rightarrow> apply_label_created lid nm col acc s
      | LabelDeleted lid \<Rightarrow> apply_label_deleted lid s
      | LabelUpdated lid nm col acc \<Rightarrow> apply_label_updated lid nm col acc s
      | LabelAssigned lid pid \<Rightarrow> apply_label_assigned lid pid s
      | LabelUnassigned lid pid \<Rightarrow> apply_label_unassigned lid pid s
      | ChannelVisibilityChanged cid v \<Rightarrow> apply_visibility cid v s
      | ChannelPostingChanged cid v \<Rightarrow> apply_posting cid v s
      | ChannelPublicChanged cid p \<Rightarrow> apply_public cid p s
      | ChannelVisibilityLabelsChanged cid ls \<Rightarrow> apply_visibility_labels cid ls s
      | ChannelPostingLabelsChanged cid ls \<Rightarrow> apply_posting_labels cid ls s
      | ChannelGrantSet cid pid expires \<Rightarrow> apply_grant_set E cid pid expires op s
      | ChannelGrantRevoked cid pid \<Rightarrow> apply_grant_revoked E cid pid op s
      | MemberBanned pid \<Rightarrow> apply_banned E pid op s
      | MemberUnbanned pid \<Rightarrow> apply_unbanned E pid op s
      | MemberMuted pid expires \<Rightarrow> apply_muted E pid expires op s
      | MemberUnmuted pid \<Rightarrow> apply_unmuted E pid op s
      | ChannelSlowModeChanged cid n \<Rightarrow> apply_slow_mode cid n s
      | ChannelMediaOnlyChanged cid b \<Rightarrow> apply_media_only cid b s
      | ChannelVoiceChatChanged cid m \<Rightarrow> apply_voice_chat cid m s
      | EmojiAdded nm hash anim \<Rightarrow> apply_emoji_added nm hash anim s
      | EmojiRemoved nm \<Rightarrow> apply_emoji_removed nm s
      | StickerAdded hash nm pack anim w h \<Rightarrow> apply_sticker_added hash nm pack anim w h s
      | StickerRemoved hash \<Rightarrow> apply_sticker_removed hash s)"

lemmas apply_arms = apply_server_created_def apply_checkpoint_def apply_renamed_def apply_setting_def
  apply_join_key_def apply_join_lock_def apply_deleted_def apply_channel_added_def apply_channel_removed_def
  apply_channel_renamed_def apply_member_added_def apply_member_removed_def apply_role_changed_def
  apply_nickname_def apply_twitch_username_def apply_layout_def apply_pinned_def apply_unpinned_def
  apply_pledge_def apply_role_permissions_def apply_label_created_def apply_label_deleted_def
  apply_label_updated_def apply_label_assigned_def apply_label_unassigned_def apply_visibility_def
  apply_posting_def apply_public_def apply_visibility_labels_def apply_posting_labels_def
  apply_grant_set_def apply_grant_revoked_def apply_banned_def apply_unbanned_def apply_muted_def
  apply_unmuted_def apply_slow_mode_def apply_media_only_def apply_voice_chat_def apply_emoji_added_def
  apply_emoji_removed_def apply_sticker_added_def apply_sticker_removed_def

end
