(* ===== verification/Authority.thy ===== *)
theory Authority
  imports PayloadApply
begin

text \<open>
  Who may do what: the Twitch gate (\<open>node/twitch.rs\<close>), the permission predicates, and the ingest
  permission matrix \<open>op_allowed\<close> of \<open>crdt/server_state.rs\<close>, with the source's case split.
\<close>

unbundle bit_operations_syntax

section \<open>The Twitch gate\<close>

record twitch_server_settings =
  tw_channel_id :: string
  tw_channel_name :: string
  tw_min_follow_days :: u32
  tw_require_sub :: bool
  tw_owner_verify :: bool

definition twitch_from_server_state :: "server_state \<Rightarrow> twitch_server_settings option" where
  "twitch_from_server_state s =
     (let setting = (\<lambda>k. unwrap_or [] (reg_get (settings s) k)) in
      if setting ''twitch_verification_enabled'' \<noteq> ''true'' then None
      else if setting ''twitch_channel_id'' = [] then None
      else Some \<lparr>tw_channel_id = setting ''twitch_channel_id'',
                 tw_channel_name = setting ''twitch_channel_name'',
                 tw_min_follow_days =
                   unwrap_or 0 (Option.bind (reg_get (settings s) ''twitch_min_follow_days'') parse_u32),
                 tw_require_sub = (setting ''twitch_require_sub'' = ''true''),
                 tw_owner_verify = (setting ''twitch_owner_verify'' = ''true'')\<rparr>)"

definition OLD_PROOF_SENTENCE :: string where
  "OLD_PROOF_SENTENCE = ''This server needs a verified Twitch follow. Update Hollow and try again.''"

definition validate_follow_credential_at ::
  "('a) cred_env_scheme \<Rightarrow> string \<Rightarrow> string \<Rightarrow> twitch_server_settings \<Rightarrow> u32 \<Rightarrow> string + unit" where
  "validate_follow_credential_at E entry_json joiner tw period =
     (case entry_of_json E entry_json of
        None \<Rightarrow> Inl OLD_PROOF_SENTENCE
      | Some entry \<Rightarrow>
          if ce_t entry \<noteq> T_TWITCH_FOLLOW then Inl OLD_PROOF_SENTENCE
          else
            (case verify_entry_at E entry joiner (root_key E) period of
               Inl _ \<Rightarrow> Inl (''That Twitch check did not verify, so '' @ tw_channel_name tw @ '' could not let you in'')
             | Inr verified \<Rightarrow>
                 (let parts = vd_parts verified;
                      bucket = (if 1 < length parts then unwrap_or 0 (parse_u32 (parts ! 1)) else 0) in
                  if parts = [] \<or> hd parts \<noteq> tw_channel_id tw
                  then Inl ''That Twitch check is for a different channel''
                  else if bucket < tw_min_follow_days tw
                  then Inl (''You must follow '' @ tw_channel_name tw @ '' for at least ''
                            @ show_word (tw_min_follow_days tw) @ '' days'')
                  else if tw_require_sub tw \<and> 2 < length parts \<and> parts ! 2 = ''0''
                  then Inl (''You must be subscribed to '' @ tw_channel_name tw @ '' to join this server'')
                  else Inr ())))"

definition follow_credential_admits_at ::
  "('a) cred_env_scheme \<Rightarrow> string \<Rightarrow> string \<Rightarrow> twitch_server_settings \<Rightarrow> u64 \<Rightarrow> bool" where
  "follow_credential_admits_at E entry_json joiner tw at_ms \<longleftrightarrow>
     validate_follow_credential_at E entry_json joiner tw (period_of (at_ms div 1000)) = Inr ()"

section \<open>Predicates\<close>

definition RETENTION_CHOICES :: "string list" where
  "RETENTION_CHOICES = [''permanent'', ''30d'', ''90d'', ''180d'', ''365d'']"

definition join_lock_allowed ::
  "('a) crypto_scheme \<Rightarrow> server_state \<Rightarrow> crdt_op \<Rightarrow> member_role \<Rightarrow> lock_link \<Rightarrow> string option
     \<Rightarrow> (string \<times> string) list \<Rightarrow> bool" where
  "join_lock_allowed C s op role link secret gs =
     (case anchor_owner s of
        None \<Rightarrow> False
      | Some ow \<Rightarrow>
          priority Moderator \<le> priority role
          \<and> (\<not> is_base link \<or> role = Owner \<and> op_author op = ow)
          \<and> link_allowed C (join_lock s) (server_id s) link ow
          \<and> is_none_or (\<lambda>d. door_matches C d link) secret
          \<and> length gs \<le> 64
          \<and> list_all (\<lambda>(master, grant). grant_shape grant \<and> holds_moderation s master) gs)"

definition role_change_allowed ::
  "('a) fold_env_scheme \<Rightarrow> server_state \<Rightarrow> member_role \<Rightarrow> u32 \<Rightarrow> string \<Rightarrow> member_role \<Rightarrow> bool" where
  "role_change_allowed E s who perms target new_role =
     (let target_role = get_role E s target in
      if new_role = Owner \<or> target_role = Owner \<or> \<not> is_member E s target then False
      else who = Owner
           \<or> has_bits perms MANAGE_ROLES \<and> outranks who target_role \<and> outranks who new_role)"

definition can_change_role ::
  "('a) fold_env_scheme \<Rightarrow> server_state \<Rightarrow> string \<Rightarrow> string \<Rightarrow> member_role \<Rightarrow> bool" where
  "can_change_role E s who target new_role =
     (let role = get_role E s who in role_change_allowed E s role (permissions_of s role) target new_role)"

definition kick_allowed ::
  "('a) fold_env_scheme \<Rightarrow> server_state \<Rightarrow> member_role \<Rightarrow> u32 \<Rightarrow> string \<Rightarrow> bool" where
  "kick_allowed E s who perms target =
     (let target_role = get_role E s target in
      target_role \<noteq> Owner
      \<and> (who = Owner \<or> has_bits perms KICK_MEMBERS \<and> outranks who target_role))"

definition can_kick :: "('a) fold_env_scheme \<Rightarrow> server_state \<Rightarrow> string \<Rightarrow> string \<Rightarrow> bool" where
  "can_kick E s who target =
     (let role = get_role E s who in kick_allowed E s role (permissions_of s role) target)"

definition can_ban :: "('a) fold_env_scheme \<Rightarrow> server_state \<Rightarrow> string \<Rightarrow> string \<Rightarrow> bool" where
  "can_ban E s who target = can_kick E s who target"

definition can_mute :: "('a) fold_env_scheme \<Rightarrow> server_state \<Rightarrow> string \<Rightarrow> string \<Rightarrow> bool" where
  "can_mute E s who target = can_kick E s who target"

definition setting_allowed_for :: "member_role \<Rightarrow> u32 \<Rightarrow> string \<Rightarrow> string \<Rightarrow> bool" where
  "setting_allowed_for role perms k v =
     (if k = ''retention_files'' \<or> k = ''retention_messages'' then role = Owner \<and> v \<in> set RETENTION_CHOICES
      else if k = ''retention_files_since'' \<or> k = ''retention_messages_since''
      then role = Owner \<and> parse_u64 v \<noteq> None
      else if k = VOICE_TEXT_CHAT_KEY
      then has_bits perms MANAGE_CHANNELS \<and> (v = ''true'' \<or> v = ''false'')
      else has_bits perms MANAGE_SERVER)"

definition setting_change_allowed ::
  "('a) fold_env_scheme \<Rightarrow> server_state \<Rightarrow> string \<Rightarrow> string \<Rightarrow> string \<Rightarrow> bool" where
  "setting_change_allowed E s author k v =
     (let role = get_role E s author in setting_allowed_for role (permissions_of s role) k v)"

definition lifts_register :: "member_role \<Rightarrow> 'v admin_lww_reg option \<Rightarrow> bool" where
  "lifts_register role reg = is_none_or (\<lambda>r. reg_priority r \<le> priority role) reg"

definition self_toggles :: "server_state \<Rightarrow> string \<Rightarrow> string \<Rightarrow> string \<Rightarrow> bool" where
  "self_toggles s author target label \<longleftrightarrow>
     author = target \<and> is_some_and (\<lambda>l. \<not> lb_access l) (hm_get (labels s) label)"

definition admission_allowed ::
  "('a) fold_env_scheme \<Rightarrow> server_state \<Rightarrow> member_role \<Rightarrow> crdt_op \<Rightarrow> string \<Rightarrow> string option
     \<Rightarrow> join_ask option \<Rightarrow> bool" where
  "admission_allowed E s author op target follow ask =
     (case opt_filter (\<lambda>a. ask_verifies E a (server_id s) target) ask of
        None \<Rightarrow> False
      | Some a \<Rightarrow>
          if is_banned E s target then False
          else if is_member E s target then True
          else if is_some_and (list_ex (\<lambda>sp. ask_at a \<le> asked_at sp)) (hm_get (member_record s) target) then False
          else if is_private s
                  \<or> is_some_and (\<lambda>m. m \<le> of_nat (length (members s))) (max_members s) then False
          else (case twitch_from_server_state s of
                  None \<Rightarrow> True
                | Some tw \<Rightarrow>
                    (\<not> tw_owner_verify tw \<or> author = Owner)
                    \<and> is_some_and (\<lambda>entry. follow_credential_admits_at E entry target tw (physical_ms (op_hlc op))) follow))"

definition founding_allowed :: "('a) crypto_scheme \<Rightarrow> server_state \<Rightarrow> crdt_op \<Rightarrow> string \<Rightarrow> string \<Rightarrow> bool" where
  "founding_allowed C s op ow nonce \<longleftrightarrow>
     op_author op = ow
     \<and> current_owner s = None
     \<and> (if is_genesis_id (server_id s) then derive_server_id C ow nonce = server_id s
        else is_none_or (\<lambda>pin. pin = ow) (owner_pin s))"

definition checkpoint_allowed ::
  "('a) fold_env_scheme \<Rightarrow> server_state \<Rightarrow> crdt_op \<Rightarrow> string \<Rightarrow> hlc_timestamp \<Rightarrow> bool" where
  "checkpoint_allowed E s op json covers =
     (if (case anchor_owner s of
            Some ow \<Rightarrow> ow \<noteq> op_author op
          | None \<Rightarrow> is_genesis_id (server_id s)) then False
      else if op_hlc op < covers \<or> is_some_and (\<lambda>base. covers \<le> base) (checkpoint_hlc s) then False
      else (case state_of_json E json of
              None \<Rightarrow> False
            | Some base \<Rightarrow>
                server_id base = server_id s \<and> \<not> deleted base \<and> owner_entries base = [op_author op]))"

section \<open>The matrix\<close>

definition op_allowed :: "('a) fold_env_scheme \<Rightarrow> server_state \<Rightarrow> crdt_op \<Rightarrow> bool" where
  "op_allowed E s op =
     (case op_payload op of
        ServerCreated _ ow nonce \<Rightarrow> founding_allowed E s op ow nonce
      | ServerCheckpoint json covers \<Rightarrow> checkpoint_allowed E s op json covers
      | _ \<Rightarrow>
        (case author_role s (op_author op) of
           None \<Rightarrow> False
         | Some role \<Rightarrow>
           (let perms = permissions_of s role; has = has_bits perms in
            case op_payload op of
              ServerCreated _ _ _ \<Rightarrow> False
            | ServerCheckpoint _ _ \<Rightarrow> False
            | ChannelAdded cid _ _ _ \<Rightarrow> has MANAGE_CHANNELS \<and> valid_channel_id cid
            | ChannelRemoved _ \<Rightarrow> has MANAGE_CHANNELS
            | ChannelRenamed _ _ \<Rightarrow> has MANAGE_CHANNELS
            | ChannelLayoutUpdated _ \<Rightarrow> has MANAGE_CHANNELS
            | MessagePinned _ _ \<Rightarrow> has MANAGE_CHANNELS
            | MessageUnpinned _ _ \<Rightarrow> has MANAGE_CHANNELS
            | ChannelVisibilityChanged _ _ \<Rightarrow> has MANAGE_CHANNELS
            | ChannelPostingChanged _ _ \<Rightarrow> has MANAGE_CHANNELS
            | ChannelSlowModeChanged _ _ \<Rightarrow> has MANAGE_CHANNELS
            | ChannelMediaOnlyChanged _ _ \<Rightarrow> has MANAGE_CHANNELS
            | ChannelVisibilityLabelsChanged _ _ \<Rightarrow> has MANAGE_CHANNELS
            | ChannelPostingLabelsChanged _ _ \<Rightarrow> has MANAGE_CHANNELS
            | ChannelGrantSet _ _ _ \<Rightarrow> has MANAGE_CHANNELS
            | ChannelGrantRevoked _ _ \<Rightarrow> has MANAGE_CHANNELS
            | RoleChanged pid new_role _ \<Rightarrow> role_change_allowed E s role perms pid new_role
            | ChannelVoiceChatChanged cid _ \<Rightarrow>
                has MANAGE_CHANNELS \<and> is_some_and (\<lambda>c. ch_type c = Voice) (hm_get (channels s) cid)
            | ServerRenamed _ \<Rightarrow> has MANAGE_SERVER
            | JoinKeySet secret \<Rightarrow> role = Owner \<and> join_secret_shape E secret \<noteq> None
            | JoinLock link secret gs \<Rightarrow> join_lock_allowed E s op role link secret gs
            | ServerSettingChanged k v \<Rightarrow> setting_allowed_for role perms k v
            | MemberRemoved pid \<Rightarrow>
                if pid = op_author op then role \<noteq> Owner else kick_allowed E s role perms pid
            | MemberBanned pid \<Rightarrow> kick_allowed E s role perms pid
            | MemberMuted pid _ \<Rightarrow> kick_allowed E s role perms pid
            | MemberUnbanned pid \<Rightarrow>
                has KICK_MEMBERS \<and> lifts_register role (hm_get (banned_members s) (resolve_identity E pid))
            | MemberUnmuted pid \<Rightarrow>
                kick_allowed E s role perms pid
                \<and> lifts_register role (hm_get (muted_members s) (resolve_identity E pid))
            | MemberAdded pid _ follow ask \<Rightarrow> admission_allowed E s role op pid follow ask
            | NicknameChanged pid _ \<Rightarrow>
                pid = op_author op
                \<or> (role = Owner \<or> role = Admin) \<and> is_member E s pid \<and> outranks role (get_role E s pid)
            | TwitchUsernameChanged pid _ \<Rightarrow>
                pid = op_author op
                \<or> (role = Owner \<or> role = Admin) \<and> is_member E s pid \<and> outranks role (get_role E s pid)
            | StoragePledgeChanged pid _ \<Rightarrow>
                pid = op_author op
                \<or> (role = Owner \<or> role = Admin) \<and> is_member E s pid \<and> outranks role (get_role E s pid)
            | RolePermissionsChanged target bits \<Rightarrow>
                if target \<noteq> ''admin'' \<and> target \<noteq> ''moderator'' \<and> target \<noteq> ''member'' then False
                else has MANAGE_ROLES \<and> outranks role (from_str target) \<and> bits AND NOT perms = 0
            | ChannelPublicChanged cid p \<Rightarrow>
                has MANAGE_CHANNELS
                \<and> is_none_or (\<lambda>ch. ch_type ch = Text \<and> \<not> (p \<and> restricted ch)) (hm_get (channels s) cid)
            | LabelCreated _ _ _ _ \<Rightarrow> has MANAGE_ROLES
            | LabelDeleted _ \<Rightarrow> has MANAGE_ROLES
            | LabelUpdated _ _ _ _ \<Rightarrow> has MANAGE_ROLES
            | LabelAssigned lid pid \<Rightarrow>
                is_member E s pid \<and> (self_toggles s (op_author op) pid lid \<or> has MANAGE_ROLES)
            | LabelUnassigned lid pid \<Rightarrow> self_toggles s (op_author op) pid lid \<or> has MANAGE_ROLES
            | EmojiAdded nm hash _ \<Rightarrow> has MANAGE_EMOTES \<and> valid_emote_name nm \<and> valid_emote_hash hash
            | StickerAdded hash nm pack _ w h \<Rightarrow>
                has MANAGE_EMOTES \<and> valid_emote_hash hash \<and> valid_sticker_label nm \<and> valid_sticker_label pack
                \<and> 1 \<le> w \<and> w \<le> 4096 \<and> 1 \<le> h \<and> h \<le> 4096
            | EmojiRemoved _ \<Rightarrow> has MANAGE_EMOTES
            | StickerRemoved _ \<Rightarrow> has MANAGE_EMOTES
            | ServerDeleted _ \<Rightarrow> role = Owner)))"

section \<open>Kinds of op\<close>

text \<open>The two ops judged by rules of their own, and the clock a checkpoint covers.\<close>

definition is_founding :: "crdt_payload \<Rightarrow> bool" where
  "is_founding p = (case p of ServerCreated _ _ _ \<Rightarrow> True | _ \<Rightarrow> False)"

definition is_checkpoint :: "crdt_payload \<Rightarrow> bool" where
  "is_checkpoint p = (case p of ServerCheckpoint _ _ \<Rightarrow> True | _ \<Rightarrow> False)"

lemma is_checkpoint_iff: "is_checkpoint p \<longleftrightarrow> (\<exists>json covers. p = ServerCheckpoint json covers)"
  by (cases p) (simp_all add: is_checkpoint_def)

lemma is_founding_iff: "is_founding p \<longleftrightarrow> (\<exists>nm ow nonce. p = ServerCreated nm ow nonce)"
  by (cases p) (simp_all add: is_founding_def)

lemma op_allowed_checkpoint:
  "op_payload op = ServerCheckpoint json covers \<Longrightarrow> op_allowed E s op = checkpoint_allowed E s op json covers"
  by (simp add: op_allowed_def)

lemma op_allowed_founding:
  "op_payload op = ServerCreated nm ow nonce \<Longrightarrow> op_allowed E s op = founding_allowed E s op ow nonce"
  by (simp add: op_allowed_def)

end
