(* ===== verification/Slices.thy ===== *)
theory Slices
  imports BTreeMap "HOL-Library.Multiset"
begin

text \<open>
  The slice operations of the standard library the op log rests on: \<open>binary_search_by\<close> (the loop
  of \<open>core::slice\<close>), \<open>Vec::insert\<close>, the stable \<open>sort_by\<close> and \<open>dedup_by\<close>. \<open>binary_search\<close> is shown to
  return an insertion point that keeps a sorted slice sorted; sorting by a key that tells the
  elements apart gives one list per multiset.
\<close>

section \<open>Binary search\<close>

function search_base :: "('a \<Rightarrow> 'k::linorder) \<Rightarrow> 'k \<Rightarrow> 'a list \<Rightarrow> nat \<Rightarrow> nat \<Rightarrow> nat" where
  "search_base f k xs base n =
     (if n \<le> 1 then base
      else let half = n div 2; mid = base + half
           in search_base f k xs (if k < f (xs ! mid) then base else mid) (n - half))"
  by pat_completeness auto
termination
  by (relation "measure (\<lambda>(f, k, xs, base, n). n)") auto

declare search_base.simps [simp del]

text \<open>\<open>Ok\<close> is \<open>Inr\<close>, \<open>Err\<close> is \<open>Inl\<close>.\<close>

definition binary_search :: "('a \<Rightarrow> 'k::linorder) \<Rightarrow> 'k \<Rightarrow> 'a list \<Rightarrow> nat + nat" where
  "binary_search f k xs =
     (if xs = [] then Inl 0
      else let base = search_base f k xs 0 (length xs); x = f (xs ! base)
           in if x = k then Inr base else Inl (base + (if x < k then 1 else 0)))"

definition insertion_point :: "('a \<Rightarrow> 'k::linorder) \<Rightarrow> 'k \<Rightarrow> 'a list \<Rightarrow> nat" where
  "insertion_point f k xs = (case binary_search f k xs of Inr p \<Rightarrow> p | Inl p \<Rightarrow> p)"

lemma search_base_invariant:
  assumes "sorted (map f xs)" and "0 < n" and "base + n \<le> length xs"
    and "base = 0 \<or> f (xs ! base) \<le> k" and "\<And>i. base + n \<le> i \<Longrightarrow> i < length xs \<Longrightarrow> k < f (xs ! i)"
  shows "let b = search_base f k xs base n
         in b < length xs \<and> (b = 0 \<or> f (xs ! b) \<le> k) \<and> (\<forall>i. b < i \<longrightarrow> i < length xs \<longrightarrow> k < f (xs ! i))"
  using assms
proof (induction f k xs base n rule: search_base.induct)
  case (1 f k xs base n)
  show ?case
  proof (cases "n \<le> 1")
    case True
    with "1.prems" show ?thesis
      by (auto simp: search_base.simps [of f k xs base n])
  next
    case False
    let ?half = "n div 2" and ?mid = "base + n div 2"
    have above: "k < f (xs ! i)" if "k < f (xs ! ?mid)" "?mid \<le> i" "i < length xs" for i
      using that sorted_nth_mono [OF "1.prems"(1), of ?mid i] by auto
    have "let b = search_base f k xs (if k < f (xs ! ?mid) then base else ?mid) (n - ?half)
          in b < length xs \<and> (b = 0 \<or> f (xs ! b) \<le> k) \<and> (\<forall>i. b < i \<longrightarrow> i < length xs \<longrightarrow> k < f (xs ! i))"
    proof (cases "k < f (xs ! ?mid)")
      case True
      note IH = "1.IH" [OF False refl refl, unfolded if_P [OF True]]
      have "k < f (xs ! i)" if "base + (n - ?half) \<le> i" "i < length xs" for i
        using that by (intro above [OF True]) linarith+
      with False "1.prems"(2,3) show ?thesis
        unfolding if_P [OF True] by (intro IH "1.prems"(1,4)) linarith+
    next
      case small: False
      note IH = "1.IH" [OF False refl refl, unfolded if_not_P [OF small]]
      have "k < f (xs ! i)" if "?mid + (n - ?half) \<le> i" "i < length xs" for i
        using that by (intro "1.prems"(5)) linarith+
      moreover have "?mid = 0 \<or> f (xs ! ?mid) \<le> k"
        using small by (simp only: not_less simp_thms)
      ultimately show ?thesis
        using False "1.prems"(2,3) unfolding if_not_P [OF small] by (intro IH "1.prems"(1)) linarith+
    qed
    moreover have "search_base f k xs base n
        = search_base f k xs (if k < f (xs ! ?mid) then base else ?mid) (n - ?half)"
      using False by (subst search_base.simps) (simp only: if_False Let_def)
    ultimately show ?thesis by (simp only:)
  qed
qed

lemma insertion_point_splits:
  assumes "sorted (map f xs)"
  shows "insertion_point f k xs \<le> length xs"
    and "x \<in> set (take (insertion_point f k xs) xs) \<Longrightarrow> f x \<le> k"
    and "x \<in> set (drop (insertion_point f k xs) xs) \<Longrightarrow> k \<le> f x"
proof -
  let ?p = "insertion_point f k xs"
  have "?p \<le> length xs \<and> (\<forall>i < ?p. f (xs ! i) \<le> k) \<and> (\<forall>i. ?p \<le> i \<longrightarrow> i < length xs \<longrightarrow> k \<le> f (xs ! i))"
  proof (cases "xs = []")
    case False
    define b where "b = search_base f k xs 0 (length xs)"
    have b: "b < length xs" "b = 0 \<or> f (xs ! b) \<le> k" "\<And>i. b < i \<Longrightarrow> i < length xs \<Longrightarrow> k < f (xs ! i)"
      using search_base_invariant [OF assms, of "length xs" 0 k] False by (auto simp: b_def Let_def)
    have p: "?p = (if f (xs ! b) < k then Suc b else b)"
      using False by (auto simp: insertion_point_def binary_search_def b_def Let_def)
    have below: "f (xs ! i) \<le> f (xs ! b)" if "i \<le> b" for i
      using sorted_nth_mono [OF assms, of i b] that b(1) by simp
    have above: "k \<le> f (xs ! i)" if "b \<le> i" "i < length xs" "\<not> f (xs ! b) < k" for i
      using that b(3) [of i] by (cases "i = b") auto
    show ?thesis
    proof (cases "f (xs ! b) < k")
      case True
      then have "f (xs ! i) \<le> k" if "i \<le> b" for i
        using below [OF that] by simp
      with True b(1,3) show ?thesis
        by (simp add: p less_Suc_eq_le Suc_le_eq less_imp_le)
    next
      case False
      have "f (xs ! i) \<le> k" if "i < b" for i
        using b(2) below [of i] that by auto
      with False b(1) above show ?thesis
        by (simp add: p)
    qed
  qed (simp add: insertion_point_def binary_search_def)
  then show "?p \<le> length xs"
    and "x \<in> set (take ?p xs) \<Longrightarrow> f x \<le> k" and "x \<in> set (drop ?p xs) \<Longrightarrow> k \<le> f x"
    by (auto simp: in_set_conv_nth)
qed

lemma insertion_point_sorted:
  assumes "sorted (map f xs)"
  shows "sorted (map f (insert_at (insertion_point f (f x) xs) x xs))"
proof -
  let ?p = "insertion_point f (f x) xs"
  have "sorted (map f (take ?p xs))" "sorted (map f (drop ?p xs))"
    using assms by (simp_all add: take_map [symmetric] drop_map [symmetric] sorted_wrt_take sorted_wrt_drop)
  moreover have "f a \<le> f x" if "a \<in> set (take ?p xs)" for a
    using insertion_point_splits(2) [OF assms that] .
  moreover have "f x \<le> f b" if "b \<in> set (drop ?p xs)" for b
    using insertion_point_splits(3) [OF assms that] .
  ultimately show ?thesis
    by (simp add: insert_at_def sorted_append) (meson order_trans)
qed

lemma insertion_point_last:
  assumes "sorted (map f xs)" and "\<And>y. y \<in> set xs \<Longrightarrow> f y < k"
  shows "insertion_point f k xs = length xs"
proof (rule ccontr)
  assume "insertion_point f k xs \<noteq> length xs"
  with insertion_point_splits(1) [OF assms(1), of k] have "insertion_point f k xs < length xs" by simp
  then have "xs ! insertion_point f k xs \<in> set (drop (insertion_point f k xs) xs)"
    by (metis Cons_nth_drop_Suc list.set_intros(1))
  then show False
    using insertion_point_splits(3) [OF assms(1)] assms(2) by (meson in_set_dropD leD)
qed

lemma insert_at_length [simp]: "insert_at (length xs) x xs = xs @ [x]"
  by (simp add: insert_at_def)

section \<open>Sorting and removing duplicates\<close>

text \<open>\<open>dedup_by\<close> drops an element its kept predecessor \<open>x\<close> is the same as.\<close>

fun dedup_after :: "('a \<Rightarrow> 'a \<Rightarrow> bool) \<Rightarrow> 'a \<Rightarrow> 'a list \<Rightarrow> 'a list" where
  "dedup_after same x [] = []"
| "dedup_after same x (y # ys) = (if same y x then dedup_after same x ys else y # dedup_after same y ys)"

fun dedup_by :: "('a \<Rightarrow> 'a \<Rightarrow> bool) \<Rightarrow> 'a list \<Rightarrow> 'a list" where
  "dedup_by same [] = []"
| "dedup_by same (x # xs) = x # dedup_after same x xs"

lemma dedup_after_subset: "set (dedup_after same x xs) \<subseteq> set xs"
proof (induction xs arbitrary: x)
  case (Cons y ys)
  from Cons.IH [of x] Cons.IH [of y] show ?case by auto
qed simp

lemma dedup_by_subset: "set (dedup_by same xs) \<subseteq> set xs"
  using dedup_after_subset by (cases xs) fastforce+

lemma dedup_by_distinct: "distinct (map f xs) \<Longrightarrow> distinct (map f (dedup_by same xs))"
proof -
  have after: "distinct (map f ys) \<Longrightarrow> distinct (map f (dedup_after same x ys))" for x ys
  proof (induction ys arbitrary: x)
    case (Cons y ys)
    then show ?case using dedup_after_subset [of same y ys] by auto
  qed simp
  assume "distinct (map f xs)"
  then show ?thesis
    using after dedup_after_subset by (cases xs) fastforce+
qed

lemma dedup_after_set:
  assumes "\<And>u v. u \<in> S \<Longrightarrow> v \<in> S \<Longrightarrow> same v u \<Longrightarrow> u = v"
  shows "x \<in> S \<Longrightarrow> set xs \<subseteq> S \<Longrightarrow> insert x (set (dedup_after same x xs)) = insert x (set xs)"
proof (induction xs arbitrary: x)
  case (Cons y ys)
  show ?case
  proof (cases "same y x")
    case True
    with assms [of x y] Cons.prems have "x = y" by simp
    with True Cons.IH [of x] Cons.prems show ?thesis by simp
  next
    case False
    with Cons.IH [of y] Cons.prems show ?thesis by simp
  qed
qed simp

lemma dedup_by_set:
  assumes "\<And>u v. u \<in> set xs \<Longrightarrow> v \<in> set xs \<Longrightarrow> same v u \<Longrightarrow> u = v"
  shows "set (dedup_by same xs) = set xs"
proof (cases xs)
  case (Cons x ys)
  have "insert x (set (dedup_after same x ys)) = insert x (set ys)"
    using Cons by (intro dedup_after_set [of "set xs"] assms) auto
  with Cons show ?thesis by simp
qed simp

text \<open>Where the same key means the same bucket, \<open>dedup_by\<close> leaves the keys strictly increasing; elements
  with \<open>Q\<close> are exempt and may share a key.\<close>

lemma dedup_after_strict:
  fixes f :: "'a \<Rightarrow> 'k::linorder"
  assumes "\<And>u v. u \<in> S \<Longrightarrow> v \<in> S \<Longrightarrow> f u = f v \<Longrightarrow> \<not> Q v \<Longrightarrow> same v u"
  shows "x \<in> S \<Longrightarrow> set xs \<subseteq> S \<Longrightarrow> sorted (map f (x # xs)) \<Longrightarrow>
     sorted_wrt (\<lambda>a b. f a < f b \<or> f a = f b \<and> Q b) (x # dedup_after same x xs)"
proof (induction xs arbitrary: x)
  case (Cons y ys)
  show ?case
  proof (cases "same y x")
    case True
    with Cons.IH [of x] Cons.prems show ?thesis by simp
  next
    case False
    with assms [of x y] Cons.prems have xy: "f x < f y \<or> f x = f y \<and> Q y" by (auto simp: order_less_le)
    have sorted: "sorted_wrt (\<lambda>a b. f a < f b \<or> f a = f b \<and> Q b) (y # dedup_after same y ys)"
      using Cons.IH [of y] Cons.prems by simp
    then have "f x < f z \<or> f x = f z \<and> Q z" if "z \<in> set (y # dedup_after same y ys)" for z
      using that xy by auto
    with sorted False show ?thesis by simp
  qed
qed simp

lemma dedup_by_strict:
  fixes f :: "'a \<Rightarrow> 'k::linorder"
  assumes "sorted (map f xs)" and "\<And>u v. u \<in> set xs \<Longrightarrow> v \<in> set xs \<Longrightarrow> f u = f v \<Longrightarrow> \<not> Q v \<Longrightarrow> same v u"
  shows "sorted_wrt (\<lambda>a b. f a < f b \<or> f a = f b \<and> Q b) (dedup_by same xs)"
proof (cases xs)
  case (Cons x ys)
  have "sorted_wrt (\<lambda>a b. f a < f b \<or> f a = f b \<and> Q b) (x # dedup_after same x ys)"
    using Cons assms(1) by (intro dedup_after_strict [of "set xs"] assms(2)) auto
  with Cons show ?thesis by simp
qed simp

lemma sort_key_unique:
  assumes "mset xs = mset ys" and "inj_on f (set xs)"
  shows "sort_key f xs = sort_key f ys"
  using assms by (intro sort_key_inj_key_eq) auto

lemma strict_sorted_inj:
  fixes f :: "'a \<Rightarrow> 'k::linorder"
  shows "sorted_wrt (\<lambda>a b. f a < f b) xs \<Longrightarrow> inj_on f (set xs) \<and> distinct xs"
proof -
  assume "sorted_wrt (\<lambda>a b. f a < f b) xs"
  then have "sorted_wrt (<) (map f xs)" by (simp add: sorted_wrt_map)
  then have "distinct (map f xs)" by (simp add: strict_sorted_iff)
  then show ?thesis by (simp add: distinct_map)
qed

lemma strict_sorted_unique:
  fixes f :: "'a \<Rightarrow> 'k::linorder"
  assumes "sorted_wrt (\<lambda>a b. f a < f b) xs" and "sorted_wrt (\<lambda>a b. f a < f b) ys" and "set xs = set ys"
  shows "xs = ys"
proof -
  have "map f xs = map f ys"
    using assms by (intro strict_sorted_equal) (simp_all add: sorted_wrt_map)
  then show ?thesis
    using strict_sorted_inj [OF assms(1)] assms(3) by (intro map_inj_on [of f]) auto
qed

end
