(* ===== verification/OpLog.thy ===== *)
theory OpLog
  imports Authority Slices
begin

text \<open>
  A replica: the materialized state with what the state JSON leaves out (log, clock, dedup set, held
  ops, signer), and the operations of \<open>crdt/server_state.rs\<close> on them: entering an op into the log,
  pruning, restoring, authoring and founding. Wall clock readings are arguments; a panic of an
  \<open>expect\<close> is \<open>None\<close>.
\<close>

section \<open>Fold order\<close>

definition fold_key :: "crdt_op \<Rightarrow> hlc_timestamp \<times> bool" where
  "fold_key op = (case op_payload op of ServerCheckpoint _ covers \<Rightarrow> (covers, True) | _ \<Rightarrow> (op_hlc op, False))"

definition retained_under :: "crdt_op \<Rightarrow> hlc_timestamp \<Rightarrow> bool \<Rightarrow> bool" where
  "retained_under op base genesis =
     (case op_payload op of
        ServerCheckpoint _ covers \<Rightarrow> base \<le> covers
      | ServerCreated _ _ _ \<Rightarrow> genesis \<or> base < op_hlc op
      | _ \<Rightarrow> base < op_hlc op)"

definition op_key :: "crdt_op \<Rightarrow> string \<times> hlc_timestamp" where
  "op_key op = (op_author op, op_hlc op)"

lemma fold_key_checkpoint: "op_payload op = ServerCheckpoint json covers \<Longrightarrow> fold_key op = (covers, True)"
  by (simp add: fold_key_def)

lemma fold_key_other: "\<not> is_checkpoint (op_payload op) \<Longrightarrow> fold_key op = (op_hlc op, False)"
  by (cases "op_payload op") (simp_all add: fold_key_def is_checkpoint_def)

lemma retained_under_other:
  "\<not> is_checkpoint (op_payload op) \<Longrightarrow>
     retained_under op base genesis \<longleftrightarrow> is_founding (op_payload op) \<and> genesis \<or> base < op_hlc op"
  by (cases "op_payload op") (simp_all add: retained_under_def is_checkpoint_def is_founding_def)

lemma retained_under_checkpoint:
  "op_payload op = ServerCheckpoint json covers \<Longrightarrow> retained_under op base genesis \<longleftrightarrow> base \<le> covers"
  by (simp add: retained_under_def)

section \<open>The replica\<close>

definition LEGACY_OP_LOG_CAP :: nat where "LEGACY_OP_LOG_CAP = 1000"

text \<open>An \<open>Instant\<close> is a natural number of milliseconds.\<close>

type_synonym instant = nat

record replica =
  st :: server_state
  op_log :: "crdt_op list"
  clock :: "hlc option"
  op_log_dedup :: "(string \<times> hlc_timestamp) set"
  held :: "(crdt_op \<times> instant) list"
  signer :: "(native_keypair \<times> string) option"

definition replica_of :: "server_state \<Rightarrow> replica" where
  "replica_of s = \<lparr>st = s, op_log = [], clock = None, op_log_dedup = {}, held = [], signer = None\<rparr>"

definition lean_snapshot :: "replica \<Rightarrow> replica" where
  "lean_snapshot r = replica_of (st r)"

definition log_keys :: "crdt_op list \<Rightarrow> (string \<times> hlc_timestamp) set" where
  "log_keys ops = op_key ` set ops"

definition ensure_dedup :: "replica \<Rightarrow> replica" where
  "ensure_dedup r =
     (if op_log_dedup r = {} \<and> op_log r \<noteq> [] then r\<lparr>op_log_dedup := log_keys (op_log r)\<rparr> else r)"

definition prune_before_checkpoint :: "replica \<Rightarrow> replica" where
  "prune_before_checkpoint r =
     (case checkpoint_hlc (st r) of
        None \<Rightarrow> r
      | Some base \<Rightarrow>
          (let log = filter (\<lambda>o1. retained_under o1 base (is_genesis_id (server_id (st r)))) (op_log r)
           in r\<lparr>op_log := log, op_log_dedup := log_keys log\<rparr>))"

definition log_admitted :: "crdt_op \<Rightarrow> replica \<Rightarrow> replica" where
  "log_admitted op r =
     (let pos = insertion_point fold_key (fold_key op) (op_log r);
          r = r\<lparr>op_log_dedup := insert (op_key op) (op_log_dedup r), op_log := insert_at pos op (op_log r)\<rparr>
      in if is_checkpoint (op_payload op) then prune_before_checkpoint r
         else if anchor (st r) = Legacy \<and> LEGACY_OP_LOG_CAP < length (op_log r)
         then (let log = drop (length (op_log r) - LEGACY_OP_LOG_CAP) (op_log r)
               in r\<lparr>op_log := log, op_log_dedup := log_keys log\<rparr>)
         else r)"

definition witness_clock :: "u64 \<Rightarrow> hlc_timestamp \<Rightarrow> replica \<Rightarrow> replica" where
  "witness_clock wall h r =
     (case clock r of None \<Rightarrow> r | Some c \<Rightarrow> r\<lparr>clock := Some (witness_at c h wall)\<rparr>)"

definition apply_op :: "('a) fold_env_scheme \<Rightarrow> u64 \<Rightarrow> crdt_op \<Rightarrow> replica \<Rightarrow> (string + bool) \<times> replica" where
  "apply_op E wall op r =
     (if op_server_id op \<noteq> server_id (st r)
      then (Inl (''Op server_id '' @ op_server_id op @ '' doesn't match '' @ server_id (st r)), r)
      else
        (let r = ensure_dedup r in
         if op_key op \<in> op_log_dedup r then (Inr False, r)
         else
           (let r = witness_clock wall (op_hlc op) r;
                r = log_admitted op (r\<lparr>st := apply_payload E op (st r)\<rparr>)
            in (Inr (op_key op \<in> op_log_dedup r), r))))"

definition witness_retained :: "u64 \<Rightarrow> replica \<Rightarrow> replica" where
  "witness_retained wall r =
     (let bound = saturating_add wall MAX_DRIFT_MS in
      case list_max (filter (\<lambda>h. physical_ms h \<le> bound) (map op_hlc (op_log r))) of
        None \<Rightarrow> r
      | Some newest_stamp \<Rightarrow> witness_clock wall newest_stamp r)"

definition set_hlc :: "u64 \<Rightarrow> hlc \<Rightarrow> replica \<Rightarrow> replica" where
  "set_hlc wall c r = witness_retained wall (r\<lparr>clock := Some c\<rparr>)"

definition set_signer :: "native_keypair \<Rightarrow> string \<Rightarrow> replica \<Rightarrow> replica" where
  "set_signer kp pk_b64 r = r\<lparr>signer := Some (kp, pk_b64)\<rparr>"

definition restore_op_log :: "u64 \<Rightarrow> crdt_op list \<Rightarrow> replica \<Rightarrow> replica" where
  "restore_op_log wall ops r =
     (let log = sort_key fold_key ops
      in witness_retained wall (r\<lparr>op_log := log, op_log_dedup := log_keys log\<rparr>))"

section \<open>Authoring\<close>

text \<open>The loop of \<open>create_op\<close>: tick until the stamp is unused. \<open>walls i\<close> is what the wall clock reads at
  the \<open>i\<close>-th tick.\<close>

partial_function (option) fresh_stamp ::
  "(hlc_timestamp \<Rightarrow> bool) \<Rightarrow> (nat \<Rightarrow> u64) \<Rightarrow> nat \<Rightarrow> hlc \<Rightarrow> (hlc_timestamp \<times> hlc) option" where
  "fresh_stamp used walls i c =
     (if used (fst (now_at c (walls i)))
      then fresh_stamp used walls (Suc i) (snd (now_at c (walls i)))
      else Some (now_at c (walls i)))"

definition stamp_used :: "replica \<Rightarrow> string \<Rightarrow> hlc_timestamp \<Rightarrow> bool" where
  "stamp_used r who ts \<longleftrightarrow>
     (who, ts) \<in> op_log_dedup r \<or> list_ex (\<lambda>(h, _). op_author h = who \<and> op_hlc h = ts) (held r)"

definition create_op ::
  "('a) fold_env_scheme \<Rightarrow> (nat \<Rightarrow> u64) \<Rightarrow> crdt_payload \<Rightarrow> replica \<Rightarrow> (crdt_op \<times> replica) option" where
  "create_op E walls payload r =
     (let r = ensure_dedup r in
      case clock r of
        None \<Rightarrow> None
      | Some c \<Rightarrow>
          (case fresh_stamp (stamp_used r (hlc_actor c)) walls 0 c of
             None \<Rightarrow> None
           | Some (ts, c') \<Rightarrow>
               (case signer r of
                  None \<Rightarrow> None
                | Some (kp, pk_b64) \<Rightarrow>
                    Some (op_sign E kp pk_b64
                            \<lparr>op_server_id = server_id (st r), op_hlc = ts, op_author = hlc_actor c,
                             op_payload = payload, op_auth = None\<rparr>,
                          r\<lparr>clock := Some c'\<rparr>))))"

text \<open>\<open>random\<close> is what the system RNG returns, \<open>w0\<close> the wall clock when the device's clock is seeded and
  installed, \<open>w1\<close> when the op is applied.\<close>

definition found_on ::
  "('a) fold_env_scheme \<Rightarrow> bytes \<Rightarrow> u64 \<Rightarrow> (nat \<Rightarrow> u64) \<Rightarrow> u64 \<Rightarrow> string \<Rightarrow> string \<Rightarrow> string
     \<Rightarrow> native_keypair \<Rightarrow> string \<Rightarrow> (replica \<times> crdt_op) option" where
  "found_on E random w0 walls w1 nm ow device kp pk_b64 =
     (let nonce = new_nonce E random;
          r = replica_of (skeleton (derive_server_id E ow nonce));
          r = set_hlc w0 (for_device (sha256 E) ow device w0) r;
          r = set_signer kp pk_b64 r
      in case create_op E walls (ServerCreated nm ow nonce) r of
           None \<Rightarrow> None
         | Some (op, r) \<Rightarrow> Some (snd (apply_op E w1 op r), op))"

end
