(* ===== verification/Fold.thy ===== *)
theory Fold
  imports OpLog
begin

text \<open>
  The fold (\<open>crdt/fold.rs\<close>): how remotely authored ops enter a replica. \<open>ingest_remote\<close> checks them,
  drops duplicates and then either applies them at the tail, in arrival order (a legacy replica), or
  rebuilds the state from its anchor. \<open>now\<close> is the wall clock and \<open>t\<close> the monotonic clock during the
  call.
\<close>

definition HELD_CAP :: nat where "HELD_CAP = 256"

definition HELD_TTL :: nat where "HELD_TTL = 600 * 1000"

definition CHECKPOINT_AFTER_OPS :: nat where "CHECKPOINT_AFTER_OPS = 2000"

definition CHECKPOINT_MIN_GAP_MS :: u64 where "CHECKPOINT_MIN_GAP_MS = 3600 * 1000"

record ingested =
  in_admitted :: "crdt_op list"
  in_rejected :: nat
  in_rebuilt :: bool

definition ingested_default :: ingested where
  "ingested_default = \<lparr>in_admitted = [], in_rejected = 0, in_rebuilt = False\<rparr>"

section \<open>The owner's checkpoint\<close>

definition checkpoint_due :: "string \<Rightarrow> u64 \<Rightarrow> replica \<Rightarrow> bool" where
  "checkpoint_due me now_ms r =
     (if deleted (st r) \<or> current_owner (st r) \<noteq> Some me then False
      else if anchor (st r) = Legacy then True
      else CHECKPOINT_AFTER_OPS < length (op_log r)
           \<and> is_none_or (\<lambda>c. CHECKPOINT_MIN_GAP_MS < saturating_sub now_ms (physical_ms c)) (checkpoint_hlc (st r)))"

definition newest_hlc :: "'v admin_lww_reg hmap \<Rightarrow> hlc_timestamp option" where
  "newest_hlc m = list_max (map (\<lambda>e. reg_hlc (snd e)) m)"

definition log_tail_hlc :: "crdt_op list \<Rightarrow> hlc_timestamp option" where
  "log_tail_hlc log = (if log = [] then None else Some (fst (fold_key (last log))))"

definition horizon :: "replica \<Rightarrow> hlc_timestamp" where
  "horizon r =
     (let s = st r;
          clocks = [log_tail_hlc (op_log r), Some (reg_hlc (srv_name s)), newest_hlc (roles s),
                    newest_hlc (settings s), newest_hlc (nicknames s), newest_hlc (banned_members s),
                    newest_hlc (muted_members s)]
      in unwrap_or (hlc_zero []) (list_max (List.map_filter id clocks)))"

definition default_span :: "u64 \<Rightarrow> member_span" where
  "default_span until = \<lparr>from_ms = 0, until_ms = until, asked_at = 0, from_hlc = None, admitted = []\<rparr>"

definition seed_span :: "string \<times> u64 \<Rightarrow> member_span list hmap \<Rightarrow> member_span list hmap" where
  "seed_span e m =
     (let spans = unwrap_or [] (hm_get m (fst e))
      in hm_insert (fst e)
           (if spans = [] \<or> 0 < from_ms (hd spans) then default_span (snd e) # spans else spans) m)"

definition demote_co_owner :: "string \<Rightarrow> string \<Rightarrow> member_role admin_lww_reg \<Rightarrow> member_role admin_lww_reg" where
  "demote_co_owner me pid reg =
     (if pid \<noteq> me \<and> lww_read reg = Owner then lww_new Admin (reg_hlc reg) (reg_priority reg) else reg)"

definition checkpoint_base :: "string \<Rightarrow> string list \<Rightarrow> u64 \<Rightarrow> server_state \<Rightarrow> server_state" where
  "checkpoint_base me past_authors now_ms s =
     (let base = s\<lparr>owner_pin := None, checkpoint_hlc := None,
                   roles := map (\<lambda>(pid, reg). (pid, demote_co_owner me pid reg)) (roles s)\<rparr>
      in if anchor s = Legacy
         then base\<lparr>member_record :=
                fold seed_span (map (\<lambda>e. (fst e, u64_MAX)) (members base) @ map (\<lambda>a. (a, now_ms)) past_authors)
                  (member_record base)\<rparr>
         else base)"

definition checkpoint_json :: "('a) fold_env_scheme \<Rightarrow> string \<Rightarrow> string list \<Rightarrow> u64 \<Rightarrow> replica \<Rightarrow> string" where
  "checkpoint_json E me past_authors now_ms r = state_json E (checkpoint_base me past_authors now_ms (st r))"

section \<open>A joiner's snapshot\<close>

definition accept_join_snapshot :: "server_state \<Rightarrow> string \<Rightarrow> string option \<Rightarrow> string + server_state" where
  "accept_join_snapshot snap sid pin =
     (if is_genesis_id sid then Inl ''a self-certifying server is built from its ops''
      else if server_id snap \<noteq> sid then Inl ''server id mismatch''
      else if is_some_and (\<lambda>p. current_owner snap \<noteq> Some p) pin
      then Inl ''its owner is not the one the invite named''
      else
        (case current_owner snap of
           None \<Rightarrow> Inl ''no owner''
         | Some ow \<Rightarrow>
             (let snap = retain_well_formed_channels
                    (snap\<lparr>roles := hm_retain (\<lambda>pid _. pid = ow) (roles snap), role_permissions := [],
                          banned_members := [], muted_members := [], label_assignments := [],
                          channel_grants := []\<rparr>)
              in Inr (snap\<lparr>channels := hm_map_values (\<lambda>ch. ch\<lparr>ch_is_public := False\<rparr>) (channels snap),
                           owner_pin := Some ow, checkpoint_hlc := None\<rparr>))))"

section \<open>Ingest\<close>

definition stateless_check :: "('a) fold_env_scheme \<Rightarrow> server_state \<Rightarrow> u64 \<Rightarrow> crdt_op \<Rightarrow> op_reject + unit" where
  "stateless_check E s now_ms op =
     (if op_server_id op \<noteq> server_id s then Inl WrongServer
      else (case verify_author E op of
              Inl e \<Rightarrow> Inl e
            | Inr _ \<Rightarrow> if now_ms + MAX_DRIFT_MS < physical_ms (op_hlc op) then Inl FutureHlc else Inr ()))"

definition enables_others :: "crdt_payload \<Rightarrow> bool" where
  "enables_others p =
     (case p of
        MemberAdded _ _ _ _ \<Rightarrow> True | RoleChanged _ _ _ \<Rightarrow> True | RolePermissionsChanged _ _ \<Rightarrow> True
      | MemberUnbanned _ \<Rightarrow> True | LabelCreated _ _ _ _ \<Rightarrow> True | LabelUpdated _ _ _ _ \<Rightarrow> True
      | ChannelAdded _ _ _ _ \<Rightarrow> True | ServerSettingChanged _ _ \<Rightarrow> True
      | ServerCreated _ _ _ \<Rightarrow> True | ServerCheckpoint _ _ \<Rightarrow> True | _ \<Rightarrow> False)"

definition hold :: "instant \<Rightarrow> crdt_op \<Rightarrow> ingested \<times> replica \<Rightarrow> ingested \<times> replica" where
  "hold t op x =
     (let (out, r) = x; out = out\<lparr>in_rejected := in_rejected out + 1\<rparr>;
          r = (if HELD_CAP \<le> length (held r) then r\<lparr>held := tl (held r)\<rparr> else r)
      in (out, r\<lparr>held := held r @ [(op, t)]\<rparr>))"

text \<open>Judge one candidate of a rebuild; the refused ones are collected.\<close>

definition judge :: "('a) fold_env_scheme \<Rightarrow> replica \<times> crdt_op list \<Rightarrow> crdt_op \<Rightarrow> replica \<times> crdt_op list" where
  "judge E x op =
     (let (r, refused) = x in
      if op_allowed E (st r) op then (log_admitted op (r\<lparr>st := apply_payload E op (st r)\<rparr>), refused)
      else (r, refused @ [op]))"

definition candidates :: "crdt_op list \<Rightarrow> replica \<Rightarrow> crdt_op list" where
  "candidates fresh r =
     dedup_by (\<lambda>a b. op_author a = op_author b \<and> op_hlc a = op_hlc b)
       (sort_key fold_key (op_log r @ map fst (held r) @ fresh))"

definition rebuilt_from :: "replica \<Rightarrow> replica" where
  "rebuilt_from r = r\<lparr>op_log_dedup := {}, op_log := [], held := [], st := reset_materialized (st r)\<rparr>"

definition fold_in ::
  "('a) fold_env_scheme \<Rightarrow> instant \<Rightarrow> crdt_op list \<Rightarrow> ingested \<Rightarrow> replica \<Rightarrow> ingested \<times> replica" where
  "fold_in E t fresh out r =
     (let before = op_log_dedup r;
          (r, refused) = foldl (judge E) (rebuilt_from r, []) (candidates fresh r);
          waiting = map (\<lambda>op. (op, t))
            (filter (\<lambda>op. is_none_or (\<lambda>b. b < op_hlc op) (checkpoint_hlc (st r))) refused);
          r = r\<lparr>held := drop (length waiting - HELD_CAP) waiting\<rparr>;
          tail_admitted = log_keys (in_admitted out)
      in (out\<lparr>in_admitted := filter (\<lambda>o1. op_key o1 \<notin> before \<or> op_key o1 \<in> tail_admitted) (op_log r),
              in_rebuilt := True\<rparr>, r))"

text \<open>The tail pass: every fresh op is newer than the log.\<close>

definition tail_step ::
  "('a) fold_env_scheme \<Rightarrow> instant \<Rightarrow> bool \<times> ingested \<times> replica \<Rightarrow> crdt_op \<Rightarrow> bool \<times> ingested \<times> replica" where
  "tail_step E t x op =
     (let (enabling, out, r) = x in
      if op_allowed E (st r) op
      then (enabling \<or> enables_others (op_payload op),
            out\<lparr>in_admitted := in_admitted out @ [op]\<rparr>,
            log_admitted op (r\<lparr>st := apply_payload E op (st r)\<rparr>))
      else (enabling, hold t op (out, r)))"

text \<open>A legacy replica: judge in arrival order, then retry what is held while admissions make progress.\<close>

definition admit_in_arrival ::
  "('a) fold_env_scheme \<Rightarrow> u64 \<Rightarrow> crdt_op \<Rightarrow> ingested \<times> replica \<Rightarrow> ingested \<times> replica" where
  "admit_in_arrival E now op x =
     (let (out, r) = x; (res, r) = apply_op E now op r
      in (if res = Inr True then out\<lparr>in_admitted := in_admitted out @ [op]\<rparr> else out, r))"

definition arrival_step ::
  "('a) fold_env_scheme \<Rightarrow> u64 \<Rightarrow> instant \<Rightarrow> bool \<times> ingested \<times> replica \<Rightarrow> crdt_op
     \<Rightarrow> bool \<times> ingested \<times> replica" where
  "arrival_step E now t x op =
     (let (progressed, out, r) = x in
      if op_allowed E (st r) op then (True, admit_in_arrival E now op (out, r))
      else (progressed, hold t op (out, r)))"

definition retry_step ::
  "('a) fold_env_scheme \<Rightarrow> u64 \<Rightarrow> bool \<times> ingested \<times> replica \<Rightarrow> crdt_op \<times> instant
     \<Rightarrow> bool \<times> ingested \<times> replica" where
  "retry_step E now x h =
     (let (progressed, out, r) = x in
      if op_allowed E (st r) (fst h) then (True, admit_in_arrival E now (fst h) (out, r))
      else (progressed, out, r\<lparr>held := held r @ [h]\<rparr>))"

definition retry_round ::
  "('a) fold_env_scheme \<Rightarrow> u64 \<Rightarrow> ingested \<times> replica \<Rightarrow> bool \<times> ingested \<times> replica" where
  "retry_round E now x =
     (let (out, r) = x
      in foldl (retry_step E now) (False, out, r\<lparr>held := []\<rparr>) (sort_key (\<lambda>h. op_hlc (fst h)) (held r)))"

lemma prune_held [simp]: "held (prune_before_checkpoint r) = held r"
  by (simp add: prune_before_checkpoint_def Let_def split: option.split)

lemma log_admitted_held [simp]: "held (log_admitted op r) = held r"
  by (simp add: log_admitted_def Let_def)

lemma ensure_dedup_frame [simp]:
  "held (ensure_dedup r) = held r" "st (ensure_dedup r) = st r" "op_log (ensure_dedup r) = op_log r"
  "clock (ensure_dedup r) = clock r" "signer (ensure_dedup r) = signer r"
  by (simp_all add: ensure_dedup_def)

lemma witness_clock_frame [simp]:
  "held (witness_clock w h r) = held r" "st (witness_clock w h r) = st r"
  "op_log (witness_clock w h r) = op_log r" "op_log_dedup (witness_clock w h r) = op_log_dedup r"
  "signer (witness_clock w h r) = signer r"
  by (simp_all add: witness_clock_def split: option.split)

lemma apply_op_held [simp]: "held (snd (apply_op E now op r)) = held r"
  by (simp add: apply_op_def Let_def)

lemma admit_in_arrival_held [simp]: "held (snd (admit_in_arrival E now op x)) = held (snd x)"
  by (simp add: admit_in_arrival_def Let_def split_beta)

lemma retry_step_simps:
  "op_allowed E (st r) (fst h) \<Longrightarrow> retry_step E now (p, out, r) h = (True, admit_in_arrival E now (fst h) (out, r))"
  "\<not> op_allowed E (st r) (fst h) \<Longrightarrow> retry_step E now (p, out, r) h = (p, out, r\<lparr>held := held r @ [h]\<rparr>)"
  by (simp_all add: retry_step_def)

lemma retry_fold_length:
  "foldl (retry_step E now) (p, out, r) hs = (p', out', r') \<Longrightarrow>
     length (held r') + (if p' \<and> \<not> p then 1 else 0) \<le> length (held r) + length hs \<and> (p \<longrightarrow> p')"
proof (induction hs arbitrary: p out r)
  case (Cons h hs)
  then show ?case
  proof (cases "op_allowed E (st r) (fst h)")
    case True
    then have "foldl (retry_step E now) (True, fst (admit_in_arrival E now (fst h) (out, r)),
        snd (admit_in_arrival E now (fst h) (out, r))) hs = (p', out', r')"
      using Cons.prems by (simp add: retry_step_simps)
    from Cons.IH [OF this] show ?thesis by (auto split: if_splits)
  next
    case False
    then have "foldl (retry_step E now) (p, out, r\<lparr>held := held r @ [h]\<rparr>) hs = (p', out', r')"
      using Cons.prems by (simp add: retry_step_simps)
    from Cons.IH [OF this] show ?thesis by (auto split: if_splits)
  qed
qed auto

lemma retry_round_shrinks:
  assumes "retry_round E now (out, r) = (True, x)"
  shows "length (held (snd x)) < length (held r)"
  using retry_fold_length [of E now False out "r\<lparr>held := []\<rparr>" "sort_key (\<lambda>h. op_hlc (fst h)) (held r)" True "fst x" "snd x"]
    assms by (simp add: retry_round_def)

function retry_held ::
  "('a) fold_env_scheme \<Rightarrow> u64 \<Rightarrow> ingested \<times> replica \<Rightarrow> ingested \<times> replica" where
  "retry_held E now x =
     (if held (snd x) = [] then x
      else (let y = retry_round E now x in if fst y then retry_held E now (snd y) else snd y))"
  by pat_completeness auto
termination
  by (relation "measure (\<lambda>(E, now, x). length (held (snd x)))")
    (auto intro!: retry_round_shrinks simp: prod_eq_iff)

declare retry_held.simps [simp del]

definition apply_in_arrival ::
  "('a) fold_env_scheme \<Rightarrow> u64 \<Rightarrow> instant \<Rightarrow> crdt_op list \<Rightarrow> ingested \<Rightarrow> replica \<Rightarrow> ingested \<times> replica" where
  "apply_in_arrival E now t fresh out r =
     (let (progressed, x) = foldl (arrival_step E now t) (False, out, r) fresh
      in if progressed then retry_held E now x else x)"

text \<open>The checks of one incoming op: refused, a duplicate, or fresh.\<close>

definition sift ::
  "('a) fold_env_scheme \<Rightarrow> u64 \<Rightarrow> replica \<Rightarrow> nat \<times> (string \<times> hlc_timestamp) set \<times> crdt_op list \<Rightarrow> crdt_op
     \<Rightarrow> nat \<times> (string \<times> hlc_timestamp) set \<times> crdt_op list" where
  "sift E now r x op =
     (let (rejected, seen, fresh) = x in
      case stateless_check E (st r) now op of
        Inl _ \<Rightarrow> (rejected + 1, seen, fresh)
      | Inr _ \<Rightarrow>
          if op_key op \<in> op_log_dedup r
             \<or> list_ex (\<lambda>(h, _). op_author h = op_author op \<and> op_hlc h = op_hlc op) (held r)
          then x
          else if op_key op \<in> seen then x
          else (rejected, insert (op_key op) seen, fresh @ [op]))"

definition expire_held :: "instant \<Rightarrow> replica \<Rightarrow> replica" where
  "expire_held t r = r\<lparr>held := filter (\<lambda>(_, at). t - at < HELD_TTL) (held r)\<rparr>"

definition fold_fresh ::
  "('a) fold_env_scheme \<Rightarrow> u64 \<Rightarrow> instant \<Rightarrow> crdt_op list \<Rightarrow> ingested \<Rightarrow> replica \<Rightarrow> ingested \<times> replica" where
  "fold_fresh E now t fresh out r =
     (if anchor (st r) = Legacy then
        (case List.find (\<lambda>op. is_checkpoint (op_payload op) \<and> op_allowed E (st r) op) fresh of
           Some cp \<Rightarrow> fold_in E t fresh out (r\<lparr>st := (st r)\<lparr>owner_pin := Some (op_author cp)\<rparr>\<rparr>)
         | None \<Rightarrow> apply_in_arrival E now t fresh out r)
      else if \<not> (op_log r = [] \<or> fold_key (last (op_log r)) < fold_key (hd fresh))
      then fold_in E t fresh out r
      else
        (let (enabling, out, r) = foldl (tail_step E t) (False, out, r) fresh
         in if enabling \<and> held r \<noteq> [] then fold_in E t [] out r else (out, r)))"

definition fold_remote ::
  "('a) fold_env_scheme \<Rightarrow> u64 \<Rightarrow> instant \<Rightarrow> crdt_op list \<Rightarrow> replica \<Rightarrow> ingested \<times> replica" where
  "fold_remote E now t ops r =
     (let r = expire_held t (ensure_dedup r);
          (rejected, _, fresh) = foldl (sift E now r) (0, {}, []) ops;
          out = ingested_default\<lparr>in_rejected := rejected\<rparr>
      in if fresh = [] then (out, r)
         else fold_fresh E now t (sort_key fold_key fresh) out r)"

definition ingest_remote ::
  "('a) fold_env_scheme \<Rightarrow> u64 \<Rightarrow> instant \<Rightarrow> crdt_op list \<Rightarrow> replica \<Rightarrow> ingested \<times> replica" where
  "ingest_remote E now t ops r =
     (let (out, r) = fold_remote E now t ops r
      in (out, foldl (\<lambda>r op. witness_clock now (op_hlc op) r) r (in_admitted out)))"

section \<open>Refolding and authoring\<close>

definition refold_for_standing :: "('a) fold_env_scheme \<Rightarrow> instant \<Rightarrow> replica \<Rightarrow> bool \<times> replica" where
  "refold_for_standing E t r =
     (if standing_folded (st r) \<or> anchor (st r) = Legacy \<or> op_log r = [] then (False, r)
      else (let r = snd (fold_in E t [] ingested_default r)
            in (True, r\<lparr>st := (st r)\<lparr>standing_folded := True\<rparr>\<rparr>)))"

text \<open>\<open>None\<close> is a panic of \<open>create_op\<close>; a refused payload gives no op, with the clock moved.\<close>

definition author_checked ::
  "('a) fold_env_scheme \<Rightarrow> (nat \<Rightarrow> u64) \<Rightarrow> u64 \<Rightarrow> crdt_payload \<Rightarrow> replica \<Rightarrow> (crdt_op option \<times> replica) option" where
  "author_checked E walls now payload r =
     (case create_op E walls payload r of
        None \<Rightarrow> None
      | Some (op, r) \<Rightarrow>
          if \<not> op_allowed E (st r) op then Some (None, r)
          else Some (Some op, snd (apply_op E now op r)))"

end
