(* ===== verification/StateInv.thy ===== *)
theory StateInv
  imports Authority
begin

text \<open>
  Well-formedness of the materialized state and what single ops keep of it. \<open>state_wf\<close> is what the
  Rust types give: every map holds each key once. The checkpoint arm replaces the state by one read
  from JSON, so the laws of the reader that the properties need are stated as \<open>json_wf\<close>.
\<close>

lemma hm_insert_set: "set (hm_insert k v m) \<subseteq> insert (k, v) (set m)"
  by (induction m) auto

lemma hm_remove_set: "set (hm_remove k m) \<subseteq> set m"
  by (auto simp: AList.delete_eq)

definition grants_maps_wf :: "u64 admin_lww_reg hmap hmap \<Rightarrow> bool" where
  "grants_maps_wf m \<longleftrightarrow> hm_wf m \<and> list_all (\<lambda>e. hm_wf (snd e)) m"

definition state_wf :: "server_state \<Rightarrow> bool" where
  "state_wf s \<longleftrightarrow>
     hm_wf (channels s) \<and> hm_wf (members s) \<and> hm_wf (roles s) \<and> hm_wf (nicknames s)
     \<and> hm_wf (twitch_usernames s) \<and> hm_wf (pinned_messages s) \<and> hm_wf (storage_pledges s)
     \<and> hm_wf (settings s) \<and> hm_wf (role_permissions s) \<and> hm_wf (banned_members s)
     \<and> hm_wf (muted_members s) \<and> grants_maps_wf (channel_grants s) \<and> hm_wf (labels s)
     \<and> hm_wf (label_assignments s) \<and> hm_wf (emotes s) \<and> hm_wf (stickers s) \<and> hm_wf (member_record s)"

definition json_wf :: "('a) fold_env_scheme \<Rightarrow> bool" where
  "json_wf E \<longleftrightarrow> (\<forall>json base. state_of_json E json = Some base \<longrightarrow> state_wf base)"

lemma state_wf_skeleton [simp]: "state_wf (skeleton sid)"
  by (simp add: state_wf_def skeleton_def grants_maps_wf_def)

lemma grants_maps_wf_insert:
  "grants_maps_wf m \<Longrightarrow> hm_wf v \<Longrightarrow> grants_maps_wf (hm_insert k v m)"
  using hm_insert_set [of k v m] by (auto simp: grants_maps_wf_def hm_wf_insert list_all_iff)

lemma grants_maps_wf_remove: "grants_maps_wf m \<Longrightarrow> grants_maps_wf (hm_remove k m)"
  using hm_remove_set [of k m] by (auto simp: grants_maps_wf_def hm_wf_remove list_all_iff)

lemma grants_of_wf: "grants_maps_wf (channel_grants s) \<Longrightarrow> hm_wf (grants_of s cid)"
  by (cases "hm_get (channel_grants s) cid")
    (auto simp: grants_maps_wf_def grants_of_def list_all_iff dest!: map_of_SomeD)

lemma clamp_map_wf [hmap_wf]: "hm_wf m \<Longrightarrow> hm_wf (snd (clamp_map t m))"
  by (simp add: clamp_map_def hmap_wf)

lemma grants_maps_wf_clamp:
  "grants_maps_wf m \<Longrightarrow> grants_maps_wf (hm_map_values (\<lambda>x. snd (clamp_map t x)) m)"
  by (auto simp: grants_maps_wf_def hmap_wf) (auto simp: hm_map_values_def list_all_iff hmap_wf)

lemma clamp_state_wf: "state_wf s \<Longrightarrow> state_wf (snd (clamp_future_hlcs t s))"
  by (simp add: clamp_future_hlcs_def Let_def split_beta state_wf_def hmap_wf grants_maps_wf_clamp)

lemma rebase_on_wf: "state_wf base \<Longrightarrow> state_wf (rebase_on base ow covers s)"
  unfolding rebase_on_def
  by (rule clamp_state_wf) (simp add: state_wf_def well_formed_channels_def hmap_wf)

lemma open_span_wf: "state_wf s \<Longrightarrow> state_wf (open_span m h a w s)"
  by (simp add: open_span_def Let_def state_wf_def hmap_wf)

lemma edit_open_span_wf: "state_wf s \<Longrightarrow> state_wf (edit_open_span m f s)"
  by (simp add: edit_open_span_def state_wf_def hmap_wf)

lemma close_span_wf: "state_wf s \<Longrightarrow> state_wf (close_span m t s)"
  by (simp add: close_span_def edit_open_span_wf)

lemma seed_founder_wf: "state_wf s \<Longrightarrow> state_wf (seed_founder nm ow h s)"
  using open_span_wf [of "s\<lparr>srv_name := lww_new nm h 3,
      members := hm_insert ow \<lparr>mi_peer_id = ow, mi_display_name = short_name ow\<rparr> (members s),
      roles := hm_insert ow (lww_new Owner h 3) (roles s)\<rparr>" ow h 0 None]
  by (simp add: seed_founder_def Let_def state_wf_def hmap_wf)

lemma drop_member_wf: "state_wf s \<Longrightarrow> state_wf (drop_member pid op s)"
  using close_span_wf [of s pid "physical_ms (op_hlc op)"]
    close_span_wf [of "s\<lparr>join_lock := note_removal (op_hlc op) (join_lock s)\<rparr>" pid "physical_ms (op_hlc op)"]
  by (simp add: drop_member_def Let_def state_wf_def hmap_wf)

lemma apply_member_added_wf: "state_wf s \<Longrightarrow> state_wf (apply_member_added pid nm ask op s)"
  using open_span_wf [of s pid "op_hlc op" "case ask of None \<Rightarrow> 0 | Some a \<Rightarrow> ask_at a" "Some (op_author op)"]
    edit_open_span_wf [of s pid "note_admitter (op_author op) (op_hlc op)"]
  by (simp add: apply_member_added_def Let_def state_wf_def hmap_wf)

lemma apply_payload_wf:
  assumes "json_wf E" and "state_wf s"
  shows "state_wf (apply_payload E op s)"
proof -
  have grants: "grants_maps_wf (channel_grants s)"
    using assms(2) by (simp add: state_wf_def)
  show ?thesis
  proof (cases "op_payload op")
    case (ServerCheckpoint json covers)
    then show ?thesis
      using assms by (auto simp: apply_payload_def apply_checkpoint_def json_wf_def rebase_on_wf split: option.split)
  next
    case (ServerCreated nm ow c)
    then show ?thesis
      using assms by (simp add: apply_payload_def apply_server_created_def seed_founder_wf)
  next
    case (MemberAdded pid nm f ask)
    then show ?thesis
      using assms by (simp add: apply_payload_def apply_member_added_wf)
  next
    case (MemberRemoved pid)
    then show ?thesis
      using assms by (simp add: apply_payload_def apply_member_removed_def drop_member_wf)
  next
    case (MemberBanned pid)
    have "state_wf (s\<lparr>banned_members := lww_write pid (op_reg E s op True) (banned_members s)\<rparr>)"
      using assms(2) by (simp add: state_wf_def hmap_wf)
    with MemberBanned show ?thesis
      by (simp add: apply_payload_def apply_banned_def drop_member_wf)
  qed (use assms(2) grants in \<open>simp_all add: apply_payload_def apply_arms edit_channel_def Let_def state_wf_def hmap_wf
        grants_maps_wf_insert grants_maps_wf_remove grants_of_wf split: option.split\<close>)
qed

section \<open>What each op touches\<close>

lemma open_span_frame [simp]:
  "roles (open_span m h a w s) = roles s"
  "members (open_span m h a w s) = members s"
  "banned_members (open_span m h a w s) = banned_members s"
  "owner_pin (open_span m h a w s) = owner_pin s"
  "deleted (open_span m h a w s) = deleted s"
  "channels (open_span m h a w s) = channels s"
  "server_id (open_span m h a w s) = server_id s"
  "checkpoint_hlc (open_span m h a w s) = checkpoint_hlc s"
  "role_permissions (open_span m h a w s) = role_permissions s"
  "standing_folded (open_span m h a w s) = standing_folded s"
  by (simp_all add: open_span_def Let_def)

lemma edit_open_span_frame [simp]:
  "roles (edit_open_span m f s) = roles s"
  "members (edit_open_span m f s) = members s"
  "banned_members (edit_open_span m f s) = banned_members s"
  "owner_pin (edit_open_span m f s) = owner_pin s"
  "deleted (edit_open_span m f s) = deleted s"
  "channels (edit_open_span m f s) = channels s"
  "server_id (edit_open_span m f s) = server_id s"
  "checkpoint_hlc (edit_open_span m f s) = checkpoint_hlc s"
  "role_permissions (edit_open_span m f s) = role_permissions s"
  "standing_folded (edit_open_span m f s) = standing_folded s"
  by (simp_all add: edit_open_span_def)

lemma close_span_frame [simp]:
  "roles (close_span m t s) = roles s"
  "members (close_span m t s) = members s"
  "banned_members (close_span m t s) = banned_members s"
  "owner_pin (close_span m t s) = owner_pin s"
  "deleted (close_span m t s) = deleted s"
  "channels (close_span m t s) = channels s"
  "server_id (close_span m t s) = server_id s"
  "checkpoint_hlc (close_span m t s) = checkpoint_hlc s"
  "role_permissions (close_span m t s) = role_permissions s"
  "standing_folded (close_span m t s) = standing_folded s"
  by (simp_all add: close_span_def)

lemma drop_member_frame [simp]:
  "roles (drop_member pid op s) = hm_remove pid (roles s)"
  "members (drop_member pid op s) = hm_remove pid (members s)"
  "banned_members (drop_member pid op s) = banned_members s"
  "owner_pin (drop_member pid op s) = owner_pin s"
  "deleted (drop_member pid op s) = deleted s"
  "channels (drop_member pid op s) = channels s"
  "server_id (drop_member pid op s) = server_id s"
  "checkpoint_hlc (drop_member pid op s) = checkpoint_hlc s"
  "role_permissions (drop_member pid op s) = role_permissions s"
  "standing_folded (drop_member pid op s) = standing_folded s"
  by (simp_all add: drop_member_def Let_def)

lemma clamp_frame [simp]:
  "members (snd (clamp_future_hlcs t s)) = members s"
  "owner_pin (snd (clamp_future_hlcs t s)) = owner_pin s"
  "deleted (snd (clamp_future_hlcs t s)) = deleted s"
  "channels (snd (clamp_future_hlcs t s)) = channels s"
  "server_id (snd (clamp_future_hlcs t s)) = server_id s"
  "checkpoint_hlc (snd (clamp_future_hlcs t s)) = checkpoint_hlc s"
  "standing_folded (snd (clamp_future_hlcs t s)) = standing_folded s"
  by (simp_all add: clamp_future_hlcs_def Let_def split_beta)

lemma rebase_on_frame [simp]:
  "server_id (rebase_on base ow covers s) = server_id s"
  "standing_folded (rebase_on base ow covers s) = standing_folded s"
  "owner_pin (rebase_on base ow covers s) = Some ow"
  "checkpoint_hlc (rebase_on base ow covers s) = Some covers"
  "members (rebase_on base ow covers s) = members base"
  "deleted (rebase_on base ow covers s) = deleted base"
  by (simp_all add: rebase_on_def)

lemma seed_founder_frame [simp]:
  "server_id (seed_founder nm ow h s) = server_id s"
  "standing_folded (seed_founder nm ow h s) = standing_folded s"
  "checkpoint_hlc (seed_founder nm ow h s) = checkpoint_hlc s"
  "owner_pin (seed_founder nm ow h s) = (case owner_pin s of None \<Rightarrow> Some ow | Some p \<Rightarrow> Some p)"
  by (simp_all add: seed_founder_def Let_def split: option.split)

lemmas apply_simps = apply_payload_def apply_arms edit_channel_def Let_def

lemma apply_payload_server_id [simp]: "server_id (apply_payload E op s) = server_id s"
  by (cases "op_payload op") (simp_all add: apply_simps split: option.split)

lemma apply_payload_standing [simp]: "standing_folded (apply_payload E op s) = standing_folded s"
  by (cases "op_payload op") (simp_all add: apply_simps split: option.split)

lemma apply_payload_checkpoint_hlc:
  "\<not> is_checkpoint (op_payload op) \<Longrightarrow> checkpoint_hlc (apply_payload E op s) = checkpoint_hlc s"
  by (cases "op_payload op") (simp_all add: apply_simps is_checkpoint_def split: option.split)

lemma apply_payload_owner_pin:
  "\<not> is_checkpoint (op_payload op) \<Longrightarrow> \<not> is_founding (op_payload op) \<Longrightarrow>
     owner_pin (apply_payload E op s) = owner_pin s"
  by (cases "op_payload op") (simp_all add: apply_simps is_checkpoint_def is_founding_def split: option.split)

end
