(* ===== verification/FoldInv.thy ===== *)
theory FoldInv
  imports Fold StateInv
begin

text \<open>
  The invariant of the fold. An anchored replica is coherent: its state is what judging its log, in fold
  order, gives from the anchor. The locale \<open>judged_replay\<close> is the contract the log relies on (what a
  plain op and what a rebasing op leave of the origin); its lemmas are the two ways a log grows and the
  agreement of two logs with the same ops.
\<close>

section \<open>Judged replay\<close>

definition judged_step :: "('a) fold_env_scheme \<Rightarrow> server_state \<Rightarrow> crdt_op \<Rightarrow> server_state" where
  "judged_step E s op = (if op_allowed E s op then apply_payload E op s else s)"

definition judged :: "('a) fold_env_scheme \<Rightarrow> server_state \<Rightarrow> crdt_op list \<Rightarrow> server_state" where
  "judged E s ops = foldl (judged_step E) s ops"

text \<open>\<open>origin s\<close> is where a rebuild of \<open>s\<close> starts, \<open>key\<close> the place of an op in the fold; \<open>kept log op\<close> is what
  remains of a log once the rebasing op entered it.\<close>

locale judged_replay =
  fixes step :: "'s \<Rightarrow> 'o \<Rightarrow> 's"
    and origin :: "'s \<Rightarrow> 's"
    and place :: "'o \<Rightarrow> 'k::linorder"
    and plain :: "'s \<Rightarrow> 'o \<Rightarrow> bool"
    and rebases :: "'s \<Rightarrow> 'o \<Rightarrow> bool"
    and founder :: "'o \<Rightarrow> bool"
  assumes origin_plain: "plain s op \<Longrightarrow> origin (step s op) = origin s"
    and rebase_from_origin:
      "rebases s op \<Longrightarrow> \<forall>f \<in> set fs. founder f \<Longrightarrow> step (foldl step (origin (step s op)) fs) op = step s op"
begin

lemma replay_snoc:
  assumes "foldl step (origin s) log = s" and "plain s op"
  shows "foldl step (origin (step s op)) (log @ [op]) = step s op"
  using assms by (simp add: origin_plain)

lemma replay_rebased:
  assumes "rebases s op" and "\<forall>f \<in> set fs. founder f"
  shows "foldl step (origin (step s op)) (fs @ [op]) = step s op"
  using rebase_from_origin [OF assms] by simp

lemma same_log_same_state:
  assumes "foldl step (origin s) log = s" and "foldl step (origin s') log' = s'"
    and "sorted_wrt (\<lambda>a b. place a < place b) log" and "sorted_wrt (\<lambda>a b. place a < place b) log'"
    and "set log = set log'" and "origin s = origin s'"
  shows "s = s'"
proof -
  have "s = foldl step (origin s) log" by (rule assms(1) [symmetric])
  also have "\<dots> = foldl step (origin s') log'"
    by (simp only: strict_sorted_unique [OF assms(3-5)] assms(6))
  also have "\<dots> = s'" by (rule assms(2))
  finally show ?thesis .
qed

end

lemma rebase_on_cong:
  "server_id s = server_id s' \<Longrightarrow> standing_folded s = standing_folded s' \<Longrightarrow>
     rebase_on base ow covers s = rebase_on base ow covers s'"
  unfolding rebase_on_def
  by (rule arg_cong [where f = "\<lambda>x. snd (clamp_future_hlcs (physical_ms covers) x)"],
      rule server_state.equality) simp_all

lemma reset_cong:
  "server_id s = server_id s' \<Longrightarrow> standing_folded s = standing_folded s' \<Longrightarrow> owner_pin s = owner_pin s' \<Longrightarrow>
     reset_materialized s = reset_materialized s'"
  by (simp add: reset_materialized_def)

lemma reset_frame [simp]:
  "server_id (reset_materialized s) = server_id s" "owner_pin (reset_materialized s) = owner_pin s"
  "standing_folded (reset_materialized s) = standing_folded s" "checkpoint_hlc (reset_materialized s) = None"
  "members (reset_materialized s) = []" "roles (reset_materialized s) = []"
  "reset_materialized (reset_materialized s) = reset_materialized s"
  by (simp_all add: reset_materialized_def skeleton_def)

text \<open>An owner once pinned stays pinned under everything but a checkpoint.\<close>

lemma apply_payload_pinned:
  assumes "\<not> is_checkpoint (op_payload op)" and "owner_pin s = Some p"
  shows "owner_pin (apply_payload E op s) = Some p"
proof (cases "is_founding (op_payload op)")
  case True
  then show ?thesis
    using assms by (auto simp: is_founding_iff apply_payload_def apply_server_created_def)
next
  case False
  with assms show ?thesis by (simp add: apply_payload_owner_pin)
qed

definition plain_op :: "server_state \<Rightarrow> crdt_op \<Rightarrow> bool" where
  "plain_op s op \<longleftrightarrow> \<not> is_checkpoint (op_payload op) \<and> owner_pin s \<noteq> None"

definition rebasing_op :: "('a) fold_env_scheme \<Rightarrow> server_state \<Rightarrow> crdt_op \<Rightarrow> bool" where
  "rebasing_op E s op \<longleftrightarrow> is_checkpoint (op_payload op) \<and> op_allowed E s op"

lemma judged_step_frame [simp]:
  "server_id (judged_step E s op) = server_id s"
  "standing_folded (judged_step E s op) = standing_folded s"
  by (simp_all add: judged_step_def)

lemma judged_founders:
  assumes "\<forall>f \<in> set fs. is_founding (op_payload f)" and "owner_pin s = Some p" and "checkpoint_hlc s = None"
  shows "owner_pin (foldl (judged_step E) s fs) = Some p \<and> checkpoint_hlc (foldl (judged_step E) s fs) = None
    \<and> server_id (foldl (judged_step E) s fs) = server_id s
    \<and> standing_folded (foldl (judged_step E) s fs) = standing_folded s"
  using assms
proof (induction fs arbitrary: s)
  case (Cons f fs)
  have "\<not> is_checkpoint (op_payload f)"
    using Cons.prems(1) by (auto simp: is_founding_iff is_checkpoint_iff)
  then have "owner_pin (judged_step E s f) = Some p" "checkpoint_hlc (judged_step E s f) = None"
    using Cons.prems(2,3) by (simp_all add: judged_step_def apply_payload_pinned apply_payload_checkpoint_hlc)
  with Cons.IH [of "judged_step E s f"] Cons.prems(1) show ?case by simp
qed simp

text \<open>What an admitted checkpoint needs of the state it is judged against.\<close>

lemma checkpoint_allowedE:
  assumes "op_payload op = ServerCheckpoint json covers" and "op_allowed E s op"
  obtains base where "state_of_json E json = Some base" and "covers \<le> op_hlc op"
    and "server_id base = server_id s" and "\<not> deleted base" and "owner_entries base = [op_author op]"
    and "is_none_or (\<lambda>b. b < covers) (checkpoint_hlc s)"
    and "apply_payload E op s = rebase_on base (op_author op) covers s"
proof -
  have "checkpoint_allowed E s op json covers"
    using assms by (simp add: op_allowed_checkpoint)
  then obtain base where "state_of_json E json = Some base" "covers \<le> op_hlc op"
    "server_id base = server_id s" "\<not> deleted base" "owner_entries base = [op_author op]"
    "is_none_or (\<lambda>b. b < covers) (checkpoint_hlc s)"
    by (auto simp: checkpoint_allowed_def is_none_or_iff is_some_and_iff not_less not_le split: if_splits option.splits)
  moreover from this(1) have "apply_payload E op s = rebase_on base (op_author op) covers s"
    using assms(1) by (simp add: apply_payload_def apply_checkpoint_def)
  ultimately show ?thesis by (rule that)
qed

lemma checkpoint_from_origin:
  assumes "rebasing_op E s op" and "\<forall>f \<in> set fs. is_founding (op_payload f)"
  shows "judged_step E (foldl (judged_step E) (reset_materialized (judged_step E s op)) fs) op = judged_step E s op"
proof -
  obtain json covers where pay: "op_payload op = ServerCheckpoint json covers"
    using assms(1) by (auto simp: rebasing_op_def is_checkpoint_iff)
  have ok: "op_allowed E s op"
    using assms(1) by (simp add: rebasing_op_def)
  obtain base where base: "state_of_json E json = Some base" "covers \<le> op_hlc op" "server_id base = server_id s"
    "\<not> deleted base" "owner_entries base = [op_author op]"
    and app: "apply_payload E op s = rebase_on base (op_author op) covers s"
    using checkpoint_allowedE [OF pay ok] .
  define s1 where "s1 = foldl (judged_step E) (reset_materialized (judged_step E s op)) fs"
  have step: "judged_step E s op = rebase_on base (op_author op) covers s"
    using ok app by (simp only: judged_step_def if_True)
  have s1: "owner_pin s1 = Some (op_author op) \<and> checkpoint_hlc s1 = None \<and> server_id s1 = server_id s
      \<and> standing_folded s1 = standing_folded s"
    unfolding s1_def step
    using judged_founders [OF assms(2), of "reset_materialized (rebase_on base (op_author op) covers s)" "op_author op" E]
    by simp
  have "op_allowed E s1 op"
    using base s1 by (simp add: op_allowed_checkpoint [OF pay] checkpoint_allowed_def anchor_owner_def)
  moreover have "apply_payload E op s1 = rebase_on base (op_author op) covers s1"
    using base(1) pay by (simp add: apply_payload_def apply_checkpoint_def)
  moreover have "rebase_on base (op_author op) covers s1 = rebase_on base (op_author op) covers s"
    using s1 by (intro rebase_on_cong) simp_all
  ultimately have "judged_step E s1 op = rebase_on base (op_author op) covers s"
    by (simp only: judged_step_def if_True)
  then show ?thesis
    unfolding s1_def step .
qed

interpretation log_replay: judged_replay "judged_step E" reset_materialized fold_key plain_op "rebasing_op E"
    "\<lambda>op :: crdt_op. is_founding (op_payload op)"
proof
  fix s op
  assume "plain_op s op"
  then show "reset_materialized (judged_step E s op) = reset_materialized s"
    by (intro reset_cong) (auto simp: plain_op_def judged_step_def apply_payload_pinned)
next
  fix s and op :: crdt_op and fs :: "crdt_op list"
  assume "rebasing_op E s op" and "\<forall>f \<in> set fs. is_founding (op_payload f)"
  then show "judged_step E (foldl (judged_step E) (reset_materialized (judged_step E s op)) fs) op = judged_step E s op"
    by (rule checkpoint_from_origin)
qed

section \<open>The invariant\<close>

definition strict_log :: "crdt_op list \<Rightarrow> bool" where
  "strict_log ops \<longleftrightarrow> sorted_wrt (\<lambda>a b. fold_key a < fold_key b) ops"

text \<open>Before anyone is pinned as the owner there is nothing: no log and no member.\<close>

definition seated :: "replica \<Rightarrow> bool" where
  "seated r \<longleftrightarrow> (owner_pin (st r) = None \<longrightarrow> op_log r = [] \<and> members (st r) = [])"

text \<open>Every checkpoint in the log is at or below the one the state rests on.\<close>

definition log_covered :: "replica \<Rightarrow> bool" where
  "log_covered r \<longleftrightarrow>
     (\<forall>o1 \<in> set (op_log r). is_checkpoint (op_payload o1) \<longrightarrow>
        is_some_and (\<lambda>b. fst (fold_key o1) \<le> b) (checkpoint_hlc (st r)))"

definition coherent :: "('a) fold_env_scheme \<Rightarrow> replica \<Rightarrow> bool" where
  "coherent E r \<longleftrightarrow> judged E (reset_materialized (st r)) (op_log r) = st r"

definition fold_inv :: "('a) fold_env_scheme \<Rightarrow> replica \<Rightarrow> bool" where
  "fold_inv E r \<longleftrightarrow> strict_log (op_log r) \<and> seated r \<and> log_covered r
     \<and> (anchor (st r) \<noteq> Legacy \<longrightarrow> coherent E r)"

definition admit :: "('a) fold_env_scheme \<Rightarrow> crdt_op \<Rightarrow> replica \<Rightarrow> replica" where
  "admit E op r = log_admitted op (r\<lparr>st := apply_payload E op (st r)\<rparr>)"

lemma st_prune [simp]: "st (prune_before_checkpoint r) = st r"
  by (simp add: prune_before_checkpoint_def Let_def split: option.split)

lemma st_log_admitted [simp]: "st (log_admitted op r) = st r"
  by (simp add: log_admitted_def Let_def)

lemma st_admit [simp]: "st (admit E op r) = apply_payload E op (st r)"
  by (simp add: admit_def)

lemma strict_log_sorted: "strict_log ops \<Longrightarrow> sorted (map fold_key ops)"
  unfolding strict_log_def sorted_map
  by (rule sorted_wrt_mono_rel [of ops "\<lambda>a b. fold_key a < fold_key b"]) auto

lemma strict_log_append:
  "strict_log (xs @ [op]) \<longleftrightarrow> strict_log xs \<and> (\<forall>o1 \<in> set xs. fold_key o1 < fold_key op)"
  by (auto simp: strict_log_def sorted_wrt_append)

lemma strict_log_filter: "strict_log xs \<Longrightarrow> strict_log (filter P xs)"
  by (simp add: strict_log_def sorted_wrt_filter)

lemma strict_log_drop: "strict_log xs \<Longrightarrow> strict_log (drop n xs)"
  by (simp add: strict_log_def sorted_wrt_drop)

lemma anchor_Legacy: "anchor s = Legacy \<longleftrightarrow> checkpoint_hlc s = None \<and> \<not> is_genesis_id (server_id s)"
  by (simp add: anchor_def)

lemma anchor_apply_plain: "\<not> is_checkpoint (op_payload op) \<Longrightarrow> anchor (apply_payload E op s) = anchor s"
  by (simp add: anchor_def apply_payload_checkpoint_hlc)

text \<open>The log once an op newer than all of it entered.\<close>

lemma log_admit_plain:
  assumes "sorted (map fold_key (op_log r))" and "\<forall>o1 \<in> set (op_log r). fold_key o1 < fold_key op"
    and "\<not> is_checkpoint (op_payload op)"
  obtains n where "op_log (admit E op r) = drop n (op_log r @ [op])"
    and "anchor (st r) \<noteq> Legacy \<longrightarrow> n = 0"
proof -
  have pos: "insertion_point fold_key (fold_key op) (op_log r) = length (op_log r)"
    using assms(1,2) by (intro insertion_point_last) auto
  define n where "n = (if anchor (st r) = Legacy then length (op_log r @ [op]) - LEGACY_OP_LOG_CAP else 0)"
  have "op_log (admit E op r) = drop n (op_log r @ [op])"
    using assms(3) by (simp add: admit_def log_admitted_def Let_def pos n_def anchor_apply_plain)
  then show thesis
    by (rule that) (simp add: n_def)
qed

lemma retained_older:
  assumes "fold_key o1 < (covers, True)"
  shows "retained_under o1 covers genesis \<longleftrightarrow> is_founding (op_payload o1) \<and> genesis"
proof (cases "is_checkpoint (op_payload o1)")
  case True
  then obtain json c where "op_payload o1 = ServerCheckpoint json c" by (auto simp: is_checkpoint_iff)
  with assms show ?thesis
    by (simp add: fold_key_checkpoint retained_under_checkpoint is_founding_def)
next
  case False
  with assms show ?thesis
    by (auto simp: fold_key_other retained_under_other)
qed

lemma log_admit_checkpoint:
  assumes "sorted (map fold_key (op_log r))" and "\<forall>o1 \<in> set (op_log r). fold_key o1 < fold_key op"
    and "op_payload op = ServerCheckpoint json covers" and "op_allowed E (st r) op"
  shows "op_log (admit E op r)
     = filter (\<lambda>o1. is_founding (op_payload o1) \<and> is_genesis_id (server_id (st r))) (op_log r) @ [op]"
proof -
  have pos: "insertion_point fold_key (fold_key op) (op_log r) = length (op_log r)"
    using assms(1,2) by (intro insertion_point_last) auto
  have ck: "is_checkpoint (op_payload op)"
    using assms(3) by (simp add: is_checkpoint_def)
  have cp: "checkpoint_hlc (apply_payload E op (st r)) = Some covers"
    using checkpoint_allowedE [OF assms(3,4)] by (metis rebase_on_frame(4))
  have "op_log (admit E op r)
      = filter (\<lambda>o1. retained_under o1 covers (is_genesis_id (server_id (st r)))) (op_log r @ [op])"
    using ck cp by (simp add: admit_def log_admitted_def Let_def pos prune_before_checkpoint_def)
  also have "\<dots> = filter (\<lambda>o1. is_founding (op_payload o1) \<and> is_genesis_id (server_id (st r))) (op_log r) @ [op]"
    using assms(2,3) by (simp add: fold_key_checkpoint retained_under_checkpoint retained_older cong: filter_cong)
  finally show ?thesis .
qed

lemma current_owner_Nil [simp]: "roles s = [] \<Longrightarrow> current_owner s = None"
  by (simp add: current_owner_def)

lemma memberless_author: "members s = [] \<Longrightarrow> author_role s who = None"
  by (simp add: author_role_def hm_has_def)

text \<open>Without members only the founding op and a checkpoint are ever admitted.\<close>

lemma memberless_allowed:
  assumes "members s = []" and "op_allowed E s op" and "\<not> is_checkpoint (op_payload op)"
  shows "is_founding (op_payload op)"
  using assms by (cases "op_payload op")
    (simp_all add: op_allowed_def memberless_author is_founding_def is_checkpoint_def)

lemma seed_founder_pin:
  "owner_pin s = None \<Longrightarrow> seed_founder nm ow h (s\<lparr>owner_pin := Some ow\<rparr>) = seed_founder nm ow h s"
  by (simp add: seed_founder_def open_span_def Let_def)

lemma founding_from_origin:
  assumes "st r = reset_materialized (st r)" and "owner_pin (st r) = None" and "anchor (st r) \<noteq> Legacy"
    and "op_payload op = ServerCreated nm ow nonce" and "op_allowed E (st r) op"
  shows "judged_step E (reset_materialized (apply_payload E op (st r))) op = apply_payload E op (st r)"
proof -
  define s where "s = st r"
  have s: "s = reset_materialized s" "owner_pin s = None" "founding_allowed E s op ow nonce"
    using assms by (simp_all add: s_def op_allowed_founding)
  have roles: "roles s = []" and cp: "checkpoint_hlc s = None"
    by (subst s(1), simp)+
  have genesis: "is_genesis_id (server_id s)"
    using assms(3) cp by (simp add: s_def anchor_Legacy)
  have app: "apply_payload E op s' = seed_founder nm ow (op_hlc op) s'" if "roles s' = []" for s'
    using that assms(4) by (simp add: apply_payload_def apply_server_created_def)
  have reset: "reset_materialized (apply_payload E op s) = s\<lparr>owner_pin := Some ow\<rparr>"
  proof -
    have "reset_materialized (apply_payload E op s) = (reset_materialized s)\<lparr>owner_pin := Some ow\<rparr>"
      using s(2) roles by (simp add: app reset_materialized_def)
    then show ?thesis using s(1) by simp
  qed
  have "op_allowed E (s\<lparr>owner_pin := Some ow\<rparr>) op"
    using s(3) genesis by (simp add: op_allowed_founding [OF assms(4)] founding_allowed_def current_owner_def)
  then have "judged_step E (s\<lparr>owner_pin := Some ow\<rparr>) op = apply_payload E op s"
    using roles s(2) by (simp add: judged_step_def app seed_founder_pin)
  then show ?thesis
    by (simp only: reset s_def [symmetric])
qed

lemma coherent_plain:
  assumes inv: "fold_inv E r" and ok: "op_allowed E (st r) op" and plain: "\<not> is_checkpoint (op_payload op)"
    and anchored: "anchor (st r) \<noteq> Legacy" and log: "op_log (admit E op r) = op_log r @ [op]"
  shows "coherent E (admit E op r)"
proof -
  have step: "judged_step E (st r) op = apply_payload E op (st r)"
    using ok by (simp add: judged_step_def)
  have co: "foldl (judged_step E) (reset_materialized (st r)) (op_log r) = st r"
    using inv anchored by (simp add: fold_inv_def coherent_def judged_def)
  show ?thesis
  proof (cases "owner_pin (st r)")
    case (Some p)
    then have "plain_op (st r) op"
      using plain by (simp add: plain_op_def)
    from log_replay.replay_snoc [OF co this] show ?thesis
      by (simp add: coherent_def judged_def log step)
  next
    case None
    have empty: "op_log r = []" "members (st r) = []"
      using inv None by (simp_all add: fold_inv_def seated_def)
    obtain nm ow nonce where pay: "op_payload op = ServerCreated nm ow nonce"
      using memberless_allowed [OF empty(2) ok plain] by (auto simp: is_founding_iff)
    have "st r = reset_materialized (st r)"
      using co empty(1) by simp
    from founding_from_origin [OF this None anchored pay ok] show ?thesis
      by (simp add: coherent_def judged_def log empty(1))
  qed
qed

lemma admit_inv_plain:
  assumes inv: "fold_inv E r" and ok: "op_allowed E (st r) op"
    and newer: "\<forall>o1 \<in> set (op_log r). fold_key o1 < fold_key op" and plain: "\<not> is_checkpoint (op_payload op)"
  shows "fold_inv E (admit E op r)"
proof -
  have strict: "strict_log (op_log r)"
    using inv by (simp add: fold_inv_def)
  obtain n where n: "op_log (admit E op r) = drop n (op_log r @ [op])" "anchor (st r) \<noteq> Legacy \<longrightarrow> n = 0"
    using log_admit_plain [OF strict_log_sorted [OF strict] newer plain] .
  have "strict_log (op_log (admit E op r))"
    using strict newer by (simp only: n(1)) (intro strict_log_drop, simp add: strict_log_append)
  moreover have "seated (admit E op r)"
  proof (cases "owner_pin (st r)")
    case None
    then have "members (st r) = []" using inv by (simp add: fold_inv_def seated_def)
    from memberless_allowed [OF this ok plain] show ?thesis
      using ok None by (auto simp: seated_def is_founding_iff op_allowed_founding founding_allowed_def
          apply_payload_def apply_server_created_def)
  qed (use plain in \<open>simp add: seated_def apply_payload_pinned\<close>)
  moreover have "log_covered (admit E op r)"
    using inv plain by (auto simp: fold_inv_def log_covered_def n(1) apply_payload_checkpoint_hlc dest!: in_set_dropD)
  moreover have "coherent E (admit E op r)" if "anchor (st (admit E op r)) \<noteq> Legacy"
    using that n plain by (intro coherent_plain [OF inv ok plain]) (auto simp: anchor_apply_plain)
  ultimately show ?thesis by (simp add: fold_inv_def)
qed

lemma admit_inv_checkpoint:
  assumes inv: "fold_inv E r" and ok: "op_allowed E (st r) op"
    and newer: "\<forall>o1 \<in> set (op_log r). fold_key o1 < fold_key op"
    and pay: "op_payload op = ServerCheckpoint json covers"
  shows "fold_inv E (admit E op r)"
proof -
  define fs where "fs = filter (\<lambda>o1. is_founding (op_payload o1) \<and> is_genesis_id (server_id (st r))) (op_log r)"
  have strict: "strict_log (op_log r)"
    using inv by (simp add: fold_inv_def)
  have log: "op_log (admit E op r) = fs @ [op]"
    using log_admit_checkpoint [OF strict_log_sorted [OF strict] newer pay ok] by (simp add: fs_def)
  obtain base where app: "apply_payload E op (st r) = rebase_on base (op_author op) covers (st r)"
    using checkpoint_allowedE [OF pay ok] .
  have founders: "\<forall>f \<in> set fs. is_founding (op_payload f)"
    by (simp add: fs_def)
  have "strict_log (fs @ [op])"
    using strict newer by (simp add: strict_log_append fs_def strict_log_filter)
  moreover have "log_covered (admit E op r)"
    using founders pay by (auto simp: log_covered_def log app fold_key_checkpoint is_founding_iff is_checkpoint_iff)
  moreover have "coherent E (admit E op r)"
  proof -
    have "rebasing_op E (st r) op" and step: "judged_step E (st r) op = apply_payload E op (st r)"
      using ok pay by (simp_all add: rebasing_op_def is_checkpoint_def judged_step_def)
    from log_replay.replay_rebased [OF this(1) founders] show ?thesis
      by (simp add: coherent_def judged_def log step)
  qed
  ultimately show ?thesis
    by (simp add: fold_inv_def log seated_def app)
qed

text \<open>Among the ops a replica holds, only checkpoints may share a place in the fold, and of those at most
  the first is admitted.\<close>

lemma admit_inv:
  assumes inv: "fold_inv E r" and ok: "op_allowed E (st r) op"
    and newer: "\<forall>o1 \<in> set (op_log r). fold_key o1 < fold_key op \<or> fold_key o1 = fold_key op \<and> is_checkpoint (op_payload op)"
  shows "fold_inv E (admit E op r) \<and> (\<forall>o1 \<in> set (op_log (admit E op r)). fold_key o1 \<le> fold_key op)"
proof -
  have strict: "strict_log (op_log r)" and covered: "log_covered r"
    using inv by (simp_all add: fold_inv_def)
  have newer': "\<forall>o1 \<in> set (op_log r). fold_key o1 < fold_key op"
  proof
    fix o1 assume o1: "o1 \<in> set (op_log r)"
    show "fold_key o1 < fold_key op"
    proof (rule ccontr)
      assume "\<not> fold_key o1 < fold_key op"
      with newer o1 obtain json covers where pay: "op_payload op = ServerCheckpoint json covers"
        and same: "fold_key o1 = (covers, True)"
        by (auto simp: is_checkpoint_iff fold_key_checkpoint)
      have "is_checkpoint (op_payload o1)"
        using same by (metis fold_key_other prod.inject)
      with covered o1 same have "is_some_and (\<lambda>b. covers \<le> b) (checkpoint_hlc (st r))"
        by (auto simp: log_covered_def)
      with checkpoint_allowedE [OF pay ok] show False
        by (metis is_none_or_iff is_some_and_iff leD)
    qed
  qed
  show ?thesis
  proof (cases "is_checkpoint (op_payload op)")
    case True
    then obtain json covers where pay: "op_payload op = ServerCheckpoint json covers"
      by (auto simp: is_checkpoint_iff)
    from log_admit_checkpoint [OF strict_log_sorted [OF strict] newer' pay ok] newer'
    have "\<forall>o1 \<in> set (op_log (admit E op r)). fold_key o1 \<le> fold_key op" by auto
    with admit_inv_checkpoint [OF inv ok newer' pay] show ?thesis by simp
  next
    case False
    obtain n where "op_log (admit E op r) = drop n (op_log r @ [op])"
      using log_admit_plain [OF strict_log_sorted [OF strict] newer' False] .
    with newer' have "\<forall>o1 \<in> set (op_log (admit E op r)). fold_key o1 \<le> fold_key op"
      by (auto dest!: in_set_dropD)
    with admit_inv_plain [OF inv ok newer' False] show ?thesis by simp
  qed
qed

section \<open>Chains of candidates\<close>

definition may_follow :: "crdt_op \<Rightarrow> crdt_op \<Rightarrow> bool" where
  "may_follow a b \<longleftrightarrow> fold_key a < fold_key b \<or> fold_key a = fold_key b \<and> is_checkpoint (op_payload b)"

definition fold_chain :: "crdt_op list \<Rightarrow> bool" where
  "fold_chain cs \<longleftrightarrow> sorted_wrt may_follow cs"

definition log_precedes :: "replica \<Rightarrow> crdt_op list \<Rightarrow> bool" where
  "log_precedes r cs \<longleftrightarrow> (\<forall>o1 \<in> set (op_log r). \<forall>c \<in> set cs. may_follow o1 c)"

text \<open>An op that passed the author check carries its author as the clock's actor.\<close>

definition op_stamped :: "crdt_op \<Rightarrow> bool" where
  "op_stamped op \<longleftrightarrow> actor (op_hlc op) = op_author op"

definition ops_of :: "replica \<Rightarrow> crdt_op set" where
  "ops_of r = set (op_log r) \<union> fst ` set (held r)"

lemma stamped_same:
  assumes "op_stamped a" and "op_stamped b" and "fold_key a = fold_key b" and "\<not> is_checkpoint (op_payload b)"
  shows "op_author a = op_author b \<and> op_hlc a = op_hlc b"
proof -
  have "fold_key b = (op_hlc b, False)" using assms(4) by (rule fold_key_other)
  then have "\<not> is_checkpoint (op_payload a)"
    using assms(3) by (auto simp: is_checkpoint_iff fold_key_checkpoint)
  then have "op_hlc a = op_hlc b"
    using assms(3,4) by (simp add: fold_key_other)
  with assms(1,2) show ?thesis by (auto simp: op_stamped_def)
qed

lemma dedup_chain:
  assumes "\<forall>op \<in> set ops. op_stamped op"
  shows "fold_chain (dedup_by (\<lambda>a b. op_author a = op_author b \<and> op_hlc a = op_hlc b) (sort_key fold_key ops))"
  unfolding fold_chain_def may_follow_def
proof (rule dedup_by_strict)
  fix u v
  assume "u \<in> set (sort_key fold_key ops)" "v \<in> set (sort_key fold_key ops)"
    and "fold_key u = fold_key v" "\<not> is_checkpoint (op_payload v)"
  then show "op_author v = op_author u \<and> op_hlc v = op_hlc u"
    using stamped_same [of u v] assms by simp
qed simp

lemma candidates_set: "set (candidates fresh r) \<subseteq> ops_of r \<union> set fresh"
  using dedup_by_subset by (fastforce simp: candidates_def ops_of_def)

lemma candidates_chain:
  assumes "\<forall>op \<in> ops_of r \<union> set fresh. op_stamped op"
  shows "fold_chain (candidates fresh r)"
  unfolding candidates_def using assms by (intro dedup_chain) (auto simp: ops_of_def)

lemma may_follow_trans: "fold_key a \<le> fold_key b \<Longrightarrow> may_follow b c \<Longrightarrow> may_follow a c"
  by (auto simp: may_follow_def)

lemma admit_chain:
  assumes "fold_inv E r" and "op_allowed E (st r) op" and "fold_chain (op # cs)" and "log_precedes r (op # cs)"
  shows "fold_inv E (admit E op r) \<and> log_precedes (admit E op r) cs"
proof -
  have "\<forall>o1 \<in> set (op_log r). fold_key o1 < fold_key op \<or> fold_key o1 = fold_key op \<and> is_checkpoint (op_payload op)"
    using assms(4) by (simp add: log_precedes_def may_follow_def)
  from admit_inv [OF assms(1,2) this] assms(3) show ?thesis
    by (auto simp: log_precedes_def fold_chain_def intro: may_follow_trans)
qed

lemma log_precedes_Cons: "log_precedes r (op # cs) \<Longrightarrow> log_precedes r cs"
  by (simp add: log_precedes_def)

lemma fold_chain_Cons: "fold_chain (op # cs) \<Longrightarrow> fold_chain cs"
  by (simp add: fold_chain_def)

text \<open>Fields outside the state and the log do not matter to the invariant.\<close>

lemma fold_inv_cong:
  "st r = st r' \<Longrightarrow> op_log r = op_log r' \<Longrightarrow> fold_inv E r = fold_inv E r'"
  by (simp add: fold_inv_def seated_def log_covered_def coherent_def)

lemma log_precedes_cong: "op_log r = op_log r' \<Longrightarrow> log_precedes r cs = log_precedes r' cs"
  by (simp add: log_precedes_def)

lemma judge_simps:
  "op_allowed E (st r) op \<Longrightarrow> judge E (r, refused) op = (admit E op r, refused)"
  "\<not> op_allowed E (st r) op \<Longrightarrow> judge E (r, refused) op = (r, refused @ [op])"
  by (simp_all add: judge_def admit_def)

lemma judge_fold_inv:
  "fold_inv E r \<Longrightarrow> fold_chain cs \<Longrightarrow> log_precedes r cs \<Longrightarrow> fold_inv E (fst (foldl (judge E) (r, refused) cs))"
proof (induction cs arbitrary: r refused)
  case (Cons c cs)
  show ?case
  proof (cases "op_allowed E (st r) c")
    case True
    from admit_chain [OF Cons.prems(1) True Cons.prems(2,3)] Cons.IH [of "admit E c r"] Cons.prems(2) True
    show ?thesis by (simp add: judge_simps fold_chain_Cons)
  next
    case False
    with Cons.IH [of r "refused @ [c]"] Cons.prems show ?thesis
      by (simp add: judge_simps fold_chain_Cons log_precedes_Cons)
  qed
qed simp

lemma rebuilt_from_inv: "fold_inv E (rebuilt_from r)"
  by (simp add: rebuilt_from_def fold_inv_def strict_log_def seated_def log_covered_def coherent_def judged_def)

text \<open>A rebuild leaves a coherent replica, whatever it started from.\<close>

lemma fold_in_inv:
  assumes "\<forall>op \<in> ops_of r \<union> set fresh. op_stamped op"
  shows "fold_inv E (snd (fold_in E t fresh out r))"
proof -
  have "fold_inv E (fst (foldl (judge E) (rebuilt_from r, []) (candidates fresh r)))"
    using candidates_chain [OF assms] rebuilt_from_inv
    by (intro judge_fold_inv) (auto simp: log_precedes_def rebuilt_from_def)
  then show ?thesis
    by (simp add: fold_in_def Let_def split_beta fold_inv_def seated_def log_covered_def coherent_def)
qed

lemma hold_frame [simp]:
  "st (snd (hold t op x)) = st (snd x)" "op_log (snd (hold t op x)) = op_log (snd x)"
  "op_log_dedup (snd (hold t op x)) = op_log_dedup (snd x)" "clock (snd (hold t op x)) = clock (snd x)"
  by (simp_all add: hold_def Let_def split_beta)

lemma tail_step_simps:
  "op_allowed E (st r) op \<Longrightarrow> tail_step E t (en, out, r) op
     = (en \<or> enables_others (op_payload op), out\<lparr>in_admitted := in_admitted out @ [op]\<rparr>, admit E op r)"
  "\<not> op_allowed E (st r) op \<Longrightarrow> tail_step E t (en, out, r) op = (en, hold t op (out, r))"
  by (simp_all add: tail_step_def admit_def)

lemma tail_fold_inv:
  "fold_inv E r \<Longrightarrow> fold_chain cs \<Longrightarrow> log_precedes r cs \<Longrightarrow>
     fold_inv E (snd (snd (foldl (tail_step E t) (en, out, r) cs)))"
proof (induction cs arbitrary: en out r)
  case (Cons c cs)
  show ?case
  proof (cases "op_allowed E (st r) c")
    case True
    from admit_chain [OF Cons.prems(1) True Cons.prems(2,3)] Cons.IH [of "admit E c r"] Cons.prems(2) True
    show ?thesis by (simp add: tail_step_simps fold_chain_Cons)
  next
    case False
    obtain out' r' where h: "hold t c (out, r) = (out', r')" by (cases "hold t c (out, r)")
    then have r': "st r' = st r" "op_log r' = op_log r"
      using hold_frame [of t c "(out, r)"] by simp_all
    have "fold_inv E r'" "log_precedes r' cs"
      using Cons.prems(1,3) r' fold_inv_cong [of r' r E] log_precedes_cong [of r' r] by (simp_all add: log_precedes_Cons)
    with Cons.IH [of r'] Cons.prems(2) False h show ?thesis
      by (simp add: tail_step_simps fold_chain_Cons)
  qed
qed simp

end
