(* ===== verification/FoldProps.thy ===== *)
theory FoldProps
  imports FoldInv
begin

text \<open>
  What an ingest does to a replica as a whole: which ops can enter it, what stays bounded, that an
  anchored replica remains the fold of its log, and that neither the order of a batch nor the state a
  rebuild starts from matters.
\<close>

section \<open>Which ops a replica holds\<close>

lemma prune_log_subset: "set (op_log (prune_before_checkpoint r)) \<subseteq> set (op_log r)"
  by (auto simp: prune_before_checkpoint_def Let_def split: option.split)

lemma log_admitted_subset: "set (op_log (log_admitted op r)) \<subseteq> insert op (set (op_log r))"
proof -
  let ?r = "r\<lparr>op_log_dedup := insert (op_key op) (op_log_dedup r),
      op_log := insert_at (insertion_point fold_key (fold_key op) (op_log r)) op (op_log r)\<rparr>"
  have "set (op_log (prune_before_checkpoint ?r)) \<subseteq> insert op (set (op_log r))"
    using prune_log_subset [of ?r] by simp
  then show ?thesis
    by (auto simp: log_admitted_def Let_def dest!: in_set_dropD)
qed

lemma admit_ops: "ops_of (admit E op r) \<subseteq> insert op (ops_of r)"
  using log_admitted_subset [of op "r\<lparr>st := apply_payload E op (st r)\<rparr>"]
  by (auto simp: admit_def ops_of_def)

lemma ops_of_push [simp]: "ops_of (r\<lparr>held := held r @ [h]\<rparr>) = insert (fst h) (ops_of r)"
  by (auto simp: ops_of_def)

lemma hold_ops: "ops_of (snd (hold t op x)) \<subseteq> insert op (ops_of (snd x))"
proof -
  have "set (tl (held (snd x))) \<subseteq> set (held (snd x))"
    by (cases "held (snd x)") auto
  then have "fst ` set (tl (held (snd x))) \<subseteq> fst ` set (held (snd x))"
    by (rule image_mono)
  then show ?thesis
    by (simp add: hold_def Let_def split_beta ops_of_def) blast
qed

lemma judge_ops:
  "foldl (judge E) (r, refused) cs = (r', refused') \<Longrightarrow>
     ops_of r' \<subseteq> ops_of r \<union> set cs \<and> set refused' \<subseteq> set refused \<union> set cs"
proof (induction cs arbitrary: r refused)
  case (Cons c cs)
  show ?case
  proof (cases "op_allowed E (st r) c")
    case True
    with Cons.IH [of "admit E c r" refused] Cons.prems admit_ops [of E c r] show ?thesis
      by (auto simp: judge_simps)
  next
    case False
    with Cons.IH [of r "refused @ [c]"] Cons.prems show ?thesis
      by (auto simp: judge_simps)
  qed
qed simp

lemma rebuilt_ops [simp]: "ops_of (rebuilt_from r) = {}"
  by (simp add: ops_of_def rebuilt_from_def)

lemma fold_in_ops: "ops_of (snd (fold_in E t fresh out r)) \<subseteq> ops_of r \<union> set fresh"
proof -
  obtain r' refused where j: "foldl (judge E) (rebuilt_from r, []) (candidates fresh r) = (r', refused)"
    by (cases "foldl (judge E) (rebuilt_from r, []) (candidates fresh r)")
  from judge_ops [OF j] candidates_set [of fresh r]
  have "ops_of r' \<subseteq> ops_of r \<union> set fresh" "set refused \<subseteq> ops_of r \<union> set fresh" by auto
  then show ?thesis
    by (auto simp: fold_in_def Let_def j ops_of_def dest!: in_set_dropD)
qed

lemma tail_ops: "ops_of (snd (snd (foldl (tail_step E t) (en, out, r) cs))) \<subseteq> ops_of r \<union> set cs"
proof (induction cs arbitrary: en out r)
  case (Cons c cs)
  show ?case
  proof (cases "op_allowed E (st r) c")
    case True
    with Cons.IH [of _ _ "admit E c r"] admit_ops [of E c r] show ?thesis
      by (fastforce simp: tail_step_simps)
  next
    case False
    obtain out' r' where h: "hold t c (out, r) = (out', r')" by (cases "hold t c (out, r)")
    with hold_ops [of t c "(out, r)"] have "ops_of r' \<subseteq> insert c (ops_of r)" by simp
    with Cons.IH [of en out' r'] False h show ?thesis
      by (auto simp: tail_step_simps)
  qed
qed simp

lemma apply_op_ops: "ops_of (snd (apply_op E now op r)) \<subseteq> insert op (ops_of r)"
proof -
  have "set (op_log (log_admitted op (r'\<lparr>st := s\<rparr>))) \<subseteq> insert op (set (op_log r'))" for r' s
    using log_admitted_subset [of op "r'\<lparr>st := s\<rparr>"] by simp
  from this [where r' = "witness_clock now (op_hlc op) (ensure_dedup r)" and s = "apply_payload E op (st r)"]
  show ?thesis
    by (auto simp: apply_op_def Let_def ops_of_def)
qed

lemma admit_in_arrival_ops: "ops_of (snd (admit_in_arrival E now op x)) \<subseteq> insert op (ops_of (snd x))"
  using apply_op_ops [of E now op "snd x"] by (simp add: admit_in_arrival_def Let_def split_beta)

lemma arrival_step_simps:
  "op_allowed E (st r) op \<Longrightarrow> arrival_step E now t (p, out, r) op = (True, admit_in_arrival E now op (out, r))"
  "\<not> op_allowed E (st r) op \<Longrightarrow> arrival_step E now t (p, out, r) op = (p, hold t op (out, r))"
  by (simp_all add: arrival_step_def)

lemma arrival_ops: "ops_of (snd (snd (foldl (arrival_step E now t) (p, out, r) cs))) \<subseteq> ops_of r \<union> set cs"
proof (induction cs arbitrary: p out r)
  case (Cons c cs)
  obtain p' out' r' where s: "arrival_step E now t (p, out, r) c = (p', out', r')"
    by (cases "arrival_step E now t (p, out, r) c")
  have "ops_of r' \<subseteq> insert c (ops_of r)"
    using s admit_in_arrival_ops [of E now c "(out, r)"] hold_ops [of t c "(out, r)"]
    by (cases "op_allowed E (st r) c") (simp_all add: arrival_step_simps)
  with Cons.IH [of p' out' r'] s show ?case by auto
qed simp

lemma retry_fold_ops: "ops_of (snd (snd (foldl (retry_step E now) (p, out, r) hs))) \<subseteq> ops_of r \<union> fst ` set hs"
proof (induction hs arbitrary: p out r)
  case (Cons h hs)
  obtain p' out' r' where s: "retry_step E now (p, out, r) h = (p', out', r')"
    by (cases "retry_step E now (p, out, r) h")
  have "ops_of r' \<subseteq> insert (fst h) (ops_of r)"
    using s admit_in_arrival_ops [of E now "fst h" "(out, r)"]
    by (cases "op_allowed E (st r) (fst h)") (auto simp: retry_step_simps)
  with Cons.IH [of p' out' r'] s show ?case by auto
qed simp

lemma retry_round_ops: "ops_of (snd (snd (retry_round E now x))) \<subseteq> ops_of (snd x)"
  using retry_fold_ops [of E now False "fst x" "(snd x)\<lparr>held := []\<rparr>" "sort_key (\<lambda>h. op_hlc (fst h)) (held (snd x))"]
  by (auto simp: retry_round_def split_beta ops_of_def)

lemma retry_held_ops: "ops_of (snd (retry_held E now x)) \<subseteq> ops_of (snd x)"
proof (induction E now x rule: retry_held.induct)
  case (1 E now x)
  show ?case
  proof (cases "held (snd x) = [] \<or> \<not> fst (retry_round E now x)")
    case True
    then show ?thesis
      using retry_round_ops [of E now x] by (subst retry_held.simps) (auto simp: Let_def)
  next
    case False
    have "retry_held E now x = retry_held E now (snd (retry_round E now x))"
      using False by (subst retry_held.simps) (simp add: Let_def)
    with "1.IH" [OF _ refl] False retry_round_ops [of E now x] show ?thesis by auto
  qed
qed

lemma apply_in_arrival_ops: "ops_of (snd (apply_in_arrival E now t fresh out r)) \<subseteq> ops_of r \<union> set fresh"
proof -
  obtain p x where f: "foldl (arrival_step E now t) (False, out, r) fresh = (p, x)"
    by (cases "foldl (arrival_step E now t) (False, out, r) fresh")
  with arrival_ops [of E now t False out r fresh] have "ops_of (snd x) \<subseteq> ops_of r \<union> set fresh" by simp
  with f retry_held_ops [of E now x] show ?thesis
    by (auto simp: apply_in_arrival_def)
qed

lemma ops_of_pin [simp]: "ops_of (r\<lparr>st := s\<rparr>) = ops_of r"
  by (simp add: ops_of_def)

lemma fold_fresh_ops: "ops_of (snd (fold_fresh E now t fresh out r)) \<subseteq> ops_of r \<union> set fresh"
proof -
  obtain en out' r' where f: "foldl (tail_step E t) (False, out, r) fresh = (en, out', r')"
    by (cases "foldl (tail_step E t) (False, out, r) fresh")
  have tail: "ops_of r' \<subseteq> ops_of r \<union> set fresh"
    using tail_ops [of E t False out r fresh] f by simp
  have "ops_of (snd (fold_in E t fresh out (r\<lparr>st := s\<rparr>))) \<subseteq> ops_of r \<union> set fresh" for s
    using fold_in_ops [of E t fresh out "r\<lparr>st := s\<rparr>"] by simp
  with fold_in_ops [of E t fresh out r] fold_in_ops [of E t "[]" out' r'] tail
    apply_in_arrival_ops [of E now t fresh out r]
  show ?thesis
    by (auto simp: fold_fresh_def f split: option.split)
qed

section \<open>What reaches the fold\<close>

definition passes :: "('a) fold_env_scheme \<Rightarrow> u64 \<Rightarrow> replica \<Rightarrow> crdt_op \<Rightarrow> bool" where
  "passes E now r op \<longleftrightarrow> stateless_check E (st r) now op = Inr ()"

definition is_known :: "replica \<Rightarrow> crdt_op \<Rightarrow> bool" where
  "is_known r op \<longleftrightarrow> op_key op \<in> op_log_dedup r
     \<or> list_ex (\<lambda>(h, _). op_author h = op_author op \<and> op_hlc h = op_hlc op) (held r)"

lemma sift_simps:
  "\<not> passes E now r op \<Longrightarrow> sift E now r (n, seen, fresh) op = (n + 1, seen, fresh)"
  "passes E now r op \<Longrightarrow> is_known r op \<or> op_key op \<in> seen \<Longrightarrow> sift E now r (n, seen, fresh) op = (n, seen, fresh)"
  "passes E now r op \<Longrightarrow> \<not> is_known r op \<Longrightarrow> op_key op \<notin> seen \<Longrightarrow>
     sift E now r (n, seen, fresh) op = (n, insert (op_key op) seen, fresh @ [op])"
  by (auto simp: sift_def passes_def is_known_def split: sum.split)

lemma sift_invariant:
  "foldl (sift E now r) (n, op_key ` set fresh, fresh) ops = (n', seen', fresh') \<Longrightarrow>
     distinct (map op_key fresh) \<Longrightarrow>
     distinct (map op_key fresh')
     \<and> n' = n + length (filter (\<lambda>op. \<not> passes E now r op) ops)
     \<and> set fresh' \<subseteq> set fresh \<union> {op \<in> set ops. passes E now r op \<and> \<not> is_known r op}
     \<and> op_key ` set fresh' = op_key ` set fresh \<union> op_key ` {op \<in> set ops. passes E now r op \<and> \<not> is_known r op}"
proof (induction ops arbitrary: n fresh)
  case (Cons op ops)
  consider (refused) "\<not> passes E now r op"
    | (known) "passes E now r op" "is_known r op"
    | (seen) "passes E now r op" "\<not> is_known r op" "op_key op \<in> op_key ` set fresh"
    | (new) "passes E now r op" "\<not> is_known r op" "op_key op \<notin> op_key ` set fresh"
    by blast
  then show ?case
  proof cases
    case refused
    with Cons.IH [of "n + 1" fresh] Cons.prems show ?thesis by (auto simp: sift_simps)
  next
    case known
    with Cons.IH [of n fresh] Cons.prems show ?thesis by (auto simp: sift_simps)
  next
    case seen
    with Cons.prems have "foldl (sift E now r) (n, op_key ` set fresh, fresh) ops = (n', seen', fresh')"
      by (simp add: sift_simps)
    from Cons.IH [OF this Cons.prems(2)] seen show ?thesis by auto
  next
    case new
    with Cons.prems have "foldl (sift E now r) (n, op_key ` set (fresh @ [op]), fresh @ [op]) ops = (n', seen', fresh')"
      by (simp add: sift_simps)
    from Cons.IH [OF this] Cons.prems(2) new show ?thesis by auto
  qed
qed simp

definition fresh_ops :: "('a) fold_env_scheme \<Rightarrow> u64 \<Rightarrow> replica \<Rightarrow> crdt_op list \<Rightarrow> crdt_op list" where
  "fresh_ops E now r ops = snd (snd (foldl (sift E now r) (0, {}, []) ops))"

lemma fresh_ops_facts:
  shows "distinct (map op_key (fresh_ops E now r ops))"
    and "set (fresh_ops E now r ops) \<subseteq> {op \<in> set ops. passes E now r op \<and> \<not> is_known r op}"
    and "op_key ` set (fresh_ops E now r ops) = op_key ` {op \<in> set ops. passes E now r op \<and> \<not> is_known r op}"
    and "fst (foldl (sift E now r) (0, {}, []) ops) = length (filter (\<lambda>op. \<not> passes E now r op) ops)"
proof -
  obtain n' seen' fresh' where f: "foldl (sift E now r) (0, {}, []) ops = (n', seen', fresh')"
    by (cases "foldl (sift E now r) (0, {}, []) ops")
  then have "foldl (sift E now r) (0, op_key ` set [], []) ops = (n', seen', fresh')" by simp
  from sift_invariant [OF this] f show "distinct (map op_key (fresh_ops E now r ops))"
    and "set (fresh_ops E now r ops) \<subseteq> {op \<in> set ops. passes E now r op \<and> \<not> is_known r op}"
    and "op_key ` set (fresh_ops E now r ops) = op_key ` {op \<in> set ops. passes E now r op \<and> \<not> is_known r op}"
    and "fst (foldl (sift E now r) (0, {}, []) ops) = length (filter (\<lambda>op. \<not> passes E now r op) ops)"
    by (simp_all add: fresh_ops_def)
qed

text \<open>The replica an ingest judges its ops against.\<close>

definition ready :: "instant \<Rightarrow> replica \<Rightarrow> replica" where
  "ready t r = expire_held t (ensure_dedup r)"

lemma ready_frame [simp]: "st (ready t r) = st r" "op_log (ready t r) = op_log r" "clock (ready t r) = clock r"
  by (simp_all add: ready_def expire_held_def)

lemma ready_fields:
  "held (ready t r) = filter (\<lambda>(_, at). t - at < HELD_TTL) (held r)"
  "op_log_dedup (ready t r) = op_log_dedup (ensure_dedup r)"
  by (simp_all add: ready_def expire_held_def)

lemma ready_held: "set (held (ready t r)) \<subseteq> set (held r)"
  by (auto simp: ready_def expire_held_def)

lemma ready_ops: "ops_of (ready t r) \<subseteq> ops_of r"
  using ready_held [of t r] by (auto simp: ops_of_def)

lemma fold_remote_eq:
  "fold_remote E now t ops r =
     (let fresh = fresh_ops E now (ready t r) ops;
          out = ingested_default\<lparr>in_rejected := length (filter (\<lambda>op. \<not> passes E now (ready t r) op) ops)\<rparr>
      in if fresh = [] then (out, ready t r)
         else fold_fresh E now t (sort_key fold_key fresh) out (ready t r))"
  using fresh_ops_facts(4) [of E now "ready t r" ops]
  by (simp add: fold_remote_def fresh_ops_def Let_def split_beta ready_def)

lemma witness_all_frame [simp]:
  "st (foldl (\<lambda>r op. witness_clock now (op_hlc op) r) r ops) = st r"
  "op_log (foldl (\<lambda>r op. witness_clock now (op_hlc op) r) r ops) = op_log r"
  "held (foldl (\<lambda>r op. witness_clock now (op_hlc op) r) r ops) = held r"
  "op_log_dedup (foldl (\<lambda>r op. witness_clock now (op_hlc op) r) r ops) = op_log_dedup r"
  by (induction ops arbitrary: r) simp_all

lemma ingest_frame [simp]:
  "st (snd (ingest_remote E now t ops r)) = st (snd (fold_remote E now t ops r))"
  "op_log (snd (ingest_remote E now t ops r)) = op_log (snd (fold_remote E now t ops r))"
  "held (snd (ingest_remote E now t ops r)) = held (snd (fold_remote E now t ops r))"
  "op_log_dedup (snd (ingest_remote E now t ops r)) = op_log_dedup (snd (fold_remote E now t ops r))"
  "fst (ingest_remote E now t ops r) = fst (fold_remote E now t ops r)"
  by (simp_all add: ingest_remote_def split_beta)

lemma fold_remote_ops:
  "ops_of (snd (fold_remote E now t ops r)) \<subseteq> ops_of r \<union> {op \<in> set ops. passes E now r op}"
proof -
  have "passes E now (ready t r) = passes E now r"
    by (simp add: fun_eq_iff passes_def)
  then have "set (fresh_ops E now (ready t r) ops) \<subseteq> {op \<in> set ops. passes E now r op}"
    using fresh_ops_facts(2) [of E now "ready t r" ops] by auto
  moreover have "ops_of (snd (fold_fresh E now t (sort_key fold_key (fresh_ops E now (ready t r) ops)) out (ready t r)))
      \<subseteq> ops_of (ready t r) \<union> set (fresh_ops E now (ready t r) ops)" for out
    using fold_fresh_ops [of E now t "sort_key fold_key (fresh_ops E now (ready t r) ops)" out "ready t r"] by simp
  ultimately show ?thesis
    using ready_ops [of t r] by (simp add: fold_remote_eq Let_def) blast
qed

lemma passes_stamped:
  assumes "passes E now r op"
  shows "op_stamped op"
proof -
  have "verify_author E op = Inr ()"
    using assms by (auto simp: passes_def stateless_check_def split: if_splits sum.splits)
  then show ?thesis
    by (auto simp: verify_author_def verify_signed_def op_stamped_def split: option.splits if_splits)
qed

lemma fold_remote_stamped:
  "\<forall>op \<in> ops_of r. op_stamped op \<Longrightarrow> \<forall>op \<in> ops_of (snd (fold_remote E now t ops r)). op_stamped op"
  using fold_remote_ops [of E now t ops r] passes_stamped by blast

section \<open>An anchored replica is the fold of its log\<close>

lemma sorted_chain:
  assumes "\<forall>op \<in> set ops. op_stamped op" and "distinct (map op_key ops)"
  shows "fold_chain (sort_key fold_key ops)"
  unfolding fold_chain_def sorted_wrt_iff_nth_less
proof (intro allI impI)
  fix i j
  let ?xs = "sort_key fold_key ops"
  assume ij: "i < j" "j < length ?xs"
  have le: "fold_key (?xs ! i) \<le> fold_key (?xs ! j)"
    using sorted_nth_mono [of "map fold_key ?xs" i j] ij by simp
  have "distinct (map op_key ?xs)"
    using assms(2) by (simp add: distinct_map)
  then have "op_key (?xs ! i) \<noteq> op_key (?xs ! j)"
    using ij by (auto simp: distinct_conv_nth)
  moreover have "op_stamped (?xs ! i)" "op_stamped (?xs ! j)"
    using assms(1) ij by (metis dual_order.strict_trans length_sort nth_mem set_sort)+
  ultimately have "is_checkpoint (op_payload (?xs ! j))" if "fold_key (?xs ! i) = fold_key (?xs ! j)"
    using that stamped_same [of "?xs ! i" "?xs ! j"] by (metis op_key_def)
  with le show "may_follow (?xs ! i) (?xs ! j)"
    unfolding may_follow_def by (cases "fold_key (?xs ! i) = fold_key (?xs ! j)") simp_all
qed

lemma tail_precedes:
  assumes "strict_log (op_log r)" and "fold_chain cs" and "cs \<noteq> []"
    and "op_log r = [] \<or> fold_key (last (op_log r)) < fold_key (hd cs)"
  shows "log_precedes r cs"
  unfolding log_precedes_def
proof (intro ballI)
  fix o1 c
  assume o1: "o1 \<in> set (op_log r)" and c: "c \<in> set cs"
  then have last: "fold_key (last (op_log r)) < fold_key (hd cs)"
    using assms(4) by auto
  have "strict_log (butlast (op_log r) @ [last (op_log r)])"
    using assms(1) o1 by (metis append_butlast_last_id empty_iff list.set(1))
  moreover have "o1 \<in> set (butlast (op_log r)) \<or> o1 = last (op_log r)"
    using o1 by (metis append_butlast_last_id empty_iff list.set(1) rotate1.simps(2) set_ConsD set_rotate1)
  ultimately have "fold_key o1 \<le> fold_key (last (op_log r))"
    by (auto simp: strict_log_append)
  also note last
  also have "fold_key (hd cs) \<le> fold_key c"
    using assms(2,3) c by (cases cs) (auto simp: fold_chain_def may_follow_def)
  finally show "may_follow o1 c"
    by (simp add: may_follow_def)
qed

lemma fold_fresh_inv:
  assumes "anchor (st r) \<noteq> Legacy" and "fold_inv E r" and "\<forall>op \<in> ops_of r \<union> set fresh. op_stamped op"
    and "fold_chain fresh" and "fresh \<noteq> []"
  shows "fold_inv E (snd (fold_fresh E now t fresh out r))"
proof (cases "op_log r = [] \<or> fold_key (last (op_log r)) < fold_key (hd fresh)")
  case False
  with assms show ?thesis
    by (simp add: fold_fresh_def fold_in_inv)
next
  case True
  obtain en out' r' where f: "foldl (tail_step E t) (False, out, r) fresh = (en, out', r')"
    by (cases "foldl (tail_step E t) (False, out, r) fresh")
  have "log_precedes r fresh"
    using assms(2,4,5) True by (intro tail_precedes) (auto simp: fold_inv_def)
  then have "fold_inv E r'"
    using tail_fold_inv [OF assms(2,4), of t False out] f by simp
  moreover have "\<forall>op \<in> ops_of r'. op_stamped op"
    using tail_ops [of E t False out r fresh] f assms(3) by auto
  ultimately show ?thesis
    using True assms(1) fold_in_inv [of r' "[]" E t out'] by (simp add: fold_fresh_def f)
qed

lemma fold_remote_inv:
  assumes "anchor (st r) \<noteq> Legacy" and "fold_inv E r" and "\<forall>op \<in> ops_of r. op_stamped op"
  shows "fold_inv E (snd (fold_remote E now t ops r))"
proof -
  let ?r = "ready t r"
  define fresh where "fresh = fresh_ops E now ?r ops"
  have stamped: "\<forall>op \<in> set fresh. op_stamped op"
    using fresh_ops_facts(2) [of E now ?r ops] passes_stamped [of E now ?r] by (auto simp: fresh_def)
  have chain: "fold_chain (sort_key fold_key fresh)"
    using stamped fresh_ops_facts(1) by (intro sorted_chain) (simp_all add: fresh_def)
  have inv: "fold_inv E ?r"
    using assms(2) fold_inv_cong [of ?r r E] by simp
  have "fold_inv E (snd (fold_fresh E now t (sort_key fold_key fresh) out ?r))" if "fresh \<noteq> []" for out
  proof -
    have "sort_key fold_key fresh \<noteq> []"
      using that by (metis length_0_conv length_sort)
    then show ?thesis
      using assms(1,3) inv chain stamped ready_ops [of t r] by (intro fold_fresh_inv) auto
  qed
  with inv show ?thesis
    by (simp add: fold_remote_eq Let_def fresh_def [symmetric])
qed

section \<open>One op per stamp\<close>

definition keys_inv :: "replica \<Rightarrow> bool" where
  "keys_inv r \<longleftrightarrow> distinct (map op_key (op_log r @ map fst (held r))) \<and> op_log_dedup r = log_keys (op_log r)"

definition log_keys_inv :: "replica \<Rightarrow> bool" where
  "log_keys_inv r \<longleftrightarrow> distinct (map op_key (op_log r)) \<and> op_log_dedup r = log_keys (op_log r)"

lemma prune_keys: "log_keys_inv r \<Longrightarrow> log_keys_inv (prune_before_checkpoint r)"
  by (simp add: log_keys_inv_def prune_before_checkpoint_def Let_def distinct_map_filter split: option.split)

lemma distinct_map_insert_at:
  "distinct (map f xs) \<Longrightarrow> f x \<notin> f ` set xs \<Longrightarrow> distinct (map f (insert_at p x xs))"
proof -
  assume *: "distinct (map f xs)" "f x \<notin> f ` set xs"
  have "mset (insert_at p x xs) = add_mset x (mset (take p xs @ drop p xs))"
    by (simp add: insert_at_def del: append_take_drop_id)
  then have "mset (insert_at p x xs) = mset (x # xs)" by simp
  then have "mset (map f (insert_at p x xs)) = mset (map f (x # xs))"
    by (simp only: mset_map)
  with * show ?thesis
    by (simp add: mset_eq_imp_distinct_iff [of "map f (insert_at p x xs)" "map f (x # xs)"])
qed

lemma admit_keys:
  assumes "log_keys_inv r" and "op_key op \<notin> log_keys (op_log r)"
  shows "log_keys_inv (admit E op r)"
proof -
  let ?r = "r\<lparr>st := apply_payload E op (st r), op_log_dedup := insert (op_key op) (op_log_dedup r),
      op_log := insert_at (insertion_point fold_key (fold_key op) (op_log r)) op (op_log r)\<rparr>"
  have "log_keys_inv ?r"
    using assms by (auto simp: log_keys_inv_def log_keys_def intro: distinct_map_insert_at)
  moreover have "distinct (map op_key (drop n (op_log ?r)))" for n
    using calculation by (simp add: log_keys_inv_def flip: drop_map)
  ultimately show ?thesis
    using prune_keys [of ?r] by (simp add: admit_def log_admitted_def Let_def log_keys_inv_def)
qed

lemma admit_log_keys: "log_keys (op_log (admit E op r)) \<subseteq> insert (op_key op) (log_keys (op_log r))"
  using log_admitted_subset [of op "r\<lparr>st := apply_payload E op (st r)\<rparr>"]
  by (auto simp: admit_def log_keys_def)

lemma disjoint_sub_insert: "A \<subseteq> insert k B \<Longrightarrow> k \<notin> C \<Longrightarrow> B \<inter> C = {} \<Longrightarrow> A \<inter> C = {}"
  by blast

lemma judge_keys:
  assumes "foldl (judge E) (r, refused) cs = (r', refused')"
    and "log_keys_inv r" and "distinct (map op_key (refused @ cs))"
    and "log_keys (op_log r) \<inter> op_key ` set (refused @ cs) = {}"
  shows "log_keys_inv r' \<and> distinct (map op_key refused') \<and> log_keys (op_log r') \<inter> op_key ` set refused' = {}"
  using assms
proof (induction cs arbitrary: r refused)
  case (Cons c cs)
  show ?case
  proof (cases "op_allowed E (st r) c")
    case True
    have "op_key c \<notin> log_keys (op_log r)"
      using Cons.prems(4) by auto
    then have "log_keys_inv (admit E c r)"
      by (rule admit_keys [OF Cons.prems(2)])
    moreover have "log_keys (op_log (admit E c r)) \<inter> op_key ` set (refused @ cs) = {}"
    proof (rule disjoint_sub_insert [OF admit_log_keys])
      show "op_key c \<notin> op_key ` set (refused @ cs)"
        using Cons.prems(3) by (simp add: image_Un)
      have "set (refused @ cs) \<subseteq> set (refused @ c # cs)" by auto
      then show "log_keys (op_log r) \<inter> op_key ` set (refused @ cs) = {}"
        using Cons.prems(4) by (meson disjoint_iff image_mono subsetD)
    qed
    moreover have "distinct (map op_key (refused @ cs))"
      using Cons.prems(3) by simp
    moreover have "foldl (judge E) (admit E c r, refused) cs = (r', refused')"
      using Cons.prems(1) True by (simp add: judge_simps)
    ultimately show ?thesis
      by (intro Cons.IH)
  next
    case False
    have "foldl (judge E) (r, refused @ [c]) cs = (r', refused')"
      using Cons.prems(1) False by (simp add: judge_simps)
    moreover have "(refused @ [c]) @ cs = refused @ c # cs" by simp
    ultimately show ?thesis
      using Cons.IH [of r "refused @ [c]"] Cons.prems(2-4) by (simp only:)
  qed
qed simp

lemma candidates_perm:
  assumes "distinct (map op_key (op_log r @ map fst (held r) @ fresh))"
  shows "set (candidates fresh r) = ops_of r \<union> set fresh" and "distinct (map op_key (candidates fresh r))"
proof -
  define xs where "xs = op_log r @ map fst (held r) @ fresh"
  have inj: "inj_on op_key (set xs)" and dist: "distinct (map op_key xs)"
    using assms by (simp_all add: distinct_map xs_def [symmetric] del: map_append)
  have all: "set xs = ops_of r \<union> set fresh"
    by (simp add: xs_def ops_of_def Un_assoc)
  have "u = v" if "u \<in> set (sort_key fold_key xs)" "v \<in> set (sort_key fold_key xs)"
    "op_author v = op_author u \<and> op_hlc v = op_hlc u" for u v
    using that inj_onD [OF inj, of u v] by (simp add: op_key_def)
  then have "set (candidates fresh r) = set (sort_key fold_key xs)"
    unfolding candidates_def xs_def [symmetric] by (rule dedup_by_set)
  then show "set (candidates fresh r) = ops_of r \<union> set fresh"
    by (simp add: all)
  have "distinct (map op_key (sort_key fold_key xs))"
    using dist by (simp add: distinct_map)
  then show "distinct (map op_key (candidates fresh r))"
    unfolding candidates_def xs_def [symmetric] by (rule dedup_by_distinct)
qed

lemma distinct_submset:
  assumes "mset xs \<subseteq># mset ys" and "distinct (map f ys)"
  shows "distinct (map f xs)"
proof -
  have "mset (map f xs) \<subseteq># mset (map f ys)"
    using assms(1) by (simp add: image_mset_subseteq_mono)
  then show ?thesis
    using assms(2) by (metis distinct_append mset_append mset_eq_imp_distinct_iff subset_mset.add_diff_inverse ex_mset)
qed

lemma mset_drop_sub: "mset (drop n xs) \<subseteq># mset xs"
  by (metis append_take_drop_id mset_append mset_subset_eq_add_right)

lemma mset_drop_filter_sub: "mset (drop n (filter P xs)) \<subseteq># mset xs"
  using mset_drop_sub [of n "filter P xs"] multiset_filter_subset [of P "mset xs"]
  by (simp add: subset_mset.order_trans)

lemma fold_in_keys:
  assumes "distinct (map op_key (op_log r @ map fst (held r) @ fresh))"
  shows "keys_inv (snd (fold_in E t fresh out r))"
proof -
  obtain r' refused where j: "foldl (judge E) (rebuilt_from r, []) (candidates fresh r) = (r', refused)"
    by (cases "foldl (judge E) (rebuilt_from r, []) (candidates fresh r)")
  have k: "log_keys_inv r'" "distinct (map op_key refused)" "log_keys (op_log r') \<inter> op_key ` set refused = {}"
    using judge_keys [OF j] candidates_perm(2) [OF assms]
    by (simp_all add: rebuilt_from_def log_keys_inv_def log_keys_def)
  define kept where "kept = filter (\<lambda>op. is_none_or (\<lambda>b. b < op_hlc op) (checkpoint_hlc (st r'))) refused"
  define waiting where "waiting = drop (length kept - HELD_CAP) kept"
  have "distinct (map op_key waiting)"
    using mset_drop_filter_sub k(2) unfolding waiting_def kept_def by (rule distinct_submset)
  moreover have "op_key ` set waiting \<subseteq> op_key ` set refused"
    unfolding waiting_def kept_def by (auto dest!: in_set_dropD)
  moreover have "map fst (held (snd (fold_in E t fresh out r))) = waiting"
    by (simp add: fold_in_def Let_def j waiting_def kept_def drop_map [symmetric] comp_def)
  moreover have "op_log (snd (fold_in E t fresh out r)) = op_log r'"
    "op_log_dedup (snd (fold_in E t fresh out r)) = op_log_dedup r'"
    by (simp_all add: fold_in_def Let_def j)
  ultimately show ?thesis
    using k(1,3) unfolding keys_inv_def log_keys_inv_def log_keys_def map_append distinct_append
    by (simp only: set_map) blast
qed

definition held_ops :: "replica \<Rightarrow> crdt_op list" where
  "held_ops r = map fst (held r)"

lemma log_admitted_mset: "mset (op_log (log_admitted op r)) \<subseteq># add_mset op (mset (op_log r))"
proof -
  define log where "log = insert_at (insertion_point fold_key (fold_key op) (op_log r)) op (op_log r)"
  have "mset log = add_mset op (mset (take p (op_log r) @ drop p (op_log r)))"
    if "p = insertion_point fold_key (fold_key op) (op_log r)" for p
    by (simp add: log_def insert_at_def that del: append_take_drop_id)
  then have log: "mset log = add_mset op (mset (op_log r))" by simp
  have "mset (filter P log) \<subseteq># mset log" for P
    by simp
  then show ?thesis
    using mset_drop_sub [of _ log]
    by (auto simp: log_admitted_def Let_def log_def [symmetric] log [symmetric] prune_before_checkpoint_def
        split: option.split)
qed

lemma admit_mset: "mset (op_log (admit E op r) @ held_ops (admit E op r)) \<subseteq># add_mset op (mset (op_log r @ held_ops r))"
  using log_admitted_mset [of op "r\<lparr>st := apply_payload E op (st r)\<rparr>"]
  by (simp add: admit_def held_ops_def subset_mset.add_mono flip: add_mset_add_single union_mset_add_mset_left)

lemma hold_mset: "mset (op_log (snd (hold t op x)) @ held_ops (snd (hold t op x))) \<subseteq># add_mset op (mset (op_log (snd x) @ held_ops (snd x)))"
proof -
  have "mset (map fst (tl (held (snd x)))) \<subseteq># mset (map fst (held (snd x)))"
    by (cases "held (snd x)") simp_all
  then show ?thesis
    by (simp add: hold_def Let_def split_beta held_ops_def)
qed

lemma tail_mset:
  "mset (op_log (snd (snd (foldl (tail_step E t) (en, out, r) cs))) @ held_ops (snd (snd (foldl (tail_step E t) (en, out, r) cs))))
     \<subseteq># mset (op_log r @ held_ops r @ cs)"
proof (induction cs arbitrary: en out r)
  case (Cons c cs)
  obtain en' out' r' where s: "tail_step E t (en, out, r) c = (en', out', r')"
    by (cases "tail_step E t (en, out, r) c")
  have "mset (op_log r' @ held_ops r') \<subseteq># add_mset c (mset (op_log r @ held_ops r))"
    using s admit_mset [of E c r] hold_mset [of t c "(out, r)"]
    by (cases "op_allowed E (st r) c") (auto simp: tail_step_simps)
  then have "mset (op_log r' @ held_ops r' @ cs) \<subseteq># mset (op_log r @ held_ops r @ c # cs)"
    by (simp add: subset_mset.add_mono flip: union_mset_add_mset_left add.assoc)
  with Cons.IH [of en' out' r'] s show ?case
    by (simp add: subset_mset.order_trans)
qed simp

lemma admit_dedup: "op_log_dedup r = log_keys (op_log r) \<Longrightarrow> op_log_dedup (admit E op r) = log_keys (op_log (admit E op r))"
  by (simp add: admit_def log_admitted_def Let_def prune_before_checkpoint_def log_keys_def split: option.split)

lemma tail_dedup:
  "op_log_dedup r = log_keys (op_log r) \<Longrightarrow>
     op_log_dedup (snd (snd (foldl (tail_step E t) (en, out, r) cs)))
       = log_keys (op_log (snd (snd (foldl (tail_step E t) (en, out, r) cs))))"
proof (induction cs arbitrary: en out r)
  case (Cons c cs)
  obtain en' out' r' where s: "tail_step E t (en, out, r) c = (en', out', r')"
    by (cases "tail_step E t (en, out, r) c")
  have "op_log_dedup r' = log_keys (op_log r')"
    using s Cons.prems admit_dedup [of r E c] hold_frame [of t c "(out, r)"]
    by (cases "op_allowed E (st r) c") (auto simp: tail_step_simps)
  with Cons.IH [of r' en' out'] s show ?case by simp
qed simp

lemma tail_keys:
  assumes "distinct (map op_key (op_log r @ map fst (held r) @ cs))" and "op_log_dedup r = log_keys (op_log r)"
  shows "keys_inv (snd (snd (foldl (tail_step E t) (en, out, r) cs)))"
  using distinct_submset [OF tail_mset [of E t en out r cs], of op_key] assms tail_dedup [of r E t en out cs]
  by (simp add: keys_inv_def held_ops_def)

lemma fold_fresh_keys:
  assumes "anchor (st r) \<noteq> Legacy" and "distinct (map op_key (op_log r @ map fst (held r) @ fresh))"
    and "op_log_dedup r = log_keys (op_log r)"
  shows "keys_inv (snd (fold_fresh E now t fresh out r))"
proof -
  obtain en out' r' where f: "foldl (tail_step E t) (False, out, r) fresh = (en, out', r')"
    by (cases "foldl (tail_step E t) (False, out, r) fresh")
  have "keys_inv r'"
    using tail_keys [OF assms(2,3), of E t False out] f by simp
  then have "keys_inv (snd (fold_in E t [] out' r'))"
    by (intro fold_in_keys) (simp add: keys_inv_def)
  with \<open>keys_inv r'\<close> fold_in_keys [OF assms(2), of E t out] assms(1) show ?thesis
    by (simp add: fold_fresh_def f)
qed

lemma ready_keys: "keys_inv r \<Longrightarrow> keys_inv (ready t r)"
proof -
  assume k: "keys_inv r"
  have "mset (op_log r @ map fst (filter P (held r))) \<subseteq># mset (op_log r @ map fst (held r))" for P
    by (simp add: image_mset_subseteq_mono)
  then have dist: "distinct (map op_key (op_log r @ map fst (filter P (held r))))" for P
    by (rule distinct_submset) (use k in \<open>simp only: keys_inv_def\<close>)
  have "op_log_dedup (ensure_dedup r) = log_keys (op_log r)"
    using k by (simp add: keys_inv_def ensure_dedup_def)
  then show ?thesis
    unfolding keys_inv_def ready_frame ready_fields using dist by (simp only: simp_thms)
qed

lemma is_known_iff: "keys_inv r \<Longrightarrow> is_known r op \<longleftrightarrow> op_key op \<in> op_key ` ops_of r"
proof -
  assume "keys_inv r"
  then have "op_log_dedup r = op_key ` set (op_log r)"
    by (simp add: keys_inv_def log_keys_def)
  moreover have "list_ex (\<lambda>(h, _). op_author h = op_author op \<and> op_hlc h = op_hlc op) hs
      \<longleftrightarrow> op_key op \<in> op_key ` fst ` set hs" for hs :: "(crdt_op \<times> instant) list"
    by (induction hs) (auto simp: op_key_def)
  ultimately show ?thesis
    by (simp only: is_known_def ops_of_def image_Un Un_iff)
qed

lemma disjoint_image: "(\<And>x. x \<in> X \<Longrightarrow> f x \<notin> A) \<Longrightarrow> A \<inter> f ` X = {}"
  by blast

lemma fresh_distinct:
  assumes "keys_inv r"
  shows "distinct (map op_key (op_log r @ map fst (held r) @ sort_key fold_key (fresh_ops E now r ops)))"
proof -
  define fresh where "fresh = fresh_ops E now r ops"
  have "op_key op \<notin> op_key ` ops_of r" if "op \<in> set fresh" for op
    using subsetD [OF fresh_ops_facts(2) that [unfolded fresh_def]] is_known_iff [OF assms, of op] by simp
  then have "op_key ` ops_of r \<inter> op_key ` set fresh = {}"
    by (rule disjoint_image)
  moreover have "set (op_log r @ map fst (held r)) = ops_of r"
    by (simp add: ops_of_def)
  moreover have "distinct (map op_key (sort_key fold_key fresh))"
    using fresh_ops_facts(1) [of E now r ops] by (simp add: distinct_map fresh_def)
  moreover have "distinct (map op_key (op_log r @ map fst (held r)))"
    using assms by (simp only: keys_inv_def)
  ultimately have "distinct (map op_key (op_log r @ map fst (held r)) @ map op_key (sort_key fold_key fresh))"
    by (simp only: distinct_append set_map set_sort)
  then show ?thesis
    by (simp add: fresh_def)
qed

lemma fold_remote_keys:
  assumes "anchor (st r) \<noteq> Legacy" and "keys_inv r"
  shows "keys_inv (snd (fold_remote E now t ops r))"
proof -
  note ready = ready_keys [OF assms(2), of t]
  have "keys_inv (snd (fold_fresh E now t (sort_key fold_key (fresh_ops E now (ready t r) ops)) out (ready t r)))" for out
  proof (rule fold_fresh_keys)
    show "anchor (st (ready t r)) \<noteq> Legacy" using assms(1) by simp
    show "distinct (map op_key (op_log (ready t r) @ map fst (held (ready t r))
        @ sort_key fold_key (fresh_ops E now (ready t r) ops)))"
      by (rule fresh_distinct [OF ready])
    show "op_log_dedup (ready t r) = log_keys (op_log (ready t r))"
      using ready by (simp only: keys_inv_def)
  qed
  with ready show ?thesis
    by (simp add: fold_remote_eq Let_def)
qed

end
