(* ===== verification/FoldAnchor.thy ===== *)
theory FoldAnchor
  imports FoldProps
begin

text \<open>
  What a replica's anchor guarantees: the pinned owner never changes, an anchored replica never falls
  back to the legacy mode, and the outcome of a rebuild depends on the set of ops alone.
\<close>

section \<open>The pin and the anchor hold\<close>

lemma allowed_checkpoint_author:
  assumes "op_allowed E s op" and "is_checkpoint (op_payload op)" and "owner_pin s = Some p"
  shows "op_author op = p"
  using assms by (auto simp: is_checkpoint_iff op_allowed_checkpoint checkpoint_allowed_def anchor_owner_def
      split: if_splits)

lemma allowed_keeps_pin:
  assumes "op_allowed E s op" and "owner_pin s = Some p"
  shows "owner_pin (apply_payload E op s) = Some p"
proof (cases "is_checkpoint (op_payload op)")
  case True
  then obtain json covers where pay: "op_payload op = ServerCheckpoint json covers"
    by (auto simp: is_checkpoint_iff)
  obtain base where "apply_payload E op s = rebase_on base (op_author op) covers s"
    using checkpoint_allowedE [OF pay assms(1)] .
  with allowed_checkpoint_author [OF assms(1) True assms(2)] show ?thesis by simp
next
  case False
  then show ?thesis using assms(2) by (rule apply_payload_pinned)
qed

text \<open>A checkpoint the owner \<open>p\<close> of the server may place, whatever the state holds.\<close>

definition owner_checkpoint :: "('a) fold_env_scheme \<Rightarrow> string \<Rightarrow> string \<Rightarrow> crdt_op \<Rightarrow> bool" where
  "owner_checkpoint E sid p op \<longleftrightarrow> op_author op = p \<and>
     (\<exists>json covers base. op_payload op = ServerCheckpoint json covers \<and> state_of_json E json = Some base
        \<and> covers \<le> op_hlc op \<and> server_id base = sid \<and> \<not> deleted base \<and> owner_entries base = [p])"

lemma admitted_owner_checkpoint:
  assumes "op_allowed E s op" and "is_checkpoint (op_payload op)" and "owner_pin s = Some p"
  shows "owner_checkpoint E (server_id s) p op"
proof -
  obtain json covers where pay: "op_payload op = ServerCheckpoint json covers"
    using assms(2) by (auto simp: is_checkpoint_iff)
  obtain base where "state_of_json E json = Some base" "covers \<le> op_hlc op" "server_id base = server_id s"
    "\<not> deleted base" "owner_entries base = [op_author op]"
    using checkpoint_allowedE [OF pay assms(1)] .
  with pay allowed_checkpoint_author [OF assms] show ?thesis
    by (auto simp: owner_checkpoint_def)
qed

lemma owner_checkpoint_allowed:
  assumes "owner_checkpoint E (server_id s) p op" and "owner_pin s = Some p" and "checkpoint_hlc s = None"
  shows "op_allowed E s op"
  using assms by (auto simp: owner_checkpoint_def op_allowed_checkpoint checkpoint_allowed_def anchor_owner_def)

lemma apply_checkpoint_hlc:
  assumes "op_allowed E s op" and "is_checkpoint (op_payload op) \<or> checkpoint_hlc s \<noteq> None"
  shows "checkpoint_hlc (apply_payload E op s) \<noteq> None"
proof (cases "is_checkpoint (op_payload op)")
  case True
  then obtain json covers where pay: "op_payload op = ServerCheckpoint json covers"
    by (auto simp: is_checkpoint_iff)
  obtain base where "apply_payload E op s = rebase_on base (op_author op) covers s"
    using checkpoint_allowedE [OF pay assms(1)] .
  then show ?thesis by simp
qed (use assms(2) in \<open>simp add: apply_payload_checkpoint_hlc\<close>)

lemma judged_checkpoint_in_log:
  assumes "owner_pin s = Some p" and "checkpoint_hlc s = None"
    and "checkpoint_hlc (foldl (judged_step E) s log) \<noteq> None"
  shows "\<exists>c \<in> set log. owner_checkpoint E (server_id s) p c"
  using assms
proof (induction log arbitrary: s)
  case (Cons c log)
  show ?case
  proof (cases "op_allowed E s c \<and> is_checkpoint (op_payload c)")
    case True
    with admitted_owner_checkpoint Cons.prems(1) show ?thesis by fastforce
  next
    case False
    have "owner_pin (judged_step E s c) = Some p"
      using Cons.prems(1) by (simp add: judged_step_def allowed_keeps_pin)
    moreover have "checkpoint_hlc (judged_step E s c) = None"
      using Cons.prems(2) False by (auto simp: judged_step_def apply_payload_checkpoint_hlc)
    ultimately show ?thesis
      using Cons.IH [of "judged_step E s c"] Cons.prems(3) by auto
  qed
qed simp

lemma judge_stays_anchored:
  assumes "owner_pin (st r) = Some p" and "server_id (st r) = sid"
    and "(\<exists>c \<in> set cs. owner_checkpoint E sid p c) \<or> checkpoint_hlc (st r) \<noteq> None"
  shows "checkpoint_hlc (st (fst (foldl (judge E) (r, refused) cs))) \<noteq> None"
  using assms
proof (induction cs arbitrary: r refused)
  case (Cons c cs)
  show ?case
  proof (cases "op_allowed E (st r) c")
    case True
    have "owner_pin (st (admit E c r)) = Some p" "server_id (st (admit E c r)) = sid"
      using True Cons.prems(1,2) by (simp_all add: allowed_keeps_pin)
    moreover have "(\<exists>c \<in> set cs. owner_checkpoint E sid p c) \<or> checkpoint_hlc (st (admit E c r)) \<noteq> None"
      using Cons.prems(3) apply_checkpoint_hlc [OF True]
      by (auto simp: owner_checkpoint_def is_checkpoint_iff)
    ultimately show ?thesis
      using Cons.IH [of "admit E c r"] True by (simp add: judge_simps)
  next
    case False
    have "\<not> owner_checkpoint E sid p c \<or> checkpoint_hlc (st r) \<noteq> None"
      using False owner_checkpoint_allowed [of E "st r" p c] Cons.prems(1,2) by auto
    then have "(\<exists>c \<in> set cs. owner_checkpoint E sid p c) \<or> checkpoint_hlc (st r) \<noteq> None"
      using Cons.prems(3) by auto
    with Cons.IH [of r "refused @ [c]"] Cons.prems(1,2) False show ?thesis
      by (simp add: judge_simps)
  qed
qed simp

lemma judge_server_id: "server_id (st (fst (foldl (judge E) (r, refused) cs))) = server_id (st r)"
proof (induction cs arbitrary: r refused)
  case (Cons c cs)
  then show ?case
    by (cases "op_allowed E (st r) c") (simp_all add: judge_simps)
qed simp

lemma fold_in_st: "st (snd (fold_in E t fresh out r)) = st (fst (foldl (judge E) (rebuilt_from r, []) (candidates fresh r)))"
  by (simp add: fold_in_def Let_def split_beta)

lemma fold_in_server_id [simp]: "server_id (st (snd (fold_in E t fresh out r))) = server_id (st r)"
  by (simp add: fold_in_st judge_server_id rebuilt_from_def)

lemma fold_in_anchored:
  assumes inv: "fold_inv E r" and anchored: "anchor (st r) \<noteq> Legacy"
    and dist: "distinct (map op_key (op_log r @ map fst (held r) @ fresh))"
  shows "anchor (st (snd (fold_in E t fresh out r))) \<noteq> Legacy"
proof (cases "is_genesis_id (server_id (st r))")
  case True
  then show ?thesis by (simp add: anchor_Legacy)
next
  case False
  then have cp: "checkpoint_hlc (st r) \<noteq> None"
    using anchored by (simp add: anchor_Legacy)
  have co: "foldl (judged_step E) (reset_materialized (st r)) (op_log r) = st r"
    using inv anchored by (simp add: fold_inv_def coherent_def judged_def)
  obtain p where p: "owner_pin (st r) = Some p"
  proof (cases "owner_pin (st r)")
    case None
    then have "op_log r = []" using inv by (simp add: fold_inv_def seated_def)
    then have "reset_materialized (st r) = st r" using co by simp
    then have "checkpoint_hlc (st r) = None" by (metis reset_frame(4))
    with cp show ?thesis by simp
  qed (use that in blast)
  have "\<exists>c \<in> set (op_log r). owner_checkpoint E (server_id (st r)) p c"
    using judged_checkpoint_in_log [of "reset_materialized (st r)" p E "op_log r"] p cp co by simp
  then have "\<exists>c \<in> set (candidates fresh r). owner_checkpoint E (server_id (st r)) p c"
    using candidates_perm(1) [OF dist] by (auto simp: ops_of_def)
  then have "checkpoint_hlc (st (snd (fold_in E t fresh out r))) \<noteq> None"
    unfolding fold_in_st using p by (intro judge_stays_anchored) (auto simp: rebuilt_from_def)
  then show ?thesis by (simp add: anchor_Legacy)
qed

lemma tail_anchored:
  "anchor (st r) \<noteq> Legacy \<Longrightarrow> anchor (st (snd (snd (foldl (tail_step E t) (en, out, r) cs)))) \<noteq> Legacy"
proof (induction cs arbitrary: en out r)
  case (Cons c cs)
  obtain en' out' r' where s: "tail_step E t (en, out, r) c = (en', out', r')"
    by (cases "tail_step E t (en, out, r) c")
  have "anchor (st r') \<noteq> Legacy"
  proof (cases "op_allowed E (st r) c")
    case True
    with s Cons.prems apply_checkpoint_hlc [OF True] show ?thesis
      by (auto simp: tail_step_simps anchor_Legacy)
  next
    case False
    with s hold_frame(1) [of t c "(out, r)"] Cons.prems show ?thesis
      by (simp add: tail_step_simps)
  qed
  with Cons.IH [of r' en' out'] s show ?case by simp
qed simp

text \<open>Everything an anchored replica keeps between ingests.\<close>

definition anchored_inv :: "('a) fold_env_scheme \<Rightarrow> replica \<Rightarrow> bool" where
  "anchored_inv E r \<longleftrightarrow> anchor (st r) \<noteq> Legacy \<and> fold_inv E r \<and> keys_inv r \<and> (\<forall>op \<in> ops_of r. op_stamped op)"

lemma fold_fresh_anchored:
  assumes "anchor (st r) \<noteq> Legacy" and "fold_inv E r" and "\<forall>op \<in> ops_of r \<union> set fresh. op_stamped op"
    and "fold_chain fresh" and "fresh \<noteq> []"
    and "distinct (map op_key (op_log r @ map fst (held r) @ fresh))" and "op_log_dedup r = log_keys (op_log r)"
  shows "anchor (st (snd (fold_fresh E now t fresh out r))) \<noteq> Legacy"
proof (cases "op_log r = [] \<or> fold_key (last (op_log r)) < fold_key (hd fresh)")
  case False
  with assms show ?thesis
    by (simp add: fold_fresh_def fold_in_anchored)
next
  case True
  obtain en out' r' where f: "foldl (tail_step E t) (False, out, r) fresh = (en, out', r')"
    by (cases "foldl (tail_step E t) (False, out, r) fresh")
  have anch: "anchor (st r') \<noteq> Legacy"
    using tail_anchored [OF assms(1), of E t False out fresh] f by simp
  have "log_precedes r fresh"
    using assms(2,4,5) True by (intro tail_precedes) (auto simp: fold_inv_def)
  then have "fold_inv E r'"
    using tail_fold_inv [OF assms(2,4), of t False out] f by simp
  moreover have "keys_inv r'"
    using tail_keys [OF assms(6,7), of E t False out] f by simp
  ultimately have "anchor (st (snd (fold_in E t [] out' r'))) \<noteq> Legacy"
    using anch by (intro fold_in_anchored) (simp_all add: keys_inv_def)
  with anch True assms(1) show ?thesis
    by (simp add: fold_fresh_def f)
qed

lemma fold_remote_anchored:
  assumes "anchored_inv E r"
  shows "anchor (st (snd (fold_remote E now t ops r))) \<noteq> Legacy"
proof -
  let ?r = "ready t r"
  define fresh where "fresh = fresh_ops E now ?r ops"
  have stamped: "\<forall>op \<in> set fresh. op_stamped op"
    using fresh_ops_facts(2) [of E now ?r ops] passes_stamped [of E now ?r] by (auto simp: fresh_def)
  have chain: "fold_chain (sort_key fold_key fresh)"
    using stamped fresh_ops_facts(1) by (intro sorted_chain) (simp_all add: fresh_def)
  have keys: "keys_inv ?r"
    using assms by (simp add: anchored_inv_def ready_keys)
  have "anchor (st (snd (fold_fresh E now t (sort_key fold_key fresh) out ?r))) \<noteq> Legacy" if "fresh \<noteq> []" for out
  proof (rule fold_fresh_anchored [OF _ _ _ chain])
    show "anchor (st ?r) \<noteq> Legacy" and "fold_inv E ?r"
      using assms fold_inv_cong [of ?r r E] by (simp_all add: anchored_inv_def)
    show "\<forall>op \<in> ops_of ?r \<union> set (sort_key fold_key fresh). op_stamped op"
      using assms stamped ready_ops [of t r] by (auto simp: anchored_inv_def)
    show "sort_key fold_key fresh \<noteq> []"
      using that by (metis length_0_conv length_sort)
    show "distinct (map op_key (op_log ?r @ map fst (held ?r) @ sort_key fold_key fresh))"
      unfolding fresh_def by (rule fresh_distinct [OF keys])
    show "op_log_dedup ?r = log_keys (op_log ?r)"
      using keys by (simp only: keys_inv_def)
  qed
  moreover have "anchor (st r) \<noteq> Legacy"
    using assms by (simp add: anchored_inv_def)
  ultimately show ?thesis
    by (simp add: fold_remote_eq Let_def fresh_def [symmetric])
qed

lemma ingest_anchored_inv:
  assumes "anchored_inv E r"
  shows "anchored_inv E (snd (ingest_remote E now t ops r))"
proof -
  let ?f = "snd (fold_remote E now t ops r)" and ?i = "snd (ingest_remote E now t ops r)"
  have "anchored_inv E ?f"
    using assms fold_remote_anchored [OF assms] fold_remote_inv [of r E] fold_remote_keys [of r]
      fold_remote_stamped [of r E now t ops]
    by (simp add: anchored_inv_def)
  then show ?thesis
    using fold_inv_cong [of ?i ?f E] by (simp add: anchored_inv_def keys_inv_def ops_of_def)
qed

section \<open>The outcome of a rebuild\<close>

lemma admit_log_cong:
  "st r = st r' \<Longrightarrow> op_log r = op_log r' \<Longrightarrow> op_log (admit E op r) = op_log (admit E op r')"
  by (simp add: admit_def log_admitted_def Let_def prune_before_checkpoint_def split: option.split)

lemma judge_cong:
  "st r = st r' \<Longrightarrow> op_log r = op_log r' \<Longrightarrow>
     st (fst (foldl (judge E) (r, refused) cs)) = st (fst (foldl (judge E) (r', refused) cs))
     \<and> op_log (fst (foldl (judge E) (r, refused) cs)) = op_log (fst (foldl (judge E) (r', refused) cs))
     \<and> snd (foldl (judge E) (r, refused) cs) = snd (foldl (judge E) (r', refused) cs)"
proof (induction cs arbitrary: r r' refused)
  case (Cons c cs)
  show ?case
  proof (cases "op_allowed E (st r) c")
    case True
    with Cons.IH [of "admit E c r" "admit E c r'" refused] Cons.prems admit_log_cong [of r r' E c] show ?thesis
      by (simp add: judge_simps)
  next
    case False
    with Cons.IH [of r r' "refused @ [c]"] Cons.prems show ?thesis
      by (simp add: judge_simps)
  qed
qed simp

lemma candidates_strict:
  assumes "inj_on fold_key (ops_of r \<union> set fresh)"
  shows "strict_log (candidates fresh r)"
proof -
  have "sorted_wrt (\<lambda>a b. fold_key a < fold_key b \<or> fold_key a = fold_key b \<and> False) (candidates fresh r)"
    unfolding candidates_def
  proof (rule dedup_by_strict)
    fix u v
    assume "u \<in> set (sort_key fold_key (op_log r @ map fst (held r) @ fresh))"
      "v \<in> set (sort_key fold_key (op_log r @ map fst (held r) @ fresh))" "fold_key u = fold_key v"
    then have "u = v" using assms by (auto simp: ops_of_def inj_on_def)
    then show "op_author v = op_author u \<and> op_hlc v = op_hlc u" by simp
  qed simp
  then show ?thesis by (simp add: strict_log_def)
qed

lemma candidates_same:
  assumes "ops_of r \<union> set fresh = ops_of r' \<union> set fresh'"
    and "inj_on fold_key (ops_of r \<union> set fresh)" and "inj_on op_key (ops_of r \<union> set fresh)"
  shows "candidates fresh r = candidates fresh' r'"
proof -
  have all: "set (candidates fr x) = ops_of x \<union> set fr" if inj: "inj_on op_key (ops_of x \<union> set fr)" for fr x
  proof -
    have "set (candidates fr x) = set (sort_key fold_key (op_log x @ map fst (held x) @ fr))"
      unfolding candidates_def
    proof (rule dedup_by_set)
      fix u v
      assume "u \<in> set (sort_key fold_key (op_log x @ map fst (held x) @ fr))"
        "v \<in> set (sort_key fold_key (op_log x @ map fst (held x) @ fr))"
        "op_author v = op_author u \<and> op_hlc v = op_hlc u"
      then show "u = v" using inj by (auto simp: ops_of_def inj_on_def op_key_def)
    qed
    then show ?thesis by (simp add: ops_of_def Un_assoc)
  qed
  have "strict_log (candidates fresh r)" "strict_log (candidates fresh' r')"
    using candidates_strict assms(1,2) by auto
  then show ?thesis
    unfolding strict_log_def using all [of r fresh] all [of r' fresh'] assms(1,3)
    by (intro strict_sorted_unique) auto
qed

end
