(* ===== verification/Founding.thy ===== *)
theory Founding
  imports FoldAnchor
begin

text \<open>
  Authoring an op and founding a server: the stamp search of \<open>create_op\<close> ends on an unused stamp, and
  \<open>found_on\<close> yields an anchored replica whose only op its own rule admits. Also a sample instance of the
  parameters, used to instantiate the theorems.
\<close>

section \<open>Fresh stamps\<close>

fun tick_n :: "(nat \<Rightarrow> u64) \<Rightarrow> nat \<Rightarrow> nat \<Rightarrow> hlc \<Rightarrow> hlc" where
  "tick_n walls i 0 c = c"
| "tick_n walls i (Suc n) c = tick_n walls (Suc i) n (snd (now_at c (walls i)))"

lemma tick_n_room: "has_room (tick_n walls i n c) \<Longrightarrow> has_room c"
  by (induction n arbitrary: i c) (auto dest: has_room_now_at)

lemma fresh_stamp_returns_aux:
  assumes "finite {ts. used ts}"
  shows "card {ts. used ts \<and> reading (latest c) < reading ts} \<le> n \<Longrightarrow> has_room (tick_n walls i (Suc n) c) \<Longrightarrow>
     \<exists>ts c'. fresh_stamp used walls i c = Some (ts, c') \<and> \<not> used ts \<and> reading (latest c) < reading ts
       \<and> actor ts = hlc_actor c \<and> latest c' = ts \<and> hlc_actor c' = hlc_actor c"
proof (induction n arbitrary: i c)
  case 0
  have room: "has_room c"
    using 0(2) by (rule tick_n_room)
  let ?ts = "fst (now_at c (walls i))"
  have fin: "finite {ts. used ts \<and> reading (latest c) < reading ts}"
    using assms by (rule rev_finite_subset) auto
  have "\<not> used ?ts"
    using 0(1) fin now_at_greater [OF room, of "walls i"] by auto
  then show ?case
    using now_at_greater [OF room, of "walls i"] now_at_latest [of c "walls i"] now_at_frame(1,4) [of c "walls i"]
    by (subst fresh_stamp.simps) (auto simp: prod_eq_iff)
next
  case (Suc n)
  have room: "has_room c"
    using Suc.prems(2) by (rule tick_n_room)
  let ?ts = "fst (now_at c (walls i))" and ?c = "snd (now_at c (walls i))"
  note greater = now_at_greater [OF room, of "walls i"]
  show ?case
  proof (cases "used ?ts")
    case False
    then show ?thesis
      using greater now_at_latest [of c "walls i"] now_at_frame(1,4) [of c "walls i"]
      by (subst fresh_stamp.simps) (auto simp: prod_eq_iff)
  next
    case True
    have fin: "finite {ts. used ts \<and> reading (latest c) < reading ts}"
      using assms by (rule rev_finite_subset) auto
    have "{ts. used ts \<and> reading (latest ?c) < reading ts} \<subset> {ts. used ts \<and> reading (latest c) < reading ts}"
      using greater True by auto
    from psubset_card_mono [OF fin this] Suc.prems(1)
    have "card {ts. used ts \<and> reading (latest ?c) < reading ts} \<le> n" by simp
    moreover have "has_room (tick_n walls (Suc i) (Suc n) ?c)"
      using Suc.prems(2) by simp
    ultimately obtain ts c' where "fresh_stamp used walls (Suc i) ?c = Some (ts, c')" "\<not> used ts"
      "reading (latest ?c) < reading ts" "actor ts = hlc_actor ?c" "latest c' = ts" "hlc_actor c' = hlc_actor ?c"
      using Suc.IH [of ?c "Suc i"] by blast
    then show ?thesis
      using True greater by (subst fresh_stamp.simps) auto
  qed
qed

lemma fresh_stamp_returns:
  assumes "finite {ts. used ts}" and "has_room (tick_n walls i (Suc (card {ts. used ts})) c)"
  shows "\<exists>ts c'. fresh_stamp used walls i c = Some (ts, c') \<and> \<not> used ts \<and> reading (latest c) < reading ts
       \<and> actor ts = hlc_actor c \<and> latest c' = ts \<and> hlc_actor c' = hlc_actor c"
  by (rule fresh_stamp_returns_aux [OF assms(1) card_mono [OF assms(1)] assms(2)]) auto

lemma stamp_used_finite:
  assumes "finite (op_log_dedup r)"
  shows "finite {ts. stamp_used r who ts}"
proof -
  have "{ts. stamp_used r who ts} \<subseteq> snd ` op_log_dedup r \<union> (op_hlc \<circ> fst) ` set (held r)"
    by (force simp: stamp_used_def list_ex_iff)
  moreover have "finite (snd ` op_log_dedup r \<union> (op_hlc \<circ> fst) ` set (held r))"
    using assms by simp
  ultimately show ?thesis by (rule finite_subset)
qed

lemma op_sign_frame [simp]:
  "op_server_id (op_sign E kp pk op) = op_server_id op" "op_hlc (op_sign E kp pk op) = op_hlc op"
  "op_author (op_sign E kp pk op) = op_author op" "op_payload (op_sign E kp pk op) = op_payload op"
  by (simp_all add: op_sign_def Let_def)

lemma op_key_sign [simp]: "op_key (op_sign E kp pk op) = op_key op"
  by (simp add: op_key_def)

lemma stamp_used_iff: "stamp_used r who ts \<longleftrightarrow> (who, ts) \<in> op_log_dedup r \<union> op_key ` fst ` set (held r)"
proof -
  have "list_ex (\<lambda>(h, _). op_author h = who \<and> op_hlc h = ts) hs \<longleftrightarrow> (who, ts) \<in> op_key ` fst ` set hs"
    for hs :: "(crdt_op \<times> instant) list"
    by (induction hs) (auto simp: op_key_def)
  then show ?thesis by (simp only: stamp_used_def Un_iff)
qed

text \<open>The op \<open>create_op\<close> signs, when its clock has room for every stamp already used.\<close>

lemma create_op_returns:
  assumes "clock r = Some c" and "signer r = Some (kp, pk)"
    and "finite (op_log_dedup (ensure_dedup r))"
    and "has_room (tick_n walls 0 (Suc (card {ts. stamp_used (ensure_dedup r) (hlc_actor c) ts})) c)"
  shows "\<exists>ts c'. create_op E walls payload r =
      Some (op_sign E kp pk \<lparr>op_server_id = server_id (st r), op_hlc = ts, op_author = hlc_actor c,
              op_payload = payload, op_auth = None\<rparr>, (ensure_dedup r)\<lparr>clock := Some c'\<rparr>)
    \<and> (hlc_actor c, ts) \<notin> op_log_dedup (ensure_dedup r) \<union> op_key ` fst ` set (held r)
    \<and> latest c < ts \<and> actor ts = hlc_actor c \<and> latest c' = ts"
proof -
  obtain ts c' where f: "fresh_stamp (stamp_used (ensure_dedup r) (hlc_actor c)) walls 0 c = Some (ts, c')"
    "\<not> stamp_used (ensure_dedup r) (hlc_actor c) ts" "reading (latest c) < reading ts" "actor ts = hlc_actor c"
    "latest c' = ts"
    using fresh_stamp_returns [OF stamp_used_finite [OF assms(3)] assms(4)] by blast
  have "create_op E walls payload r =
      Some (op_sign E kp pk \<lparr>op_server_id = server_id (st r), op_hlc = ts, op_author = hlc_actor c,
              op_payload = payload, op_auth = None\<rparr>, (ensure_dedup r)\<lparr>clock := Some c'\<rparr>)"
    using assms(1,2) f(1) by (simp add: create_op_def Let_def)
  moreover have "(hlc_actor c, ts) \<notin> op_log_dedup (ensure_dedup r) \<union> op_key ` fst ` set (held r)"
    using f(2) by (simp add: stamp_used_iff)
  ultimately show ?thesis
    using reading_less [OF f(3)] f(4,5) by blast
qed

section \<open>Founding\<close>

lemma found_on_result:
  fixes random :: bytes and ow :: string
  assumes "encoding_laws E"
  defines "nonce \<equiv> new_nonce E random"
  defines "sid \<equiv> derive_server_id E ow nonce"
  obtains r op where "found_on E random w0 walls w1 nm ow device kp pk = Some (r, op)"
    and "op_payload op = ServerCreated nm ow nonce" and "op_author op = ow" and "op_stamped op"
    and "op_server_id op = sid" and "op_allowed E (skeleton sid) op"
    and "st r = apply_payload E op (skeleton sid)" and "op_log r = [op]" and "held r = []"
    and "op_log_dedup r = {op_key op}" and "signer r = Some (kp, pk)"
    and "op = op_sign E kp pk (op\<lparr>op_auth := None\<rparr>)"
    and "op_hlc op = fst (now_at (for_device (sha256 E) ow device w0) (walls 0))"
proof -
  define r0 where "r0 = set_signer kp pk (set_hlc w0 (for_device (sha256 E) ow device w0) (replica_of (skeleton sid)))"
  define c where "c = for_device (sha256 E) ow device w0"
  have r0: "st r0 = skeleton sid" "op_log r0 = []" "held r0 = []" "op_log_dedup r0 = {}" "clock r0 = Some c"
    "signer r0 = Some (kp, pk)"
    by (simp_all add: r0_def set_signer_def set_hlc_def witness_retained_def replica_of_def Let_def c_def)
  have ens: "ensure_dedup r0 = r0"
    by (simp add: ensure_dedup_def r0)
  have act: "hlc_actor c = ow"
    by (simp add: c_def for_device_def seeded_def)
  have sk: "server_id (skeleton x) = x" "checkpoint_hlc (skeleton x) = None" "roles (skeleton x) = []" for x
    by (simp_all add: skeleton_def)
  obtain ts c' where tick: "now_at c (walls 0) = (ts, c')" by (cases "now_at c (walls 0)")
  have ts: "actor ts = ow"
    using now_at_frame(4) [of c "walls 0"] tick act by simp
  define op where "op = op_sign E kp pk \<lparr>op_server_id = sid, op_hlc = ts, op_author = ow,
      op_payload = ServerCreated nm ow nonce, op_auth = None\<rparr>"
  have "fresh_stamp (stamp_used r0 ow) walls 0 c = Some (ts, c')"
    by (subst fresh_stamp.simps) (simp add: tick stamp_used_def r0)
  then have create: "create_op E walls (ServerCreated nm ow nonce) r0 = Some (op, r0\<lparr>clock := Some c'\<rparr>)"
    by (simp add: create_op_def ens r0 act sk op_def Let_def)
  have genesis: "is_genesis_id sid"
    unfolding sid_def by (rule derive_server_id_genesis [OF assms(1)])
  have op: "op_payload op = ServerCreated nm ow nonce" "op_author op = ow" "op_stamped op" "op_server_id op = sid"
    by (simp_all add: op_def op_stamped_def ts)
  have allowed: "op_allowed E (skeleton sid) op"
    using genesis sid_def by (simp add: op_allowed_founding [OF op(1)] founding_allowed_def op(2) sk)
  define r where "r = snd (apply_op E w1 op (r0\<lparr>clock := Some c'\<rparr>))"
  have anch: "anchor (apply_payload E op (skeleton sid)) \<noteq> Legacy"
    using genesis by (simp add: anchor_Legacy sk)
  have ens': "ensure_dedup (r0\<lparr>clock := Some c'\<rparr>) = r0\<lparr>clock := Some c'\<rparr>"
    by (simp add: ensure_dedup_def r0)
  have pos: "insertion_point fold_key k [] = 0" for k
    by (simp add: insertion_point_def binary_search_def)
  have nck: "\<not> is_checkpoint (op_payload op)"
    by (simp add: op is_checkpoint_def)
  have r: "st r = apply_payload E op (skeleton sid)" "op_log r = [op]" "held r = []" "op_log_dedup r = {op_key op}"
    "signer r = Some (kp, pk)"
    using anch nck
    by (simp_all add: r_def apply_op_def ens' r0 op sk Let_def log_admitted_def pos insert_at_def witness_clock_def)
  have "found_on E random w0 walls w1 nm ow device kp pk = Some (r, op)"
    using create by (simp add: found_on_def Let_def r0_def [symmetric] nonce_def [symmetric] sid_def [symmetric] r_def)
  moreover have "op = op_sign E kp pk (op\<lparr>op_auth := None\<rparr>)"
    by (simp add: op_def op_sign_def Let_def signing_payload_def)
  moreover have "op_hlc op = fst (now_at (for_device (sha256 E) ow device w0) (walls 0))"
    using tick by (simp add: op_def c_def)
  ultimately show thesis
    using op allowed r by (intro that)
qed

lemma fold_inv_skeleton: "fold_inv E (replica_of (skeleton sid))"
  by (simp add: fold_inv_def replica_of_def strict_log_def seated_def log_covered_def coherent_def judged_def
      reset_materialized_def skeleton_def)

lemma founded_anchored:
  assumes "is_genesis_id sid" and "op_payload op = ServerCreated nm ow nonce" and "op_stamped op"
    and "op_allowed E (skeleton sid) op" and "st r = apply_payload E op (skeleton sid)" and "op_log r = [op]"
    and "held r = []" and "op_log_dedup r = {op_key op}"
  shows "anchored_inv E r"
proof -
  let ?r = "replica_of (skeleton sid)"
  have r: "st ?r = skeleton sid" "op_log ?r = []" "server_id (skeleton sid) = sid"
    by (simp_all add: replica_of_def skeleton_def)
  have anchored: "anchor (st ?r) \<noteq> Legacy" and anchored': "anchor (st r) \<noteq> Legacy"
    using assms(1,5) by (simp_all add: anchor_Legacy r)
  have plain: "\<not> is_checkpoint (op_payload op)"
    using assms(2) by (simp add: is_checkpoint_def)
  obtain n where "op_log (admit E op ?r) = drop n (op_log ?r @ [op])" "anchor (st ?r) \<noteq> Legacy \<longrightarrow> n = 0"
    by (rule log_admit_plain [of ?r op E]) (simp_all add: r plain)
  then have log: "op_log (admit E op ?r) = [op]"
    using anchored by (simp add: r)
  have "fold_inv E (admit E op ?r)"
    using admit_inv [OF fold_inv_skeleton, of E sid op] assms(4) by (simp add: r)
  then have "fold_inv E r"
    using fold_inv_cong [of r "admit E op ?r" E] assms(5,6) log by (simp add: r)
  with anchored' assms(3,6-8) show ?thesis
    by (simp add: anchored_inv_def keys_inv_def log_keys_def ops_of_def)
qed

section \<open>A sample instance of the parameters\<close>

text \<open>The sample primitives, with credentials that never verify and a state reader that returns \<open>base\<close>.\<close>

definition sample_cred_env :: cred_env where
  "sample_cred_env = env.extend sample_env
     (cred_env.fields (\<lambda>_. Inl []) (\<lambda>_ _ _. False) [] (\<lambda>_. []) (\<lambda>_. None) (\<lambda>_. None) (\<lambda>_. []))"

definition sample_fold_env :: "server_state option \<Rightarrow> fold_env" where
  "sample_fold_env base = cred_env.extend sample_cred_env
     (fold_env.fields (\<lambda>_. []) (\<lambda>_. base) (\<lambda>_. None) None)"

lemma sample_fold_env_simps [simp]:
  "sha256 (sample_fold_env b) = sha256 sample_env" "hex_encode (sample_fold_env b) = hex_encode sample_env"
  "b64_encode (sample_fold_env b) = b64_encode sample_env" "b64_decode (sample_fold_env b) = b64_decode sample_env"
  "b64url_encode (sample_fold_env b) = b64url_encode sample_env" "b64url_decode (sample_fold_env b) = b64url_decode sample_env"
  "bs58_decode (sample_fold_env b) = bs58_decode sample_env"
  "bs58_encode (sample_fold_env b) = bs58_encode sample_env" "ed_public (sample_fold_env b) = ed_public sample_env"
  "ed_sign (sample_fold_env b) = ed_sign sample_env" "ed_key_error (sample_fold_env b) = ed_key_error sample_env"
  "ed_verify_strict (sample_fold_env b) = ed_verify_strict sample_env"
  "state_of_json (sample_fold_env b) = (\<lambda>_. b)" "identity_resolver (sample_fold_env b) = None"
  by (simp_all add: sample_fold_env_def sample_cred_env_def crypto.defs env.defs cred_env.defs fold_env.defs)

lemma sample_fold_env_laws: "encoding_laws (sample_fold_env b)" "signature_laws (sample_fold_env b)"
  using sample_env_laws(1,2) unfolding encoding_laws_def signature_laws_def sample_fold_env_simps by this+

lemma sample_json_wf: "json_wf (sample_fold_env None)"
  by (simp add: json_wf_def)

text \<open>The founder's keypair, its replica and the founding op.\<close>

definition sample_founder :: native_keypair where
  "sample_founder = from_secret_bytes (sample_fold_env None) (sample_key (CHR ''k''))"

definition sample_pk :: string where
  "sample_pk = b64_encode (sample_fold_env None) (public_key_protobuf (sample_fold_env None) sample_founder)"

definition sample_replica :: replica where
  "sample_replica = fst (the (found_on (sample_fold_env None) ''random'' 50 (\<lambda>_. 100) 100 ''club''
     (peer_id sample_founder) ''phone'' sample_founder sample_pk))"

lemma sample_founded:
  obtains op where "anchored_inv (sample_fold_env None) sample_replica" and "op_log sample_replica = [op]"
    and "op_author op = peer_id sample_founder"
    and "st sample_replica = seed_founder ''club'' (peer_id sample_founder) (op_hlc op) (skeleton (op_server_id op))"
    and "held sample_replica = []" and "is_genesis_id (op_server_id op)"
    and "found_on (sample_fold_env None) ''random'' 50 (\<lambda>_. 100) 100 ''club'' (peer_id sample_founder)
      ''phone'' sample_founder sample_pk = Some (sample_replica, op)"
    and "physical_ms (op_hlc op) = 100" and "\<not> is_checkpoint (op_payload op)"
proof (rule found_on_result [where random = "''random''" and ow = "peer_id sample_founder" and ?w0.0 = 50
      and walls = "\<lambda>_. 100" and ?w1.0 = 100 and nm = "''club''" and device = "''phone''" and kp = sample_founder
      and pk = sample_pk, OF sample_fold_env_laws(1) [of None]])
  let ?E = "sample_fold_env None"
  let ?sid = "derive_server_id ?E (peer_id sample_founder) (new_nonce ?E ''random'')"
  fix r op
  assume f: "found_on ?E ''random'' 50 (\<lambda>_. 100) 100 ''club''
      (peer_id sample_founder) ''phone'' sample_founder sample_pk = Some (r, op)"
    and op: "op_payload op = ServerCreated ''club'' (peer_id sample_founder) (new_nonce ?E ''random'')"
      "op_author op = peer_id sample_founder" "op_stamped op" "op_server_id op = ?sid" "op_allowed ?E (skeleton ?sid) op"
    and r: "st r = apply_payload ?E op (skeleton ?sid)" "op_log r = [op]" "held r = []" "op_log_dedup r = {op_key op}"
    and stamp: "op_hlc op = fst (now_at (for_device (sha256 ?E) (peer_id sample_founder) ''phone'' 50) 100)"
  have sr: "sample_replica = r"
    by (simp only: sample_replica_def f option.sel fst_conv)
  have genesis: "is_genesis_id ?sid"
    by (rule derive_server_id_genesis [OF sample_fold_env_laws(1)])
  have "anchored_inv ?E r"
    by (rule founded_anchored [OF genesis op(1,3,5) r])
  moreover have "apply_payload ?E op s = seed_founder ''club'' (peer_id sample_founder) (op_hlc op) s"
    if "roles s = []" for s
    using op(1) that by (simp add: apply_payload_def apply_server_created_def)
  then have "st r = seed_founder ''club'' (peer_id sample_founder) (op_hlc op) (skeleton (op_server_id op))"
    unfolding r(1) op(4) by (simp add: skeleton_def)
  moreover have "physical_ms (op_hlc op) = 100"
    by (simp add: stamp now_at_def for_device_def seeded_def step_to_def Let_def)
  moreover have "\<not> is_checkpoint (op_payload op)"
    by (simp add: op(1) is_checkpoint_def)
  ultimately show thesis
    unfolding sr [symmetric] using op(2) r(2,3) genesis [folded op(4)] f by (intro that [of op]) (simp_all only: sr not_False_eq_True)
qed

end
