(* ===== verification/Runs.thy ===== *)
theory Runs
  imports Founding
begin

text \<open>
  Runs of a replica of a self-certifying server: it is founded here or joined empty, gets its clock and
  signer, ingests batches, authors ops and refolds, in any order. Every replica a run reaches is the
  judged fold of its own log.
\<close>

section \<open>The standing mark is inert\<close>

lemma open_span_standing: "open_span m h a w (s\<lparr>standing_folded := b\<rparr>) = (open_span m h a w s)\<lparr>standing_folded := b\<rparr>"
  by (simp add: open_span_def Let_def)

lemma close_span_standing: "close_span m t (s\<lparr>standing_folded := b\<rparr>) = (close_span m t s)\<lparr>standing_folded := b\<rparr>"
  by (simp add: close_span_def edit_open_span_def)

lemma edit_open_span_standing:
  "edit_open_span m f (s\<lparr>standing_folded := b\<rparr>) = (edit_open_span m f s)\<lparr>standing_folded := b\<rparr>"
  by (simp add: edit_open_span_def)

lemma current_owner_standing [simp]: "current_owner (s\<lparr>standing_folded := b\<rparr>) = current_owner s"
  by (simp add: current_owner_def)

lemma op_allowed_standing: "op_allowed E (s\<lparr>standing_folded := b\<rparr>) op = op_allowed E s op"
proof -
  have 1: "get_role E (s\<lparr>standing_folded := b\<rparr>) x = get_role E s x"
    "is_member E (s\<lparr>standing_folded := b\<rparr>) x = is_member E s x"
    "is_banned E (s\<lparr>standing_folded := b\<rparr>) x = is_banned E s x"
    "permissions_of (s\<lparr>standing_folded := b\<rparr>) ro = permissions_of s ro"
    "author_role (s\<lparr>standing_folded := b\<rparr>) x = author_role s x"
    "anchor_owner (s\<lparr>standing_folded := b\<rparr>) = anchor_owner s"
    "holds_moderation (s\<lparr>standing_folded := b\<rparr>) = holds_moderation s"
    "is_private (s\<lparr>standing_folded := b\<rparr>) = is_private s"
    "max_members (s\<lparr>standing_folded := b\<rparr>) = max_members s"
    "twitch_from_server_state (s\<lparr>standing_folded := b\<rparr>) = twitch_from_server_state s"
    for x ro
    by (simp_all add: get_role_def is_member_def is_banned_def permissions_of_def author_role_def
        anchor_owner_def holds_moderation_def is_private_def max_members_def twitch_from_server_state_def fun_eq_iff
        split: option.split)
  have 2: "founding_allowed E (s\<lparr>standing_folded := b\<rparr>) op x n = founding_allowed E s op x n"
    "checkpoint_allowed E (s\<lparr>standing_folded := b\<rparr>) op x c = checkpoint_allowed E s op x c"
    "join_lock_allowed E (s\<lparr>standing_folded := b\<rparr>) op ro l d g = join_lock_allowed E s op ro l d g"
    "role_change_allowed E (s\<lparr>standing_folded := b\<rparr>) ro p x nr = role_change_allowed E s ro p x nr"
    "kick_allowed E (s\<lparr>standing_folded := b\<rparr>) ro p x = kick_allowed E s ro p x"
    "admission_allowed E (s\<lparr>standing_folded := b\<rparr>) ro op x f k = admission_allowed E s ro op x f k"
    "self_toggles (s\<lparr>standing_folded := b\<rparr>) x y z = self_toggles s x y z"
    for x y z n c ro l d g p nr f k
    by (simp_all add: founding_allowed_def checkpoint_allowed_def join_lock_allowed_def role_change_allowed_def
        kick_allowed_def admission_allowed_def self_toggles_def 1 split: option.split)
  show ?thesis
    by (cases "op_payload op") (simp_all add: op_allowed_def 1 2 cong: option.case_cong)
qed

lemma seed_founder_standing:
  "seed_founder nm ow h (s\<lparr>standing_folded := b\<rparr>) = (seed_founder nm ow h s)\<lparr>standing_folded := b\<rparr>"
proof -
  have upd: "s\<lparr>standing_folded := b, srv_name := n, members := m, roles := r\<rparr> = s\<lparr>srv_name := n, members := m, roles := r\<rparr>\<lparr>standing_folded := b\<rparr>"
    for n m r by simp
  show ?thesis
    unfolding seed_founder_def Let_def upd open_span_standing by simp
qed

lemma rebase_on_standing:
  "rebase_on base ow covers (s\<lparr>standing_folded := b\<rparr>) = (rebase_on base ow covers s)\<lparr>standing_folded := b\<rparr>"
  by (simp add: rebase_on_def clamp_future_hlcs_def Let_def split_beta)

lemma drop_member_standing:
  "drop_member pid op (s\<lparr>standing_folded := b\<rparr>) = (drop_member pid op s)\<lparr>standing_folded := b\<rparr>"
  by (simp add: drop_member_def Let_def close_span_def edit_open_span_def)

lemma apply_payload_standing_upd:
  "apply_payload E op (s\<lparr>standing_folded := b\<rparr>) = (apply_payload E op s)\<lparr>standing_folded := b\<rparr>"
proof -
  have pr: "author_priority E (s\<lparr>standing_folded := b\<rparr>) = author_priority E s"
    "grants_of (s\<lparr>standing_folded := b\<rparr>) = grants_of s"
    by (simp_all add: fun_eq_iff author_priority_def get_role_def grants_of_def)
  show ?thesis
  proof (cases "op_payload op")
    case (ServerCreated nm ow n)
    then show ?thesis
      by (simp add: apply_payload_def apply_server_created_def seed_founder_standing)
  next
    case (ServerCheckpoint json covers)
    then show ?thesis
      by (simp add: apply_payload_def apply_checkpoint_def rebase_on_standing split: option.split)
  qed (simp_all add: apply_payload_def apply_arms edit_channel_def Let_def open_span_def close_span_def edit_open_span_def drop_member_def
      pr split: option.split)
qed

lemma judged_standing:
  "judged E (s\<lparr>standing_folded := b\<rparr>) ops = (judged E s ops)\<lparr>standing_folded := b\<rparr>"
proof (induction ops arbitrary: s)
  case (Cons op ops)
  have "judged_step E (s\<lparr>standing_folded := b\<rparr>) op = (judged_step E s op)\<lparr>standing_folded := b\<rparr>"
    by (simp add: judged_step_def op_allowed_standing apply_payload_standing_upd)
  with Cons [of "judged_step E s op"] show ?case by (simp add: judged_def)
qed (simp add: judged_def)

lemma standing_mark_inv:
  assumes "anchored_inv E r"
  shows "anchored_inv E (r\<lparr>st := (st r)\<lparr>standing_folded := b\<rparr>\<rparr>)"
proof -
  have "reset_materialized ((st r)\<lparr>standing_folded := b\<rparr>) = (reset_materialized (st r))\<lparr>standing_folded := b\<rparr>"
    by (simp add: reset_materialized_def skeleton_def)
  moreover have "judged E (reset_materialized (st r)) (op_log r) = st r"
    using assms by (simp add: anchored_inv_def fold_inv_def coherent_def)
  ultimately show ?thesis
    using assms by (simp add: anchored_inv_def fold_inv_def seated_def log_covered_def coherent_def judged_standing
        anchor_Legacy keys_inv_def ops_of_def)
qed

section \<open>Runs\<close>

text \<open>An op is authored at the tail when its place in the fold is after everything logged.\<close>

definition at_tail :: "replica \<Rightarrow> crdt_op option \<Rightarrow> bool" where
  "at_tail r authored \<longleftrightarrow> is_none_or (\<lambda>op. list_all (\<lambda>o1. fold_key o1 < fold_key op) (op_log r)) authored"

inductive reachable :: "('a) fold_env_scheme \<Rightarrow> replica \<Rightarrow> bool" for E where
  founding: "found_on E random w0 walls w1 nm ow device kp pk = Some (r, op) \<Longrightarrow> reachable E r"
| joining: "is_genesis_id sid \<Longrightarrow> reachable E (replica_of (skeleton sid))"
| clocking: "reachable E r \<Longrightarrow> reachable E (set_hlc w c r)"
| signing: "reachable E r \<Longrightarrow> reachable E (set_signer kp pk r)"
| ingesting: "reachable E r \<Longrightarrow> reachable E (snd (ingest_remote E now t ops r))"
| authoring: "reachable E r \<Longrightarrow> author_checked E walls now payload r = Some (authored, r') \<Longrightarrow>
    at_tail r authored \<Longrightarrow> reachable E r'"
| refolding: "reachable E r \<Longrightarrow> reachable E (snd (refold_for_standing E t r))"

lemma anchored_inv_cong:
  assumes "st r = st r'" and "op_log r = op_log r'" and "held r = held r'" and "op_log_dedup r = op_log_dedup r'"
  shows "anchored_inv E r = anchored_inv E r'"
  using assms fold_inv_cong [OF assms(1,2), of E] by (simp add: anchored_inv_def keys_inv_def ops_of_def)

lemma skeleton_anchored: "is_genesis_id sid \<Longrightarrow> anchored_inv E (replica_of (skeleton sid))"
  using fold_inv_skeleton [of E sid]
  by (simp add: anchored_inv_def keys_inv_def ops_of_def replica_of_def anchor_Legacy skeleton_def log_keys_def)

lemma found_on_anchored:
  assumes "encoding_laws E" and "found_on E random w0 walls w1 nm ow device kp pk = Some (r, op)"
  shows "anchored_inv E r"
proof (rule found_on_result [OF assms(1), of random w0 walls w1 nm ow device kp pk])
  let ?sid = "derive_server_id E ow (new_nonce E random)"
  fix r1 op1
  assume f: "found_on E random w0 walls w1 nm ow device kp pk = Some (r1, op1)"
    and op: "op_payload op1 = ServerCreated nm ow (new_nonce E random)" "op_stamped op1" "op_allowed E (skeleton ?sid) op1"
    and r: "st r1 = apply_payload E op1 (skeleton ?sid)" "op_log r1 = [op1]" "held r1 = []" "op_log_dedup r1 = {op_key op1}"
  have "anchored_inv E r1"
    by (rule founded_anchored [OF derive_server_id_genesis [OF assms(1)] op r])
  moreover have "r1 = r" using f assms(2) by simp
  ultimately show ?thesis by simp
qed

lemma set_hlc_frame:
  "st (set_hlc w c r) = st r" "op_log (set_hlc w c r) = op_log r" "held (set_hlc w c r) = held r"
  "op_log_dedup (set_hlc w c r) = op_log_dedup r"
  by (simp_all add: set_hlc_def witness_retained_def Let_def split: option.split)

lemma fresh_stamp_actor:
  assumes "fresh_stamp used walls i c = Some y"
  shows "\<not> used (fst y) \<and> actor (fst y) = hlc_actor c"
proof (rule fresh_stamp.raw_induct [where P = "\<lambda>used walls i c y. \<not> used (fst y) \<and> actor (fst y) = hlc_actor c", OF _ assms])
  fix f :: "(hlc_timestamp \<Rightarrow> bool) \<Rightarrow> (nat \<Rightarrow> u64) \<Rightarrow> nat \<Rightarrow> hlc \<Rightarrow> (hlc_timestamp \<times> hlc) option"
  fix used :: "hlc_timestamp \<Rightarrow> bool" and walls :: "nat \<Rightarrow> u64" and i c y
  assume ih: "\<And>used walls i c y. f used walls i c = Some y \<Longrightarrow> \<not> used (fst y) \<and> actor (fst y) = hlc_actor c"
    and f: "(if used (fst (now_at c (walls i))) then f used walls (Suc i) (snd (now_at c (walls i)))
      else Some (now_at c (walls i))) = Some y"
  then show "\<not> used (fst y) \<and> actor (fst y) = hlc_actor c"
    using now_at_frame(1,4) [of c "walls i"] ih [of used walls "Suc i" "snd (now_at c (walls i))" y]
    by (auto split: if_splits)
qed

text \<open>What \<open>create_op\<close> hands over: an op stamped by its author under a key nothing here uses.\<close>

lemma create_op_result:
  assumes "create_op E walls payload r = Some (op, r1)"
  shows "op_stamped op" and "op_key op \<notin> op_log_dedup (ensure_dedup r) \<union> op_key ` fst ` set (held r)"
    and "op_payload op = payload" and "op_server_id op = server_id (st r)"
    and "st r1 = st r" and "op_log r1 = op_log r" and "held r1 = held r" and "op_log_dedup r1 = op_log_dedup (ensure_dedup r)"
proof -
  obtain c ts c' kp pk where c: "clock r = Some c" "fresh_stamp (stamp_used (ensure_dedup r) (hlc_actor c)) walls 0 c = Some (ts, c')"
    and op: "op = op_sign E kp pk \<lparr>op_server_id = server_id (st r), op_hlc = ts, op_author = hlc_actor c,
        op_payload = payload, op_auth = None\<rparr>" and r1: "r1 = (ensure_dedup r)\<lparr>clock := Some c'\<rparr>"
    using assms by (auto simp: create_op_def Let_def split: option.splits prod.splits)
  from fresh_stamp_actor [OF c(2)] have ts: "(hlc_actor c, ts) \<notin> op_log_dedup (ensure_dedup r) \<union> op_key ` fst ` set (held r)"
    "actor ts = hlc_actor c"
    by (simp_all add: stamp_used_iff)
  show "op_stamped op" "op_payload op = payload" "op_server_id op = server_id (st r)"
    by (simp_all add: op op_stamped_def ts(2))
  show "op_key op \<notin> op_log_dedup (ensure_dedup r) \<union> op_key ` fst ` set (held r)"
    using ts(1) by (simp add: op op_key_def)
  show "st r1 = st r" "op_log r1 = op_log r" "held r1 = held r" "op_log_dedup r1 = op_log_dedup (ensure_dedup r)"
    by (simp_all add: r1)
qed

lemma keys_inv_ensured: "keys_inv r \<Longrightarrow> ensure_dedup r = r"
  by (simp add: keys_inv_def ensure_dedup_def log_keys_def)

lemma apply_fresh_op:
  assumes "op_server_id op = server_id (st r)" and "op_key op \<notin> op_log_dedup (ensure_dedup r)"
  shows "st (snd (apply_op E now op r)) = apply_payload E op (st r)"
    and "held (snd (apply_op E now op r)) = held r"
    and "op_log (snd (apply_op E now op r)) = op_log (admit E op (ensure_dedup r))"
    and "op_log_dedup (snd (apply_op E now op r)) = op_log_dedup (admit E op (ensure_dedup r))"
  using assms by (simp_all add: apply_op_def Let_def admit_def log_admitted_def prune_before_checkpoint_def split: option.split)

lemma author_tail_inv:
  assumes inv: "anchored_inv E r" and c: "create_op E walls payload r = Some (op, r1)"
    and ok: "op_allowed E (st r1) op" and tail: "at_tail r (Some op)"
  shows "anchored_inv E (snd (apply_op E now op r1))"
proof -
  have keys: "keys_inv r" using inv by (simp add: anchored_inv_def)
  note res = create_op_result [OF c] and ens = keys_inv_ensured [OF keys]
  have ens1: "ensure_dedup r1 = r1"
    using keys res(6,8) ens by (simp add: ensure_dedup_def keys_inv_def log_keys_def)
  have inv1: "anchored_inv E r1"
    using inv anchored_inv_cong [of r1 r E] res ens by simp
  have step: "foldl (tail_step E t) (False, out, r1) [op] = (enables_others payload, out\<lparr>in_admitted := in_admitted out @ [op]\<rparr>, admit E op r1)"
    for t out using ok res(3) by (simp add: tail_step_simps)
  have prec: "log_precedes r1 [op]"
    using tail res(6) by (auto simp: log_precedes_def may_follow_def at_tail_def is_none_or_def list_all_iff)
  have dist: "distinct (map op_key (op_log r1 @ map fst (held r1) @ [op]))"
    using keys res(2,6,7) ens by (auto simp: keys_inv_def log_keys_def)
  have "fold_inv E (admit E op r1)"
    using tail_fold_inv [of E r1 "[op]" undefined False ingested_default] inv1 prec
    by (simp add: step anchored_inv_def fold_chain_def del: foldl.simps)
  moreover have "keys_inv (admit E op r1)"
    using tail_keys [OF dist, of E undefined False ingested_default] inv1
    by (simp add: step anchored_inv_def keys_inv_def del: foldl.simps)
  moreover have "anchor (st (admit E op r1)) \<noteq> Legacy"
    using tail_anchored [of r1 E undefined False ingested_default "[op]"] inv1
    by (simp add: step anchored_inv_def del: foldl.simps)
  moreover have "\<forall>o1 \<in> ops_of (admit E op r1). op_stamped o1"
    using admit_ops [of E op r1] inv1 res(1) by (auto simp: anchored_inv_def)
  ultimately have "anchored_inv E (admit E op r1)"
    by (simp add: anchored_inv_def)
  then show ?thesis
    using anchored_inv_cong [of "snd (apply_op E now op r1)" "admit E op r1" E] apply_fresh_op [of op r1 E now] res ens1
    by (simp add: admit_def)
qed

lemma refold_inv:
  assumes "anchored_inv E r"
  shows "anchored_inv E (snd (refold_for_standing E t r))"
proof -
  let ?r = "snd (fold_in E t [] ingested_default r)"
  have "\<forall>op \<in> ops_of r \<union> set []. op_stamped op"
    using assms by (simp add: anchored_inv_def)
  moreover have dist: "distinct (map op_key (op_log r @ map fst (held r) @ []))"
    using assms by (simp add: anchored_inv_def keys_inv_def)
  ultimately have "anchored_inv E ?r"
    using assms fold_in_inv [of r "[]" E t ingested_default] fold_in_keys [OF dist, of E t ingested_default]
      fold_in_anchored [OF _ _ dist, of E t ingested_default] fold_in_ops [of E t "[]" ingested_default r]
    by (auto simp: anchored_inv_def)
  from standing_mark_inv [OF this] assms show ?thesis
    by (simp add: refold_for_standing_def Let_def)
qed

lemma author_checked_inv:
  assumes "anchored_inv E r" and "author_checked E walls now payload r = Some (authored, r')" and "at_tail r authored"
  shows "anchored_inv E r'"
proof -
  obtain op r1 where c: "create_op E walls payload r = Some (op, r1)"
    using assms(2) by (auto simp: author_checked_def split: option.splits)
  have "anchored_inv E r1"
    using assms(1) anchored_inv_cong [of r1 r E] create_op_result(5-8) [OF c]
      keys_inv_ensured [of r] by (simp add: anchored_inv_def)
  then show ?thesis
    using assms c author_tail_inv [OF assms(1) c] by (auto simp: author_checked_def split: if_splits)
qed

lemma reachable_inv:
  assumes "encoding_laws E" and "reachable E r"
  shows "anchored_inv E r"
  using assms(2)
proof (induction rule: reachable.induct)
  case (founding random w0 walls w1 nm ow device kp pk r op)
  then show ?case by (rule found_on_anchored [OF assms(1)])
next
  case (joining sid)
  then show ?case by (rule skeleton_anchored)
next
  case (clocking r w c)
  then show ?case using anchored_inv_cong [of "set_hlc w c r" r E] by (simp add: set_hlc_frame)
next
  case (signing r kp pk)
  then show ?case using anchored_inv_cong [of "set_signer kp pk r" r E] by (simp add: set_signer_def)
next
  case (ingesting r now t ops)
  then show ?case by (simp add: ingest_anchored_inv)
next
  case (authoring r walls now payload authored r')
  then show ?case using author_checked_inv by blast
next
  case (refolding r t)
  then show ?case by (simp add: refold_inv)
qed

section \<open>Theorems\<close>


lemma sample_reachable: "reachable (sample_fold_env None) sample_replica"
  by (rule sample_founded) (rule reachable.founding)


end
