(* ===== verification/FoldTheorems.thy ===== *)
theory FoldTheorems
  imports Runs
begin

text \<open>
  What the fold promises its callers: ops that verify enter and no others, a batch's order and repeats do
  not matter, the queues are bounded, a joiner reaches the founder's state, and replicas with the same
  ops agree.
\<close>

section \<open>One op at the tail\<close>

lemma fresh_ops_one:
  assumes "passes E now r op" and "\<not> is_known r op"
  shows "fresh_ops E now r [op] = [op]"
  using assms by (simp add: fresh_ops_def sift_simps)

lemma fresh_ops_none:
  assumes "\<forall>op \<in> set ops. passes E now r op \<longrightarrow> is_known r op"
  shows "fresh_ops E now r ops = []"
proof -
  have none: "{op \<in> set ops. passes E now r op \<and> \<not> is_known r op} = {}"
    using assms by blast
  show ?thesis
    using fresh_ops_facts(2) [of E now r ops] unfolding none by simp
qed

lemma ingest_nothing_fresh:
  assumes "\<forall>op \<in> set ops. passes E now (ready t r) op \<longrightarrow> is_known (ready t r) op"
  shows "ingest_remote E now t ops r
    = (ingested_default\<lparr>in_rejected := length (filter (\<lambda>op. \<not> passes E now (ready t r) op) ops)\<rparr>, ready t r)"
  using fresh_ops_none [OF assms] by (simp add: ingest_remote_def fold_remote_eq Let_def ingested_default_def)

text \<open>What one ingested op does to an anchored replica whose log it extends.\<close>

lemma ingest_one:
  assumes "anchor (st r) \<noteq> Legacy" and "passes E now r op" and "\<not> is_known (ready t r) op"
    and "op_log r = [] \<or> fold_key (last (op_log r)) < fold_key op"
  shows "op_allowed E (st r) op \<Longrightarrow> \<not> (enables_others (op_payload op) \<and> held (ready t r) \<noteq> []) \<Longrightarrow>
      ingest_remote E now t [op] r = (ingested_default\<lparr>in_admitted := [op]\<rparr>,
        witness_clock now (op_hlc op) (admit E op (ready t r)))"
    and "\<not> op_allowed E (st r) op \<Longrightarrow> ingest_remote E now t [op] r = hold t op (ingested_default, ready t r)"
proof -
  have p: "passes E now (ready t r) op"
    using assms(2) by (simp add: passes_def)
  have f: "fold_remote E now t [op] r = fold_fresh E now t [op] ingested_default (ready t r)"
    using p by (simp add: fold_remote_eq fresh_ops_one [OF p assms(3)] Let_def ingested_default_def)
  {
    assume "op_allowed E (st r) op" and "\<not> (enables_others (op_payload op) \<and> held (ready t r) \<noteq> [])"
    moreover have "held (admit E op (ready t r)) = held (ready t r)"
      by (simp add: admit_def)
    ultimately have "fold_remote E now t [op] r = (ingested_default\<lparr>in_admitted := [op]\<rparr>, admit E op (ready t r))"
      using assms(1,4) by (auto simp: f fold_fresh_def tail_step_simps ingested_default_def)
    then show "ingest_remote E now t [op] r = (ingested_default\<lparr>in_admitted := [op]\<rparr>,
        witness_clock now (op_hlc op) (admit E op (ready t r)))"
      by (simp add: ingest_remote_def)
  next
    assume no: "\<not> op_allowed E (st r) op"
    obtain out r' where h: "hold t op (ingested_default, ready t r) = (out, r')" by (cases "hold t op (ingested_default, ready t r)")
    then have "in_admitted out = []"
      by (auto simp: hold_def Let_def ingested_default_def)
    then show "ingest_remote E now t [op] r = hold t op (ingested_default, ready t r)"
      using assms(1,4) no h by (simp add: ingest_remote_def f fold_fresh_def tail_step_simps)
  }
qed

section \<open>Convergence\<close>


lemma joiner_ingests_founding:
  fixes t :: instant
  assumes "is_genesis_id sid" and "passes E now (replica_of (skeleton sid)) op" and "op_allowed E (skeleton sid) op"
    and "\<not> is_checkpoint (op_payload op)"
  defines "j \<equiv> snd (ingest_remote E now t [op] (replica_of (skeleton sid)))"
  shows "st j = apply_payload E op (skeleton sid)" and "op_log j = [op]" and "held j = []"
proof -
  let ?r = "replica_of (skeleton sid)"
  have r: "ready t ?r = ?r" "st ?r = skeleton sid" "op_log ?r = []" "held ?r = []"
    by (simp_all add: ready_def expire_held_def ensure_dedup_def replica_of_def)
  have anch: "anchor (st ?r) \<noteq> Legacy"
    using assms(1) unfolding r(2) by (simp add: anchor_Legacy skeleton_def)
  have "\<not> is_known (ready t ?r) op"
    by (simp add: is_known_def r) (simp add: replica_of_def)
  with ingest_one(1) [OF anch assms(2), of t] assms(3)
  have j: "j = witness_clock now (op_hlc op) (admit E op ?r)"
    by (simp add: j_def r)
  obtain n where n: "op_log (admit E op ?r) = drop n (op_log ?r @ [op])" "anchor (st ?r) \<noteq> Legacy \<longrightarrow> n = 0"
    by (rule log_admit_plain [of ?r op E]) (simp_all add: r assms(4))
  show "st j = apply_payload E op (skeleton sid)" "op_log j = [op]" "held j = []"
    using n anch by (simp_all add: j r) (simp_all add: admit_def r)
qed

lemma founded_op_passes:
  assumes laws: "encoding_laws E" "signature_laws E" and "length sk = 32"
    and f: "found_on E random w0 walls w1 nm (peer_id (from_secret_bytes E sk)) device (from_secret_bytes E sk)
      (b64_encode E (public_key_protobuf E (from_secret_bytes E sk))) = Some (r, op)"
    and "physical_ms (op_hlc op) \<le> now + MAX_DRIFT_MS"
  shows "is_genesis_id (server_id (st r))" and "passes E now (replica_of (skeleton (server_id (st r)))) op"
    and "op_allowed E (skeleton (server_id (st r))) op" and "\<not> is_checkpoint (op_payload op)"
    and "st r = apply_payload E op (skeleton (server_id (st r)))" and "op_log r = [op]"
    and "op_payload op = ServerCreated nm (op_author op) (new_nonce E random)"
proof -
  let ?sid = "derive_server_id E (peer_id (from_secret_bytes E sk)) (new_nonce E random)"
  let ?pk = "b64_encode E (public_key_protobuf E (from_secret_bytes E sk))"
  obtain op1: "op_payload op = ServerCreated nm (peer_id (from_secret_bytes E sk)) (new_nonce E random)"
      "op_author op = peer_id (from_secret_bytes E sk)" "op_stamped op" "op_server_id op = ?sid" "op_allowed E (skeleton ?sid) op"
    and r1: "st r = apply_payload E op (skeleton ?sid)" "op_log r = [op]"
    and signed: "op = op_sign E (from_secret_bytes E sk) ?pk (op\<lparr>op_auth := None\<rparr>)"
  proof (rule found_on_result [OF laws(1), of random w0 walls w1 nm "peer_id (from_secret_bytes E sk)" device
        "from_secret_bytes E sk" ?pk])
    fix r1 op1
    assume "found_on E random w0 walls w1 nm (peer_id (from_secret_bytes E sk)) device (from_secret_bytes E sk) ?pk = Some (r1, op1)"
      and facts: "op_payload op1 = ServerCreated nm (peer_id (from_secret_bytes E sk)) (new_nonce E random)"
        "op_author op1 = peer_id (from_secret_bytes E sk)" "op_stamped op1" "op_server_id op1 = ?sid" "op_allowed E (skeleton ?sid) op1"
        "st r1 = apply_payload E op1 (skeleton ?sid)" "op_log r1 = [op1]"
        "op1 = op_sign E (from_secret_bytes E sk) ?pk (op1\<lparr>op_auth := None\<rparr>)"
    with f have eq: "r1 = r" "op1 = op" by simp_all
    from facts show thesis unfolding eq by (rule that)
  qed
  have sid: "server_id (st r) = ?sid"
    using r1(1) by (simp add: skeleton_def)
  have "verify_author E (op_sign E (from_secret_bytes E sk) ?pk (op\<lparr>op_auth := None\<rparr>)) = Inr ()"
    using laws assms(3) op1(2,3) by (intro signed_op_verifies) (simp_all add: op_stamped_def)
  then have "verify_author E op = Inr ()"
    using signed by simp
  then show "passes E now (replica_of (skeleton (server_id (st r)))) op"
    using op1(4) assms(5) sid by (simp add: passes_def stateless_check_def not_less replica_of_def skeleton_def)
  show "is_genesis_id (server_id (st r))"
    unfolding sid by (rule derive_server_id_genesis [OF laws(1)])
  show "op_allowed E (skeleton (server_id (st r))) op" "st r = apply_payload E op (skeleton (server_id (st r)))"
    "op_log r = [op]" "op_payload op = ServerCreated nm (op_author op) (new_nonce E random)"
    using op1 r1 sid by simp_all
  show "\<not> is_checkpoint (op_payload op)"
    using op1(1) by (simp add: is_checkpoint_def)
qed

text \<open>C6: Founding and joining agree: the op \<open>found_on\<close> signs verifies and is admitted by anyone who holds
  nothing but the server id, and their state is then the founder's. The only condition is that the
  founder's clock is within the drift bound of the joiner's.\<close>

theorem joiner_reaches_founder:
  assumes "encoding_laws E" and "signature_laws E" and "length sk = 32"
    and "found_on E random w0 walls w1 nm (peer_id (from_secret_bytes E sk)) device (from_secret_bytes E sk)
      (b64_encode E (public_key_protobuf E (from_secret_bytes E sk))) = Some (r, op)"
    and "physical_ms (op_hlc op) \<le> now + MAX_DRIFT_MS"
  shows "st (snd (ingest_remote E now t [op] (replica_of (skeleton (server_id (st r)))))) = st r
    \<and> op_log (snd (ingest_remote E now t [op] (replica_of (skeleton (server_id (st r)))))) = op_log r
    \<and> op_log r = [op] \<and> current_owner (st r) = Some (op_author op)"
proof -
  note facts = founded_op_passes [OF assms]
  have "current_owner (st r) = Some (op_author op)"
    by (subst facts(5)) (simp add: facts(7) apply_payload_def apply_server_created_def skeleton_def seed_founder_def
        current_owner_def Let_def lww_read_def lww_new_def)
  with joiner_ingests_founding [OF facts(1-4), of t] facts(5,6) show ?thesis by simp
qed

definition sample_joiner :: "crdt_op \<Rightarrow> replica" where
  "sample_joiner op = snd (ingest_remote (sample_fold_env None) 100 0 [op] (replica_of (skeleton (server_id (st sample_replica)))))"

theorem joiner_reaches_founder_witness:
  "\<exists>op. op_log sample_replica = [op] \<and> st (sample_joiner op) = st sample_replica \<and> op_log (sample_joiner op) = [op]"
proof (rule sample_founded)
  fix op
  assume log: "op_log sample_replica = [op]" and stamp: "physical_ms (op_hlc op) = 100"
    and f: "found_on (sample_fold_env None) ''random'' 50 (\<lambda>_. 100) 100 ''club'' (peer_id sample_founder)
      ''phone'' sample_founder sample_pk = Some (sample_replica, op)"
  have "length (sample_key (CHR ''k'')) = 32" and "physical_ms (op_hlc op) \<le> 100 + MAX_DRIFT_MS"
    by (simp_all add: sample_key_def stamp MAX_DRIFT_MS_def)
  from joiner_reaches_founder [OF sample_fold_env_laws this(1) f [unfolded sample_pk_def sample_founder_def] this(2), of 0] log
  show ?thesis by (auto simp: sample_joiner_def)
qed


section \<open>Rebuilds\<close>

lemma fold_in_log: "op_log (snd (fold_in E t fresh out r)) = op_log (fst (foldl (judge E) (rebuilt_from r, []) (candidates fresh r)))"
  by (simp add: fold_in_def Let_def split_beta)

lemma fold_in_held:
  "map fst (held (snd (fold_in E t fresh out r))) =
     (let f = foldl (judge E) (rebuilt_from r, []) (candidates fresh r);
          waiting = filter (\<lambda>op. is_none_or (\<lambda>b. b < op_hlc op) (checkpoint_hlc (st (fst f)))) (snd f)
      in drop (length waiting - HELD_CAP) waiting)"
  by (simp add: fold_in_def Let_def split_beta drop_map [symmetric] comp_def)

text \<open>C13: A rebuild depends on the set of ops alone, not on which of them were logged, held or fresh nor on
  their order: state, log and the waiting ops come out the same (ops told apart by their keys and by
  their place in the fold).\<close>

theorem rebuild_order_irrelevant:
  assumes "ops_of r \<union> set fresh = ops_of r' \<union> set fresh'"
    and "inj_on fold_key (ops_of r \<union> set fresh)" and "inj_on op_key (ops_of r \<union> set fresh)"
    and "server_id (st r) = server_id (st r')" and "owner_pin (st r) = owner_pin (st r')"
    and "standing_folded (st r) = standing_folded (st r')"
  shows "st (snd (fold_in E t fresh out r)) = st (snd (fold_in E t' fresh' out' r'))
    \<and> op_log (snd (fold_in E t fresh out r)) = op_log (snd (fold_in E t' fresh' out' r'))
    \<and> map fst (held (snd (fold_in E t fresh out r))) = map fst (held (snd (fold_in E t' fresh' out' r')))"
proof -
  have "reset_materialized (st r) = reset_materialized (st r')"
    using assms(4,6,5) by (rule reset_cong)
  then have "st (rebuilt_from r) = st (rebuilt_from r')" "op_log (rebuilt_from r) = op_log (rebuilt_from r')"
    by (simp_all add: rebuilt_from_def)
  from judge_cong [OF this, of E "[]" "candidates fresh r"] candidates_same [OF assms(1-3)]
  show ?thesis
    by (simp only: fold_in_st fold_in_log fold_in_held Let_def)
qed

section \<open>Batches\<close>

lemma fresh_ops_set:
  assumes "inj_on op_key (set ops)"
  shows "set (fresh_ops E now r ops) = {op \<in> set ops. passes E now r op \<and> \<not> is_known r op}"
proof -
  let ?A = "{op \<in> set ops. passes E now r op \<and> \<not> is_known r op}"
  have "inj_on op_key ?A" using assms by (rule inj_on_subset) blast
  then show ?thesis
    using fresh_ops_facts(2,3) [of E now r ops] by (metis (no_types, lifting) inj_on_image_eq_iff order_refl)
qed

lemma sorted_fresh_same:
  assumes "set ops = set ops'" and "inj_on op_key (set ops)" and "inj_on fold_key (set ops)"
  shows "sort_key fold_key (fresh_ops E now r ops) = sort_key fold_key (fresh_ops E now r ops')"
proof (rule sort_key_unique)
  have same: "set (fresh_ops E now r ops) = set (fresh_ops E now r ops')"
    using fresh_ops_set [of ops E now r] fresh_ops_set [of ops' E now r] assms by simp
  have d: "distinct (fresh_ops E now r xs)" for xs
    using fresh_ops_facts(1) [of E now r xs] distinct_map by blast
  show "mset (fresh_ops E now r ops) = mset (fresh_ops E now r ops')"
    using same d [of ops] d [of ops'] set_eq_iff_mset_eq_distinct by blast
  show "inj_on fold_key (set (fresh_ops E now r ops))"
    using fresh_ops_facts(2) [of E now r ops] by (intro inj_on_subset [OF assms(3)]) auto
qed

text \<open>The order of the ops in a batch does not matter, nor where its duplicates stand: the ingest
  returns the same report and leaves the same replica.\<close>

theorem batch_order_irrelevant:
  assumes "mset ops = mset ops'" and "inj_on op_key (set ops)" and "inj_on fold_key (set ops)"
  shows "ingest_remote E now t ops r = ingest_remote E now t ops' r"
proof -
  have "set ops = set ops'" using assms(1) by (rule mset_eq_setD)
  from sorted_fresh_same [OF this assms(2,3), of E now "ready t r"]
  have sorted: "sort_key fold_key (fresh_ops E now (ready t r) ops) = sort_key fold_key (fresh_ops E now (ready t r) ops')" .
  then have "fresh_ops E now (ready t r) ops = [] \<longleftrightarrow> fresh_ops E now (ready t r) ops' = []"
    by (metis length_0_conv length_sort)
  moreover have "length (filter P ops) = length (filter P ops')" for P
    using assms(1) by (metis mset_filter size_mset)
  ultimately have "fold_remote E now t ops r = fold_remote E now t ops' r"
    using sorted by (simp add: fold_remote_eq Let_def)
  then show ?thesis by (simp add: ingest_remote_def)
qed

theorem batch_order_irrelevant_witness:
  "\<exists>op. op_log sample_replica = [op]
     \<and> ingest_remote (sample_fold_env None) 100 0 [op, sample_op ''alice'', op] (replica_of (skeleton (op_server_id op)))
       = ingest_remote (sample_fold_env None) 100 0 [sample_op ''alice'', op, op] (replica_of (skeleton (op_server_id op)))"
proof (rule sample_founded)
  fix op
  assume log: "op_log sample_replica = [op]" and stamp: "physical_ms (op_hlc op) = 100"
    and plain: "\<not> is_checkpoint (op_payload op)"
  have "op_key op \<noteq> op_key (sample_op ''alice'')" "fold_key op \<noteq> fold_key (sample_op ''alice'')"
    using stamp plain by (auto simp: op_key_def fold_key_other sample_op_def is_checkpoint_def)
  then have "inj_on op_key (set [op, sample_op ''alice'', op])" "inj_on fold_key (set [op, sample_op ''alice'', op])"
    by (auto simp: inj_on_def)
  from batch_order_irrelevant [OF _ this, of "[sample_op ''alice'', op, op]" "sample_fold_env None" 100 0] log
  show ?thesis by auto
qed

theorem rebuild_order_irrelevant_witness:
  "st (snd (fold_in (sample_fold_env None) 0 [] ingested_default sample_replica))
     = st (snd (fold_in (sample_fold_env None) 1 (op_log sample_replica) ingested_default sample_replica))"
proof (rule sample_founded)
  fix op
  assume log: "op_log sample_replica = [op]" "held sample_replica = []"
  have "inj_on fold_key (ops_of sample_replica \<union> set [])" "inj_on op_key (ops_of sample_replica \<union> set [])"
    "ops_of sample_replica \<union> set [] = ops_of sample_replica \<union> set (op_log sample_replica)"
    by (simp_all add: log ops_of_def)
  from rebuild_order_irrelevant [OF this(3,1,2), of "sample_fold_env None" 0 ingested_default 1 ingested_default]
  show ?thesis by simp
qed

text \<open>C3: Nothing enters a replica unchecked: whatever it logs or holds after an ingest it already had, or it
  came in the batch, for this server, with its author's valid signature over it and a clock within the
  drift bound.\<close>

theorem only_verified_enter:
  "ops_of (snd (ingest_remote E now t ops r)) \<subseteq> ops_of r \<union>
     {op \<in> set ops. op_server_id op = server_id (st r) \<and> verify_author E op = Inr ()
        \<and> physical_ms (op_hlc op) \<le> now + MAX_DRIFT_MS}"
proof -
  have "ops_of (snd (ingest_remote E now t ops r)) = ops_of (snd (fold_remote E now t ops r))"
    by (simp add: ops_of_def)
  moreover have "op_server_id op = server_id (st r) \<and> verify_author E op = Inr () \<and> physical_ms (op_hlc op) \<le> now + MAX_DRIFT_MS"
    if "passes E now r op" for op
    using that by (auto simp: passes_def stateless_check_def not_less split: if_splits sum.splits)
  ultimately show ?thesis
    using fold_remote_ops [of E now t ops r] by blast
qed

text \<open>Redelivery changes nothing: a batch of ops already logged leaves the replica as it was, but for held
  ops whose time ran out, and reports nothing admitted.\<close>

theorem redelivery_ignored:
  assumes "op_log_dedup r = log_keys (op_log r)" and "set ops \<subseteq> set (op_log r)"
  shows "snd (ingest_remote E now t ops r) = expire_held t r \<and> in_admitted (fst (ingest_remote E now t ops r)) = []"
proof -
  have "ensure_dedup r = r"
    using assms(1) by (simp add: ensure_dedup_def log_keys_def)
  then have ready: "ready t r = expire_held t r" by (simp add: ready_def)
  have "\<forall>op \<in> set ops. passes E now (ready t r) op \<longrightarrow> is_known (ready t r) op"
    using assms by (auto simp: ready is_known_def expire_held_def log_keys_def)
  from ingest_nothing_fresh [OF this] show ?thesis
    by (simp add: ready ingested_default_def)
qed

theorem redelivery_ignored_witness:
  "snd (ingest_remote (sample_fold_env None) 100 0 (op_log sample_replica) sample_replica) = expire_held 0 sample_replica"
proof (rule sample_founded)
  assume "anchored_inv (sample_fold_env None) sample_replica"
  then have "op_log_dedup sample_replica = log_keys (op_log sample_replica)"
    by (simp add: anchored_inv_def keys_inv_def)
  from redelivery_ignored [OF this, of "op_log sample_replica" "sample_fold_env None" 100 0]
  show ?thesis by simp
qed

section \<open>Held ops\<close>

lemma retry_fold_stuck:
  "foldl (retry_step E now) (p, out, r) hs = (False, out', r') \<Longrightarrow>
     st r' = st r \<and> held r' = held r @ hs \<and> (\<forall>h \<in> set hs. \<not> op_allowed E (st r) (fst h))"
proof (induction hs arbitrary: p out r)
  case (Cons h hs)
  show ?case
  proof (cases "op_allowed E (st r) (fst h)")
    case True
    then have "foldl (retry_step E now) (True, fst (admit_in_arrival E now (fst h) (out, r)),
        snd (admit_in_arrival E now (fst h) (out, r))) hs = (False, out', r')"
      using Cons.prems by (simp add: retry_step_simps)
    then show ?thesis using retry_fold_length by blast
  next
    case False
    then have "foldl (retry_step E now) (p, out, r\<lparr>held := held r @ [h]\<rparr>) hs = (False, out', r')"
      using Cons.prems by (simp add: retry_step_simps)
    from Cons.IH [OF this] False show ?thesis by simp
  qed
qed simp

text \<open>The retry loop of a legacy replica ends, and only when it is done: no op it still holds would be
  admitted by the state it leaves.\<close>

theorem retry_complete:
  "list_all (\<lambda>h. \<not> op_allowed E (st (snd (retry_held E now x))) (fst h)) (held (snd (retry_held E now x)))"
proof (induction E now x rule: retry_held.induct)
  case (1 E now x)
  obtain p out r where y: "retry_round E now x = (p, out, r)" by (cases "retry_round E now x")
  show ?case
  proof (cases "held (snd x) = [] \<or> p")
    case True
    then show ?thesis
      using 1 y by (subst (1 2) retry_held.simps) (auto simp: Let_def)
  next
    case False
    have "foldl (retry_step E now) (False, fst x, snd x\<lparr>held := []\<rparr>) (sort_key (\<lambda>h. op_hlc (fst h)) (held (snd x))) = (False, out, r)"
      using y False by (simp add: retry_round_def split_beta)
    from retry_fold_stuck [OF this] show ?thesis
      using False y by (subst (1 2) retry_held.simps) (simp add: list_all_iff)
  qed
qed

end
