(* ===== verification/Anchoring.thy ===== *)
theory Anchoring
  imports FoldTheorems
begin

text \<open>
  The queues' bounds, the authoring loop, the joiner's snapshot of a legacy server, and how a legacy
  server moves onto the fold: the owner's checkpoint is admitted, prunes the log and anchors the replica.
\<close>

section \<open>Bounds\<close>

text \<open>\<open>within_caps n m r\<close>: the held queue is within its cap or its length \<open>n\<close> before, and so is a legacy log.\<close>

definition within_caps :: "nat \<Rightarrow> nat \<Rightarrow> replica \<Rightarrow> bool" where
  "within_caps n m r \<longleftrightarrow> length (held r) \<le> max HELD_CAP n
     \<and> (anchor (st r) = Legacy \<longrightarrow> length (op_log r) \<le> max LEGACY_OP_LOG_CAP m)"

lemma within_caps_cong:
  "st r = st r' \<Longrightarrow> op_log r = op_log r' \<Longrightarrow> held r = held r' \<Longrightarrow> within_caps n m r = within_caps n m r'"
  by (simp add: within_caps_def)

lemma legacy_before:
  assumes "op_allowed E s op" and "anchor (apply_payload E op s) = Legacy"
  shows "anchor s = Legacy \<and> \<not> is_checkpoint (op_payload op)"
proof -
  have "\<not> (is_checkpoint (op_payload op) \<or> checkpoint_hlc s \<noteq> None)"
  proof
    assume "is_checkpoint (op_payload op) \<or> checkpoint_hlc s \<noteq> None"
    from apply_checkpoint_hlc [OF assms(1) this] assms(2) show False by (simp add: anchor_Legacy)
  qed
  with assms(2) show ?thesis by (simp add: anchor_Legacy)
qed

lemma admit_caps:
  assumes "op_allowed E (st r) op" and "within_caps n m r"
  shows "within_caps n m (admit E op r)"
proof -
  have held: "held (admit E op r) = held r" by (simp add: admit_def)
  have "length (op_log (admit E op r)) \<le> max LEGACY_OP_LOG_CAP m" if "anchor (st (admit E op r)) = Legacy"
  proof -
    have l: "anchor (st r) = Legacy" "\<not> is_checkpoint (op_payload op)" "anchor (apply_payload E op (st r)) = Legacy"
      using legacy_before [OF assms(1)] that by simp_all
    then have "length (op_log (admit E op r)) \<le> max LEGACY_OP_LOG_CAP (length (op_log r))"
      by (simp add: admit_def log_admitted_def Let_def)
    with l(1) assms(2) show ?thesis by (auto simp: within_caps_def)
  qed
  with assms(2) held show ?thesis by (simp add: within_caps_def)
qed

lemma hold_caps: "within_caps n m (snd x) \<Longrightarrow> within_caps n m (snd (hold t op x))"
  by (cases "held (snd x)") (auto simp: within_caps_def hold_def Let_def split_beta HELD_CAP_def)

lemma judge_caps: "within_caps n m r \<Longrightarrow> within_caps n m (fst (foldl (judge E) (r, refused) cs))"
proof (induction cs arbitrary: r refused)
  case (Cons c cs)
  then show ?case
    by (cases "op_allowed E (st r) c") (simp_all add: judge_simps admit_caps)
qed simp

lemma fold_in_caps: "within_caps n m (snd (fold_in E t fresh out r))"
proof -
  define j where "j = foldl (judge E) (rebuilt_from r, []) (candidates fresh r)"
  have "within_caps n m (rebuilt_from r)"
    by (simp add: within_caps_def rebuilt_from_def)
  then have "within_caps n m (fst j)"
    unfolding j_def by (rule judge_caps)
  then show ?thesis
    by (simp add: fold_in_def Let_def split_beta j_def [symmetric] within_caps_def)
qed

lemma tail_caps: "within_caps n m r \<Longrightarrow> within_caps n m (snd (snd (foldl (tail_step E t) (en, out, r) cs)))"
proof (induction cs arbitrary: en out r)
  case (Cons c cs)
  show ?case
  proof (cases "op_allowed E (st r) c")
    case True
    with Cons show ?thesis by (simp add: tail_step_simps admit_caps)
  next
    case False
    obtain out' r' where h: "hold t c (out, r) = (out', r')" by (cases "hold t c (out, r)")
    then have "within_caps n m r'" using hold_caps [of n m "(out, r)" t c] Cons.prems by simp
    with Cons.IH [of r'] False h show ?thesis by (simp add: tail_step_simps)
  qed
qed simp

lemma apply_op_caps:
  assumes "op_allowed E (st r) op" and "within_caps n m r"
  shows "within_caps n m (snd (apply_op E now op r))"
proof (cases "op_server_id op = server_id (st r) \<and> op_key op \<notin> op_log_dedup (ensure_dedup r)")
  case True
  then have fr: "st (snd (apply_op E now op r)) = apply_payload E op (st r)" "held (snd (apply_op E now op r)) = held r"
    "op_log (snd (apply_op E now op r)) = op_log (admit E op (ensure_dedup r))"
    using apply_fresh_op [of op r E now] by simp_all
  have "within_caps n m (ensure_dedup r)"
    using assms(2) within_caps_cong [of "ensure_dedup r" r] by simp
  then have "within_caps n m (admit E op (ensure_dedup r))"
    using assms(1) by (simp add: admit_caps)
  moreover have "held (admit E op (ensure_dedup r)) = held r" by (simp add: admit_def)
  ultimately show ?thesis
    using within_caps_cong [of "snd (apply_op E now op r)" "admit E op (ensure_dedup r)"] fr by simp
next
  case False
  then have "snd (apply_op E now op r) = r \<or> snd (apply_op E now op r) = ensure_dedup r"
    by (auto simp: apply_op_def Let_def)
  then show ?thesis
    using assms(2) within_caps_cong [of "ensure_dedup r" r] by auto
qed

lemma admit_in_arrival_caps:
  "op_allowed E (st (snd x)) op \<Longrightarrow> within_caps n m (snd x) \<Longrightarrow> within_caps n m (snd (admit_in_arrival E now op x))"
  by (simp add: admit_in_arrival_def Let_def split_beta apply_op_caps)

lemma arrival_caps: "within_caps n m r \<Longrightarrow> within_caps n m (snd (snd (foldl (arrival_step E now t) (p, out, r) cs)))"
proof (induction cs arbitrary: p out r)
  case (Cons c cs)
  obtain p' out' r' where s: "arrival_step E now t (p, out, r) c = (p', out', r')"
    by (cases "arrival_step E now t (p, out, r) c")
  have "within_caps n m r'"
    using s Cons.prems hold_caps [of n m "(out, r)" t c] admit_in_arrival_caps [of E "(out, r)" c n m now]
    by (cases "op_allowed E (st r) c") (simp_all add: arrival_step_simps)
  with Cons.IH [of r' p' out'] s show ?case by simp
qed simp

text \<open>A retry round only moves ops from the queue to the log.\<close>

lemma retry_fold_caps:
  "length (held r) + length hs \<le> max HELD_CAP n \<Longrightarrow> within_caps n m r \<Longrightarrow>
     within_caps n m (snd (snd (foldl (retry_step E now) (p, out, r) hs)))"
proof (induction hs arbitrary: p out r)
  case (Cons h hs)
  show ?case
  proof (cases "op_allowed E (st r) (fst h)")
    case True
    define x where "x = admit_in_arrival E now (fst h) (out, r)"
    have "within_caps n m (snd x)" "held (snd x) = held r"
      using Cons.prems True admit_in_arrival_caps [of E "(out, r)" "fst h" n m now] by (simp_all add: x_def)
    with Cons.IH [of "snd x" True "fst x"] Cons.prems True show ?thesis
      by (simp add: retry_step_simps x_def [symmetric])
  next
    case False
    have "within_caps n m (r\<lparr>held := held r @ [h]\<rparr>)"
      using Cons.prems by (simp add: within_caps_def)
    with Cons.IH [of "r\<lparr>held := held r @ [h]\<rparr>"] Cons.prems False show ?thesis
      by (simp add: retry_step_simps)
  qed
qed simp

lemma retry_round_caps: "within_caps n m (snd x) \<Longrightarrow> within_caps n m (snd (snd (retry_round E now x)))"
proof -
  assume x: "within_caps n m (snd x)"
  have "within_caps n m (snd (snd (foldl (retry_step E now) (False, fst x, snd x\<lparr>held := []\<rparr>)
      (sort_key (\<lambda>h. op_hlc (fst h)) (held (snd x))))))"
    using x by (intro retry_fold_caps) (simp_all add: within_caps_def)
  then show ?thesis by (simp add: retry_round_def split_beta)
qed

lemma retry_held_caps: "within_caps n m (snd x) \<Longrightarrow> within_caps n m (snd (retry_held E now x))"
proof (induction E now x rule: retry_held.induct)
  case (1 E now x)
  then show ?case
    using retry_round_caps [of n m x E now] by (subst retry_held.simps) (simp add: Let_def)
qed

lemma fold_fresh_caps: "within_caps n m r \<Longrightarrow> within_caps n m (snd (fold_fresh E now t fresh out r))"
proof -
  assume r: "within_caps n m r"
  have "within_caps n m (snd (apply_in_arrival E now t fresh out r))"
    using arrival_caps [OF r, of E now t False out fresh] retry_held_caps
    by (auto simp: apply_in_arrival_def split: prod.splits)
  with tail_caps [OF r, of E t False out fresh] show ?thesis
    by (auto simp: fold_fresh_def fold_in_caps split: prod.splits option.splits)
qed

text \<open>C23: An ingest never lets a queue outgrow its cap: the held ops stay within \<open>HELD_CAP\<close> and, as long as the
  server is legacy-anchored, the log within \<open>LEGACY_OP_LOG_CAP\<close> (or within the length it came with),
  whatever the batch holds.\<close>

theorem ingest_bounded:
  "length (held (snd (ingest_remote E now t ops r))) \<le> max HELD_CAP (length (held r))
   \<and> (anchor (st (snd (ingest_remote E now t ops r))) = Legacy \<longrightarrow>
        length (op_log (snd (ingest_remote E now t ops r))) \<le> max LEGACY_OP_LOG_CAP (length (op_log r)))"
proof -
  have "length (held (ready t r)) \<le> length (held r)"
    by (simp add: ready_fields)
  then have "within_caps (length (held r)) (length (op_log r)) (ready t r)"
    by (simp add: within_caps_def)
  from fold_fresh_caps [OF this, of E now t] this
  have "within_caps (length (held r)) (length (op_log r)) (snd (fold_remote E now t ops r))"
    by (simp add: fold_remote_eq Let_def)
  then show ?thesis by (simp add: within_caps_def)
qed

theorem ingest_bounded_witness:
  "length (op_log (snd (ingest_remote (sample_fold_env None) 100 0 (op_log sample_replica) (replica_of (skeleton ''legacy''))))) \<le> 1000"
proof -
  let ?r = "replica_of (skeleton ''legacy'')"
  let ?s = "st (snd (ingest_remote (sample_fold_env None) 100 0 (op_log sample_replica) ?r))"
  have legacy: "anchor (skeleton ''legacy'') = Legacy" "server_id (skeleton ''legacy'') = ''legacy''"
    by (simp_all add: anchor_def skeleton_def is_genesis_id_def GENESIS_ID_LEN_def)
  have "ready 0 ?r = ?r"
    by (simp add: ready_def expire_held_def ensure_dedup_def replica_of_def)
  moreover have "\<not> passes (sample_fold_env None) 100 ?r op" if "op \<in> set (op_log sample_replica)" for op
  proof (rule sample_founded)
    fix o1
    assume "op_log sample_replica = [o1]" "is_genesis_id (op_server_id o1)"
    with that have "op_server_id op \<noteq> ''legacy''"
      by (auto simp: is_genesis_id_def GENESIS_ID_LEN_def)
    then show ?thesis
      using legacy(2) by (simp add: passes_def stateless_check_def replica_of_def)
  qed
  ultimately have "snd (ingest_remote (sample_fold_env None) 100 0 (op_log sample_replica) ?r) = ?r"
    by (subst ingest_nothing_fresh) auto
  then have "anchor ?s = Legacy"
    using legacy(1) by (simp add: replica_of_def)
  with ingest_bounded [of "sample_fold_env None" 100 0 "op_log sample_replica" ?r] show ?thesis
    by (simp add: LEGACY_OP_LOG_CAP_def replica_of_def)
qed

section \<open>Authoring\<close>

lemma unat_saturating_one: "unat (saturating_add ms 1) \<le> Suc (unat (ms :: u64))"
  by (auto simp: saturating_add_def unat_minus_one_word unat_word_ariths)

lemma now_at_physical:
  "unat (physical_ms (fst (now_at c wall))) \<le> max (Suc (unat (physical_ms (latest c)))) (unat wall)"
proof -
  have "unat (fst (next_after c ms k)) \<le> Suc (unat ms)" for ms k
    using unat_saturating_one [of ms]
    by (simp add: next_after_def successor_def Let_def split: option.split)
  then show ?thesis
    by (auto simp: now_at_def Let_def le_max_iff_disj)
qed

lemma tick_n_physical:
  "unat (physical_ms (latest c)) \<le> M \<Longrightarrow> \<forall>i. unat (walls i) \<le> M \<Longrightarrow>
     unat (physical_ms (latest (tick_n walls i n c))) \<le> M + n"
proof (induction n arbitrary: i c M)
  case (Suc n)
  have "unat (physical_ms (latest (snd (now_at c (walls i))))) \<le> Suc M"
    using now_at_physical [of c "walls i"] Suc.prems by (auto simp: max_def split: if_splits dest: spec [of _ i])
  with Suc.IH [of "snd (now_at c (walls i))" "Suc M" "Suc i"] Suc.prems(2) show ?case
    by (simp add: le_Suc_eq)
qed simp

lemma tick_n_lane [simp]: "lane_wf (tick_n walls i n c) = lane_wf c"
  by (induction n arbitrary: i c) simp_all

lemma tick_n_has_room:
  assumes "lane_wf c" and "unat (physical_ms (latest c)) < 2 ^ 63" and "\<forall>i. unat (walls i) < 2 ^ 63" and "n < 2 ^ 63"
  shows "has_room (tick_n walls i n c)"
proof -
  have "unat (walls j) \<le> 2 ^ 63 - 1" for j
    using assms(3) [rule_format, of j] by simp
  then have "unat (physical_ms (latest (tick_n walls i n c))) \<le> (2 ^ 63 - 1) + n"
    using assms(2) by (intro tick_n_physical) simp_all
  also have "\<dots> < unat u64_MAX"
    using assms(4) by (simp add: unat_minus_one_word)
  finally show ?thesis
    using assms(1) by (auto simp: has_room_def)
qed

lemma stamp_used_card:
  assumes "finite (op_log_dedup r)"
  shows "card {ts. stamp_used r who ts} \<le> card (op_log_dedup r) + length (held r)"
proof -
  have "{ts. stamp_used r who ts} \<subseteq> snd ` op_log_dedup r \<union> (op_hlc \<circ> fst) ` set (held r)"
    by (force simp: stamp_used_def list_ex_iff)
  then have "card {ts. stamp_used r who ts} \<le> card (snd ` op_log_dedup r \<union> (op_hlc \<circ> fst) ` set (held r))"
    using assms by (intro card_mono) simp_all
  also have "\<dots> \<le> card (snd ` op_log_dedup r) + card ((op_hlc \<circ> fst) ` set (held r))"
    by (rule card_Un_le)
  also have "\<dots> \<le> card (op_log_dedup r) + length (held r)"
    by (intro add_mono card_image_le assms order_trans [OF card_image_le card_length]) simp
  finally show ?thesis .
qed

text \<open>C26: Authoring always returns: with a clock, a signer and wall readings below \<open>2^63\<close> ms, the stamp search
  of \<open>create_op\<close> ends, on a stamp later than the clock's and unused in the log and the held ops, and the
  op it signs passes every peer's author check.\<close>

theorem create_op_terminates:
  assumes "encoding_laws E" and "signature_laws E" and "length sk = 32"
    and "clock r = Some c" and "hlc_actor c = peer_id (from_secret_bytes E sk)" and "lane_wf c"
    and "signer r = Some (from_secret_bytes E sk, b64_encode E (public_key_protobuf E (from_secret_bytes E sk)))"
    and "unat (physical_ms (latest c)) < 2 ^ 63" and "\<forall>i. unat (walls i) < 2 ^ 63"
    and "finite (op_log_dedup (ensure_dedup r))" and "card (op_log_dedup (ensure_dedup r)) + length (held r) < 2 ^ 62"
  shows "\<exists>op r'. create_op E walls payload r = Some (op, r') \<and> op_payload op = payload
    \<and> op_server_id op = server_id (st r) \<and> verify_author E op = Inr () \<and> latest c < op_hlc op
    \<and> op_key op \<notin> op_log_dedup (ensure_dedup r) \<union> op_key ` fst ` set (held r)"
proof -
  have "card {ts. stamp_used (ensure_dedup r) (hlc_actor c) ts} < 2 ^ 62"
    using stamp_used_card [OF assms(10), of "hlc_actor c"] assms(11) by simp
  then have "has_room (tick_n walls 0 (Suc (card {ts. stamp_used (ensure_dedup r) (hlc_actor c) ts})) c)"
    using assms(6,8,9) by (intro tick_n_has_room) simp_all
  from create_op_returns [OF assms(4,7,10) this, of E payload]
  obtain ts c' where c: "create_op E walls payload r =
      Some (op_sign E (from_secret_bytes E sk) (b64_encode E (public_key_protobuf E (from_secret_bytes E sk)))
        \<lparr>op_server_id = server_id (st r), op_hlc = ts, op_author = hlc_actor c, op_payload = payload, op_auth = None\<rparr>,
        (ensure_dedup r)\<lparr>clock := Some c'\<rparr>)"
    and ts: "(hlc_actor c, ts) \<notin> op_log_dedup (ensure_dedup r) \<union> op_key ` fst ` set (held r)" "latest c < ts" "actor ts = hlc_actor c"
    by blast
  have "verify_author E (op_sign E (from_secret_bytes E sk) (b64_encode E (public_key_protobuf E (from_secret_bytes E sk)))
      \<lparr>op_server_id = server_id (st r), op_hlc = ts, op_author = hlc_actor c, op_payload = payload, op_auth = None\<rparr>) = Inr ()"
    using assms(1-3,5) ts(3) by (intro signed_op_verifies) simp_all
  with c ts(1,2) show ?thesis
    by (auto simp: op_key_def)
qed

definition sample_author :: replica where
  "sample_author = set_signer sample_founder sample_pk
     (set_hlc 50 (for_device (sha256 sample_env) (peer_id sample_founder) ''phone'' 50) (replica_of (skeleton ''srv'')))"

theorem create_op_terminates_witness:
  "\<exists>op r'. create_op (sample_fold_env None) (\<lambda>_. 100) (ServerRenamed ''new'') sample_author = Some (op, r')
     \<and> verify_author (sample_fold_env None) op = Inr ()"
proof -
  define c where "c = for_device (sha256 sample_env) (peer_id sample_founder) ''phone'' 50"
  have r: "clock sample_author = Some c" "signer sample_author = Some (sample_founder, sample_pk)"
    "op_log sample_author = []" "held sample_author = []" "ensure_dedup sample_author = sample_author" "op_log_dedup sample_author = {}"
    by (simp_all add: sample_author_def set_signer_def set_hlc_def witness_retained_def replica_of_def Let_def c_def ensure_dedup_def)
  have c: "hlc_actor c = peer_id sample_founder" "lane_wf c" "physical_ms (latest c) = 50"
    by (simp_all add: c_def for_device_def seeded_def lane_wf_def lane_of_less)
  have "length (sample_key (CHR ''k'')) = 32" by (simp add: sample_key_def)
  from create_op_terminates [OF sample_fold_env_laws(1,2) this r(1) c(1) [unfolded sample_founder_def] c(2)
      r(2) [unfolded sample_pk_def sample_founder_def], of "\<lambda>_. 100" "ServerRenamed ''new''"]
  show ?thesis by (auto simp: r c(3))
qed

section \<open>A joiner's snapshot\<close>


section \<open>The owner's checkpoint\<close>

lemma filter_found:
  "List.find P m = Some e \<Longrightarrow> distinct (map fst m) \<Longrightarrow> filter (\<lambda>x. fst x = fst e \<and> P x) m = [e]"
proof (induction m)
  case (Cons x m)
  show ?case
  proof (cases "P x")
    case True
    then have "e = x" using Cons.prems(1) by simp
    moreover have "filter (\<lambda>y. fst y = fst x \<and> P y) m = []"
      using Cons.prems(2) by (auto simp: filter_empty_conv image_iff)
    ultimately show ?thesis using True by simp
  next
    case False
    with Cons show ?thesis by simp
  qed
qed simp

lemma owner_entries_demoted:
  assumes "current_owner s = Some me" and "hm_wf (roles s)"
  shows "owner_entries (checkpoint_base me past now s) = [me]"
proof -
  obtain reg where "List.find (\<lambda>e. lww_read (snd e) = Owner) (roles s) = Some (me, reg)"
    using assms(1) by (auto simp: current_owner_def)
  from filter_found [OF this] assms(2)
  have one: "filter (\<lambda>e. fst e = me \<and> lww_read (snd e) = Owner) (roles s) = [(me, reg)]"
    by (simp add: hm_wf_def)
  have "filter (\<lambda>e. lww_read (snd e) = Owner) (map (\<lambda>(pid, reg). (pid, demote_co_owner me pid reg)) m)
      = filter (\<lambda>e. fst e = me \<and> lww_read (snd e) = Owner) m" for m
    by (induction m) (auto simp: demote_co_owner_def lww_read_def lww_new_def split: if_splits)
  with one show ?thesis
    by (simp add: owner_entries_def checkpoint_base_def Let_def)
qed

lemma checkpoint_base_frame [simp]:
  "server_id (checkpoint_base me past now s) = server_id s" "deleted (checkpoint_base me past now s) = deleted s"
  "members (checkpoint_base me past now s) = members s"
  by (simp_all add: checkpoint_base_def Let_def)

text \<open>C9: The owner's own checkpoint works: the op that carries \<open>checkpoint_json\<close> and covers the \<open>horizon\<close> is
  admitted by the state it was taken from, anchors the replica on it with the owner pinned and the
  members kept, and prunes the log to the founding op (of a self-certifying server) and itself.\<close>

theorem own_checkpoint_anchors:
  assumes "state_of_json E (checkpoint_json E me past now r) = Some (checkpoint_base me past now (st r))"
    and "current_owner (st r) = Some me" and "owner_pin (st r) \<in> {None, Some me}" and "hm_wf (roles (st r))"
    and "\<not> deleted (st r)" and "is_none_or (\<lambda>b. b < horizon r) (checkpoint_hlc (st r))"
    and "op_author op = me" and "op_payload op = ServerCheckpoint (checkpoint_json E me past now r) (horizon r)"
    and "horizon r \<le> op_hlc op"
    and "sorted (map fold_key (op_log r))" and "list_all (\<lambda>o1. fold_key o1 < (horizon r, True)) (op_log r)"
  shows "op_allowed E (st r) op \<and> anchor (st (admit E op r)) = Checkpoint \<and> owner_pin (st (admit E op r)) = Some me
    \<and> checkpoint_hlc (st (admit E op r)) = Some (horizon r) \<and> members (st (admit E op r)) = members (st r)
    \<and> op_log (admit E op r)
        = filter (\<lambda>o1. is_founding (op_payload o1) \<and> is_genesis_id (server_id (st r))) (op_log r) @ [op]"
proof -
  have "anchor_owner (st r) = Some me"
    using assms(2,3) by (auto simp: anchor_owner_def)
  then have ok: "op_allowed E (st r) op"
    using assms(1,5-9) owner_entries_demoted [OF assms(2,4)]
    by (simp add: op_allowed_checkpoint checkpoint_allowed_def is_none_or_iff is_some_and_iff not_le)
  have st: "apply_payload E op (st r) = rebase_on (checkpoint_base me past now (st r)) me (horizon r) (st r)"
    using assms(1,7,8) by (simp add: apply_payload_def apply_checkpoint_def)
  have "\<forall>o1 \<in> set (op_log r). fold_key o1 < fold_key op"
    using assms(8,11) by (simp add: fold_key_checkpoint list_all_iff)
  from log_admit_checkpoint [OF assms(10) this assms(8) ok] ok st show ?thesis
    by (simp add: anchor_def)
qed

lemma log_tail_le_horizon:
  assumes "op_log r \<noteq> []"
  shows "fst (fold_key (last (op_log r))) \<le> horizon r"
proof -
  let ?h = "fst (fold_key (last (op_log r)))"
  obtain cs where cs: "horizon r = unwrap_or (hlc_zero []) (list_max cs)" and h: "?h \<in> set cs"
  proof
    show "?h \<in> set (?h # List.map_filter id [Some (reg_hlc (srv_name (st r))), newest_hlc (roles (st r)),
        newest_hlc (settings (st r)), newest_hlc (nicknames (st r)), newest_hlc (banned_members (st r)), newest_hlc (muted_members (st r))])"
      by simp
  qed (simp add: horizon_def Let_def log_tail_hlc_def assms List.map_filter_simps)
  then obtain m where "list_max cs = Some m"
    by (cases "list_max cs") auto
  with list_max_ge [OF this h] cs show ?thesis by simp
qed

definition sample_checkpoint_env :: fold_env where
  "sample_checkpoint_env = sample_fold_env (Some (checkpoint_base (peer_id sample_founder) [] 0 (st sample_replica)))"

definition sample_checkpoint :: crdt_op where
  "sample_checkpoint = \<lparr>op_server_id = server_id (st sample_replica), op_hlc = horizon sample_replica,
     op_author = peer_id sample_founder,
     op_payload = ServerCheckpoint (checkpoint_json sample_checkpoint_env (peer_id sample_founder) [] 0 sample_replica) (horizon sample_replica),
     op_auth = None\<rparr>"

theorem own_checkpoint_anchors_witness:
  "anchor (st (admit sample_checkpoint_env sample_checkpoint sample_replica)) = Checkpoint
     \<and> length (op_log (admit sample_checkpoint_env sample_checkpoint sample_replica)) \<le> 2"
proof (rule sample_founded)
  fix op
  let ?me = "peer_id sample_founder"
  assume log: "op_log sample_replica = [op]"
    and st: "st sample_replica = seed_founder ''club'' ?me (op_hlc op) (skeleton (op_server_id op))"
    and plain: "\<not> is_checkpoint (op_payload op)"
  have s: "current_owner (st sample_replica) = Some ?me" "owner_pin (st sample_replica) = Some ?me"
    "hm_wf (roles (st sample_replica))" "\<not> deleted (st sample_replica)" "checkpoint_hlc (st sample_replica) = None"
    unfolding st by (simp_all add: seed_founder_def skeleton_def current_owner_def Let_def lww_read_def lww_new_def hm_wf_def)
  have tail: "list_all (\<lambda>o1. fold_key o1 < (horizon sample_replica, True)) (op_log sample_replica)"
    using log_tail_le_horizon [of sample_replica] plain by (simp add: log fold_key_other)
  have "anchor (st (admit sample_checkpoint_env sample_checkpoint sample_replica)) = Checkpoint
    \<and> op_log (admit sample_checkpoint_env sample_checkpoint sample_replica)
        = filter (\<lambda>o1. is_founding (op_payload o1) \<and> is_genesis_id (server_id (st sample_replica))) (op_log sample_replica)
          @ [sample_checkpoint]"
    using own_checkpoint_anchors [of sample_checkpoint_env ?me "[]" 0 sample_replica sample_checkpoint] s tail log
    by (simp add: sample_checkpoint_def sample_checkpoint_env_def is_none_or_def)
  then show ?thesis by (simp add: log)
qed

section \<open>A legacy server moves onto the fold\<close>

lemma judge_pin:
  "owner_pin (st r) = Some p \<Longrightarrow> owner_pin (st (fst (foldl (judge E) (r, refused) cs))) = Some p"
proof (induction cs arbitrary: r refused)
  case (Cons c cs)
  then show ?case
    by (cases "op_allowed E (st r) c") (simp_all add: judge_simps allowed_keeps_pin)
qed simp

lemma legacy_rebuild:
  fixes out :: ingested and t :: instant
  assumes "owner_pin (st r) = Some ow" and "\<forall>op \<in> ops_of r \<union> set fresh. op_stamped op"
    and "distinct (map op_key (op_log r @ map fst (held r) @ fresh))"
    and "cp \<in> set fresh" and "owner_checkpoint E (server_id (st r)) ow cp"
  defines "r' \<equiv> snd (fold_in E t fresh out r)"
  shows "anchor (st r') = Checkpoint" and "owner_pin (st r') = Some ow" and "fold_inv E r'"
proof -
  have "cp \<in> set (candidates fresh r)"
    using candidates_perm(1) [OF assms(3)] assms(4) by simp
  then have "checkpoint_hlc (st r') \<noteq> None"
    unfolding r'_def fold_in_st using assms(1,5) by (intro judge_stays_anchored) (auto simp: rebuilt_from_def)
  then show "anchor (st r') = Checkpoint" by (simp add: anchor_def)
  show "owner_pin (st r') = Some ow"
    unfolding r'_def fold_in_st using assms(1) by (intro judge_pin) (simp add: rebuilt_from_def)
  show "fold_inv E r'"
    unfolding r'_def by (rule fold_in_inv [OF assms(2)])
qed


text \<open>A legacy server of the sample founder, and their checkpoint of it.\<close>

definition sample_legacy :: server_state where
  "sample_legacy = seed_founder ''club'' (peer_id sample_founder) (HlcTimestamp 80 0 (peer_id sample_founder)) (skeleton ''legacy'')"

definition sample_legacy_checkpoint :: crdt_op where
  "sample_legacy_checkpoint = op_sign (sample_fold_env (Some sample_legacy)) sample_founder sample_pk
     \<lparr>op_server_id = ''legacy'', op_hlc = HlcTimestamp 100 0 (peer_id sample_founder), op_author = peer_id sample_founder,
      op_payload = ServerCheckpoint ''base'' (HlcTimestamp 90 0 (peer_id sample_founder)), op_auth = None\<rparr>"

lemma sample_founder_env: "from_secret_bytes (sample_fold_env b) (sample_key (CHR ''k'')) = sample_founder"
  by (simp add: sample_founder_def from_secret_bytes_def compute_peer_id_def)

lemma sample_pk_env: "b64_encode (sample_fold_env b) (public_key_protobuf (sample_fold_env b) sample_founder) = sample_pk"
  by (simp add: sample_pk_def public_key_protobuf_def)



end
