(* ===== verification/Sync.thy ===== *)
theory Sync
  imports AuthorityProps
begin

text \<open>
  Catch-up by state vector (\<open>crdt/sync.rs\<close>): what a peer has seen, the delta it lacks, what a former
  member is told about its removal, and the batch merge. \<open>members_of_json\<close> is serde's reader of the keys
  of a checkpoint's member map.
\<close>

section \<open>State vectors\<close>

record state_vector =
  sv_server_id :: string
  sv_entries :: "hlc_timestamp hmap"

definition vector_note :: "hlc_timestamp hmap \<Rightarrow> crdt_op \<Rightarrow> hlc_timestamp hmap" where
  "vector_note m op =
     (if is_none_or (\<lambda>cur. cur < op_hlc op) (hm_get m (op_author op))
      then hm_insert (op_author op) (op_hlc op) m else m)"

definition from_op_log :: "string \<Rightarrow> crdt_op list \<Rightarrow> state_vector" where
  "from_op_log sid ops = \<lparr>sv_server_id = sid, sv_entries = foldl vector_note [] ops\<rparr>"

definition from_server_state :: "replica \<Rightarrow> state_vector" where
  "from_server_state r = from_op_log (server_id (st r)) (op_log r)"

definition compute_delta :: "crdt_op list \<Rightarrow> state_vector \<Rightarrow> crdt_op list" where
  "compute_delta our_ops their_vector =
     filter (\<lambda>op. case hm_get (sv_entries their_vector) (op_author op) of
                    None \<Rightarrow> True
                  | Some their_latest \<Rightarrow> their_latest < op_hlc op) our_ops"

definition vector_lacks :: "state_vector \<Rightarrow> crdt_op \<Rightarrow> bool" where
  "vector_lacks their_vector op =
     is_none_or (\<lambda>latest. latest < op_hlc op) (hm_get (sv_entries their_vector) (op_author op))"

section \<open>What a former member is told\<close>

definition lists_member :: "(string \<Rightarrow> string list option) \<Rightarrow> string \<Rightarrow> string \<Rightarrow> bool" where
  "lists_member members_of_json base master = is_some_and (\<lambda>ks. master \<in> set ks) (members_of_json base)"

definition membership_step ::
  "(string \<Rightarrow> string list option) \<Rightarrow> string \<Rightarrow> bool \<times> crdt_op option \<Rightarrow> crdt_op \<Rightarrow> bool \<times> crdt_op option" where
  "membership_step J master x op =
     (let (member, en) = x in
      case op_payload op of
        ServerCreated _ ow _ \<Rightarrow> (ow = master, en)
      | ServerCheckpoint base _ \<Rightarrow> (lists_member J base master, en)
      | MemberAdded pid _ _ _ \<Rightarrow> (if pid = master then True else member, en)
      | MemberRemoved pid \<Rightarrow> if pid = master \<and> member then (False, Some op) else x
      | MemberBanned pid \<Rightarrow> if pid = master \<and> member then (False, Some op) else x
      | _ \<Rightarrow> x)"

definition membership_end :: "(string \<Rightarrow> string list option) \<Rightarrow> crdt_op list \<Rightarrow> string \<Rightarrow> crdt_op option" where
  "membership_end J log master =
     (let (member, en) = foldl (membership_step J master) (False, None) log
      in opt_filter (\<lambda>_. \<not> member) en)"

definition decides_rank :: "crdt_op \<Rightarrow> string set \<Rightarrow> bool" where
  "decides_rank op ids =
     (case op_payload op of
        MemberAdded pid _ _ _ \<Rightarrow> pid \<in> ids
      | MemberRemoved pid \<Rightarrow> pid \<in> ids
      | MemberBanned pid \<Rightarrow> pid \<in> ids
      | MemberUnbanned pid \<Rightarrow> pid \<in> ids
      | RoleChanged pid _ _ \<Rightarrow> pid \<in> ids
      | RolePermissionsChanged _ _ \<Rightarrow> True
      | ServerCreated _ _ _ \<Rightarrow> True
      | ServerCheckpoint _ _ \<Rightarrow> True
      | ServerSettingChanged k _ \<Rightarrow> k = ''is_private'' \<or> k = ''max_members'' \<or> starts_with ''twitch_'' k
      | _ \<Rightarrow> False)"

text \<open>One pass over the earlier ops with their picks; the pass repeats until the set of identities stops growing.\<close>

fun pick_pass :: "string set \<Rightarrow> (crdt_op \<times> bool) list \<Rightarrow> string set \<times> (crdt_op \<times> bool) list" where
  "pick_pass ids [] = (ids, [])"
| "pick_pass ids ((op, picked) # xs) =
     (let pick = \<not> picked \<and> decides_rank op ids;
          (ids', ys) = pick_pass (if pick then insert (op_author op) ids else ids) xs
      in (ids', (op, picked \<or> pick) # ys))"

definition unpicked :: "(crdt_op \<times> bool) list \<Rightarrow> nat" where
  "unpicked xs = length (filter (\<lambda>x. \<not> snd x) xs)"

lemma pick_pass_shrinks:
  "pick_pass ids xs = (ids', ys) \<Longrightarrow>
     unpicked ys \<le> unpicked xs \<and> (unpicked ys = unpicked xs \<longrightarrow> ids' = ids \<and> ys = xs)"
proof (induction xs arbitrary: ids ids' ys)
  case (Cons x xs)
  obtain op picked where x: "x = (op, picked)" by (cases x)
  define pick where "pick = (\<not> picked \<and> decides_rank op ids)"
  obtain c zs where p: "pick_pass (if pick then insert (op_author op) ids else ids) xs = (c, zs)"
    by (cases "pick_pass (if pick then insert (op_author op) ids else ids) xs")
  have "ids' = c" "ys = (op, picked \<or> pick) # zs"
    using Cons.prems x p by (simp_all add: pick_def [symmetric])
  with Cons.IH [OF p] x show ?case
    by (cases pick) (auto simp: unpicked_def pick_def)
qed simp

function pick_until_stable :: "string set \<Rightarrow> (crdt_op \<times> bool) list \<Rightarrow> string set \<times> (crdt_op \<times> bool) list" where
  "pick_until_stable ids xs =
     (let y = pick_pass ids xs
      in if card (fst y) = card ids then y else pick_until_stable (fst y) (snd y))"
  by pat_completeness auto
termination
proof (relation "measure (\<lambda>(ids, xs). unpicked xs)", goal_cases)
  case (2 ids xs y)
  then show ?case
    using pick_pass_shrinks [of ids xs "fst y" "snd y"] by (cases "unpicked (snd y) = unpicked xs") (auto simp: split_beta)
qed simp

declare pick_until_stable.simps [simp del]

definition removal_notice ::
  "(string \<Rightarrow> string list option) \<Rightarrow> crdt_op list \<Rightarrow> string \<Rightarrow> (crdt_op \<Rightarrow> bool) \<Rightarrow> crdt_op list" where
  "removal_notice J log master lacks =
     (case membership_end J log master of
        None \<Rightarrow> []
      | Some removal \<Rightarrow>
          (let earlier = filter (\<lambda>op. op_hlc op < op_hlc removal \<and> lacks op) log @ [removal];
               (ids, picks) = pick_until_stable {master, op_author removal} (map (\<lambda>op. (op, False)) earlier)
           in map fst (filter snd picks)))"

section \<open>Merging a batch\<close>

record merge_report =
  mr_applied :: nat
  mr_rejected :: nat
  mr_rebuilt :: bool

text \<open>The hook's calls are returned: the ops it fires for, in order.\<close>

definition merge_ops_with ::
  "('a) fold_env_scheme \<Rightarrow> u64 \<Rightarrow> instant \<Rightarrow> crdt_op list \<Rightarrow> replica \<Rightarrow> merge_report \<times> crdt_op list \<times> replica" where
  "merge_ops_with E now t incoming r =
     (let (ing, r) = ingest_remote E now t incoming r
      in (\<lparr>mr_applied = length (in_admitted ing), mr_rejected = in_rejected ing, mr_rebuilt = in_rebuilt ing\<rparr>,
          in_admitted ing, r))"

definition merge_ops ::
  "('a) fold_env_scheme \<Rightarrow> u64 \<Rightarrow> instant \<Rightarrow> crdt_op list \<Rightarrow> replica \<Rightarrow> merge_report \<times> replica" where
  "merge_ops E now t incoming r = (let (rep, _, r) = merge_ops_with E now t incoming r in (rep, r))"

definition payload_name :: "crdt_payload \<Rightarrow> string" where
  "payload_name p =
     (case p of
        ServerCreated _ _ _ \<Rightarrow> ''ServerCreated''
      | ServerCheckpoint _ _ \<Rightarrow> ''ServerCheckpoint''
      | ServerRenamed _ \<Rightarrow> ''ServerRenamed''
      | ServerSettingChanged _ _ \<Rightarrow> ''ServerSettingChanged''
      | JoinKeySet _ \<Rightarrow> ''JoinKeySet''
      | JoinLock _ _ _ \<Rightarrow> ''JoinLock''
      | ServerDeleted _ \<Rightarrow> ''ServerDeleted''
      | ChannelAdded _ _ _ _ \<Rightarrow> ''ChannelAdded''
      | ChannelRemoved _ \<Rightarrow> ''ChannelRemoved''
      | ChannelRenamed _ _ \<Rightarrow> ''ChannelRenamed''
      | MemberAdded _ _ _ _ \<Rightarrow> ''MemberAdded''
      | MemberRemoved _ \<Rightarrow> ''MemberRemoved''
      | RoleChanged _ _ _ \<Rightarrow> ''RoleChanged''
      | NicknameChanged _ _ \<Rightarrow> ''NicknameChanged''
      | TwitchUsernameChanged _ _ \<Rightarrow> ''TwitchUsernameChanged''
      | ChannelLayoutUpdated _ \<Rightarrow> ''ChannelLayoutUpdated''
      | MessagePinned _ _ \<Rightarrow> ''MessagePinned''
      | MessageUnpinned _ _ \<Rightarrow> ''MessageUnpinned''
      | StoragePledgeChanged _ _ \<Rightarrow> ''StoragePledgeChanged''
      | RolePermissionsChanged _ _ \<Rightarrow> ''RolePermissionsChanged''
      | LabelCreated _ _ _ _ \<Rightarrow> ''LabelCreated''
      | LabelDeleted _ \<Rightarrow> ''LabelDeleted''
      | LabelUpdated _ _ _ _ \<Rightarrow> ''LabelUpdated''
      | LabelAssigned _ _ \<Rightarrow> ''LabelAssigned''
      | LabelUnassigned _ _ \<Rightarrow> ''LabelUnassigned''
      | ChannelVisibilityChanged _ _ \<Rightarrow> ''ChannelVisibilityChanged''
      | ChannelPostingChanged _ _ \<Rightarrow> ''ChannelPostingChanged''
      | ChannelPublicChanged _ _ \<Rightarrow> ''ChannelPublicChanged''
      | ChannelVisibilityLabelsChanged _ _ \<Rightarrow> ''ChannelVisibilityLabelsChanged''
      | ChannelPostingLabelsChanged _ _ \<Rightarrow> ''ChannelPostingLabelsChanged''
      | ChannelGrantSet _ _ _ \<Rightarrow> ''ChannelGrantSet''
      | ChannelGrantRevoked _ _ \<Rightarrow> ''ChannelGrantRevoked''
      | MemberBanned _ \<Rightarrow> ''MemberBanned''
      | MemberUnbanned _ \<Rightarrow> ''MemberUnbanned''
      | MemberMuted _ _ \<Rightarrow> ''MemberMuted''
      | MemberUnmuted _ \<Rightarrow> ''MemberUnmuted''
      | ChannelSlowModeChanged _ _ \<Rightarrow> ''ChannelSlowModeChanged''
      | ChannelMediaOnlyChanged _ _ \<Rightarrow> ''ChannelMediaOnlyChanged''
      | ChannelVoiceChatChanged _ _ \<Rightarrow> ''ChannelVoiceChatChanged''
      | EmojiAdded _ _ _ \<Rightarrow> ''EmojiAdded''
      | EmojiRemoved _ \<Rightarrow> ''EmojiRemoved''
      | StickerAdded _ _ _ _ _ _ \<Rightarrow> ''StickerAdded''
      | StickerRemoved _ \<Rightarrow> ''StickerRemoved'')"

section \<open>The notice\<close>

lemma decides_rank_mono: "decides_rank op ids \<Longrightarrow> ids \<subseteq> ids' \<Longrightarrow> decides_rank op ids'"
  by (auto simp: decides_rank_def split: crdt_payload.splits)

definition picked_ops :: "(crdt_op \<times> bool) list \<Rightarrow> crdt_op set" where
  "picked_ops xs = {op. (op, True) \<in> set xs}"

lemma picked_ops_simps [simp]:
  "picked_ops [] = {}" "picked_ops ((op, b) # xs) = (if b then insert op (picked_ops xs) else picked_ops xs)"
  by (auto simp: picked_ops_def)

lemma pick_pass_facts:
  "pick_pass ids xs = (ids', ys) \<Longrightarrow>
     map fst ys = map fst xs \<and> ids \<subseteq> ids' \<and> picked_ops xs \<subseteq> picked_ops ys
     \<and> ids' \<union> op_author ` picked_ops xs = ids \<union> op_author ` picked_ops ys
     \<and> (\<forall>op \<in> picked_ops ys. op \<in> picked_ops xs \<or> decides_rank op ids')
     \<and> (ids' = ids \<longrightarrow> (\<forall>(op, b) \<in> set ys. \<not> b \<longrightarrow> \<not> decides_rank op ids))"
proof (induction xs arbitrary: ids ids' ys)
  case (Cons x xs)
  obtain op b where x: "x = (op, b)" by (cases x)
  define pick where "pick = (\<not> b \<and> decides_rank op ids)"
  define ids1 where "ids1 = (if pick then insert (op_author op) ids else ids)"
  obtain zs where p: "pick_pass ids1 xs = (ids', zs)" and ys: "ys = (op, b \<or> pick) # zs"
    by (cases "pick_pass ids1 xs") (use Cons.prems in \<open>auto simp: x pick_def ids1_def\<close>)
  note ih = Cons.IH [OF p]
  have sub: "ids \<subseteq> ids1" "ids1 \<subseteq> ids'"
    using ih by (auto simp: ids1_def)
  have "decides_rank op ids'" if pick
    using that sub decides_rank_mono [of op ids ids'] by (auto simp: pick_def)
  then have "\<forall>o1 \<in> picked_ops ys. o1 \<in> picked_ops (x # xs) \<or> decides_rank o1 ids'"
    using ih by (auto simp: ys x)
  moreover have "ids' \<union> op_author ` picked_ops (x # xs) = ids \<union> op_author ` picked_ops ys"
    using ih by (auto simp: ys x ids1_def pick_def)
  moreover have "ids' = ids \<longrightarrow> (\<forall>(o1, c) \<in> set ys. \<not> c \<longrightarrow> \<not> decides_rank o1 ids)"
  proof
    assume "ids' = ids"
    then show "\<forall>(o1, c) \<in> set ys. \<not> c \<longrightarrow> \<not> decides_rank o1 ids"
      using ih sub by (auto simp: ys x pick_def)
  qed
  moreover have "map fst ys = map fst (x # xs)" "picked_ops (x # xs) \<subseteq> picked_ops ys" "ids \<subseteq> ids'"
    using ih sub by (simp_all add: ys x subset_insertI2)
  ultimately show ?case by (intro conjI)
qed simp

lemma pick_sets:
  fixes i :: "'x set"
  shows "i1 \<union> a0 = i \<union> a1 \<Longrightarrow> i2 \<union> a1 = i1 \<union> a2 \<Longrightarrow> a0 \<subseteq> a1 \<Longrightarrow> a1 \<subseteq> a2 \<Longrightarrow> i1 \<subseteq> i2 \<Longrightarrow> i2 \<union> a0 = i \<union> a2"
  by blast

lemma pick_until_stable_facts:
  assumes "finite ids"
  shows "(case pick_until_stable ids xs of (ids', ys) \<Rightarrow>
     map fst ys = map fst xs \<and> ids \<subseteq> ids' \<and> picked_ops xs \<subseteq> picked_ops ys
     \<and> ids' \<union> op_author ` picked_ops xs = ids \<union> op_author ` picked_ops ys
     \<and> (\<forall>op \<in> picked_ops ys. op \<in> picked_ops xs \<or> decides_rank op ids')
     \<and> (\<forall>(op, b) \<in> set ys. \<not> b \<longrightarrow> \<not> decides_rank op ids'))"
  using assms
proof (induction ids xs rule: pick_until_stable.induct)
  case (1 ids xs)
  obtain ids1 ys1 where p: "pick_pass ids xs = (ids1, ys1)" by (cases "pick_pass ids xs")
  note facts = pick_pass_facts [OF p]
  have "ids1 \<subseteq> ids \<union> op_author ` picked_ops ys1" using facts by blast
  moreover have "finite (picked_ops ys1)"
    by (rule finite_subset [of _ "fst ` set ys1"]) (force simp: picked_ops_def)+
  ultimately have fin: "finite ids1"
    using "1.prems" finite_subset by blast
  show ?case
  proof (cases "card ids1 = card ids")
    case True
    then have "ids1 = ids"
      using card_subset_eq [OF fin, of ids] facts by simp
    then show ?thesis
      using facts p True by (simp add: pick_until_stable.simps [of ids xs])
  next
    case False
    obtain ids2 ys2 where q: "pick_until_stable ids1 ys1 = (ids2, ys2)" by (cases "pick_until_stable ids1 ys1")
    have ih: "map fst ys2 = map fst ys1 \<and> ids1 \<subseteq> ids2 \<and> picked_ops ys1 \<subseteq> picked_ops ys2
        \<and> ids2 \<union> op_author ` picked_ops ys1 = ids1 \<union> op_author ` picked_ops ys2
        \<and> (\<forall>op \<in> picked_ops ys2. op \<in> picked_ops ys1 \<or> decides_rank op ids2)
        \<and> (\<forall>(op, b) \<in> set ys2. \<not> b \<longrightarrow> \<not> decides_rank op ids2)"
      using "1.IH" [OF p [symmetric]] False fin q by simp
    note ih2 = ih [THEN conjunct2] and facts2 = facts [THEN conjunct2]
    have sub: "ids \<subseteq> ids1" "ids1 \<subseteq> ids2" "picked_ops xs \<subseteq> picked_ops ys1" "picked_ops ys1 \<subseteq> picked_ops ys2"
      using ih2 [THEN conjunct1] ih2 [THEN conjunct2, THEN conjunct1] facts2 [THEN conjunct1] facts2 [THEN conjunct2, THEN conjunct1]
      by blast+
    have "ids2 \<union> op_author ` picked_ops xs = ids \<union> op_author ` picked_ops ys2"
      using facts2 [THEN conjunct2, THEN conjunct2, THEN conjunct1] ih2 [THEN conjunct2, THEN conjunct2, THEN conjunct1]
      by (rule pick_sets) (intro image_mono sub)+
    moreover have "\<forall>op \<in> picked_ops ys2. op \<in> picked_ops xs \<or> decides_rank op ids2"
      using facts2 [THEN conjunct2, THEN conjunct2, THEN conjunct2, THEN conjunct1]
        ih2 [THEN conjunct2, THEN conjunct2, THEN conjunct2, THEN conjunct1]
        decides_rank_mono [OF _ sub(2)] by fast
    moreover have "map fst ys2 = map fst xs"
      using ih [THEN conjunct1] facts [THEN conjunct1] by simp
    moreover have "pick_until_stable ids xs = (ids2, ys2)"
      using p q False by (simp add: pick_until_stable.simps [of ids xs])
    moreover have "ids \<subseteq> ids2" "picked_ops xs \<subseteq> picked_ops ys2" using sub by blast+
    moreover note ih2 [THEN conjunct2, THEN conjunct2, THEN conjunct2, THEN conjunct2]
    ultimately show ?thesis
      by (simp only: prod.case)
  qed
qed

lemma membership_fold_end:
  "snd (foldl (membership_step J master) x log) = Some op \<Longrightarrow>
     snd x = Some op \<or> op \<in> set log \<and> (op_payload op = MemberRemoved master \<or> op_payload op = MemberBanned master)"
proof (induction log arbitrary: x)
  case (Cons c log)
  have "snd (membership_step J master x c) = snd x \<or> snd (membership_step J master x c) = Some c
      \<and> (op_payload c = MemberRemoved master \<or> op_payload c = MemberBanned master)"
    by (cases "op_payload c") (auto simp: membership_step_def split_beta)
  with Cons.IH [of "membership_step J master x c"] Cons.prems show ?case by auto
qed simp

lemma membership_end_op:
  assumes "membership_end J log master = Some op"
  shows "op \<in> set log" and "op_payload op = MemberRemoved master \<or> op_payload op = MemberBanned master"
  using membership_fold_end [of J master "(False, None)" log op] assms
  by (auto simp: membership_end_def split_beta opt_filter_def split: option.splits if_splits)


text \<open>The sample server's log up to \<open>bob\<close>'s removal.\<close>

definition sample_removal_log :: "crdt_op list" where
  "sample_removal_log = [op_by ''own'' 1 (ServerCreated ''club'' ''own'' []), op_by ''own'' 2 (MemberAdded ''bob'' ''Bob'' None None),
     op_by ''own'' 3 (ServerRenamed ''new''), op_by ''own'' 4 (MemberRemoved ''bob''), op_by ''own'' 5 (ServerRenamed ''newer'')]"


section \<open>The delta\<close>

lemma vector_note_get:
  "hm_get (vector_note m op) a =
     (if a = op_author op \<and> is_none_or (\<lambda>cur. cur < op_hlc op) (hm_get m a) then Some (op_hlc op) else hm_get m a)"
  by (auto simp: vector_note_def)

lemma vector_fold_get:
  "hm_get (foldl vector_note m ops) a = Some h \<Longrightarrow>
     (hm_get m a = Some h \<or> (\<exists>op \<in> set ops. op_author op = a \<and> op_hlc op = h))
     \<and> is_none_or (\<lambda>c. c \<le> h) (hm_get m a) \<and> (\<forall>op \<in> set ops. op_author op = a \<longrightarrow> op_hlc op \<le> h)"
proof (induction ops arbitrary: m)
  case (Cons op ops)
  then have "hm_get (foldl vector_note (vector_note m op) ops) a = Some h" by simp
  from Cons.IH [OF this] show ?case
    by (auto simp: vector_note_get is_none_or_iff split: if_splits)
qed (simp add: is_none_or_def)

lemma vector_fold_none:
  "hm_get (foldl vector_note m ops) a = None \<Longrightarrow> hm_get m a = None \<and> (\<forall>op \<in> set ops. op_author op \<noteq> a)"
proof (induction ops arbitrary: m)
  case (Cons op ops)
  then have "hm_get (foldl vector_note (vector_note m op) ops) a = None" by simp
  from Cons.IH [OF this] show ?case
    by (auto simp: vector_note_get is_none_or_def split: if_splits)
qed simp

text \<open>The state-vector delta never resends what the peer logged, and sends all it lacks whenever the peer
  holds, of each author, the ops up to some stamp (what the vector assumes of a log without gaps).\<close>

theorem vector_delta_exact:
  assumes "\<And>op op'. op \<in> set ours \<Longrightarrow> op \<notin> set theirs \<Longrightarrow> op' \<in> set theirs \<Longrightarrow> op_author op' = op_author op \<Longrightarrow>
    op_hlc op' < op_hlc op"
  shows "compute_delta ours (from_op_log sid theirs) = filter (\<lambda>op. op \<notin> set theirs) ours"
  unfolding compute_delta_def
proof (rule filter_cong [OF refl])
  fix op
  assume op: "op \<in> set ours"
  show "(case hm_get (sv_entries (from_op_log sid theirs)) (op_author op) of None \<Rightarrow> True | Some l \<Rightarrow> l < op_hlc op)
      = (op \<notin> set theirs)"
  proof (cases "hm_get (foldl vector_note [] theirs) (op_author op)")
    case None
    with vector_fold_none [OF None] show ?thesis by (auto simp: from_op_log_def)
  next
    case (Some l)
    with vector_fold_get [OF Some] assms [OF op] show ?thesis by (auto simp: from_op_log_def)
  qed
qed

theorem vector_delta_exact_witness:
  "compute_delta sample_removal_log (from_op_log ''srv'' (take 3 sample_removal_log)) = drop 3 sample_removal_log"
proof -
  have "compute_delta sample_removal_log (from_op_log ''srv'' (take 3 sample_removal_log))
      = filter (\<lambda>op. op \<notin> set (take 3 sample_removal_log)) sample_removal_log"
    by (rule vector_delta_exact) (auto simp: sample_removal_log_def op_by_def sample_stamp_def less_hlc_timestamp_def)
  then show ?thesis
    by (simp add: sample_removal_log_def op_by_def)
qed

end
