(* ===== verification/Digest.thy ===== *)
theory Digest
  imports Sync
begin

text \<open>
  The range digest of catch-up sync (\<open>crdt/digest.rs\<close>): the compared set of a replica with its cache, the
  keyed fingerprint of a range, the first ask, the answer, the split of a large range and the follow-up.
  AES, unpadded base64 and serde are fields of \<open>digest_env\<close>; the random hash of a memo is the argument
  \<open>slot\<close>.
\<close>

type_synonym u128 = "128 word"

record digest_env = fold_env +
  aes128 :: "bytes \<Rightarrow> bytes \<Rightarrow> bytes"
  b64n_encode :: "bytes \<Rightarrow> string"
  b64n_decode :: "string \<Rightarrow> bytes option"
  covers_of_json :: "string \<Rightarrow> hlc_timestamp option"
  op_to_json :: "crdt_op \<Rightarrow> string option"

section \<open>Data\<close>

definition SEND_WHOLE :: nat where "SEND_WHOLE = 32"

definition MAX_ROUNDS :: u8 where "MAX_ROUNDS = 6"

definition SPLIT_BUDGET :: nat where "SPLIT_BUDGET = 256"

datatype range = Range (rg_lo: u64) (rg_hi: u64) (rg_n: u32) (rg_fp: string)

record op_digest =
  dg_ask :: u64
  dg_salt :: string
  dg_base :: "hlc_timestamp option"
  dg_from :: "u64 option"
  dg_ranges :: "range list"
  dg_round :: u8

record digest_reply =
  rp_ask :: u64
  rp_round :: u8
  rp_groups :: "range list list"
  rp_vector :: bool

record kept_ref =
  kr_author :: string
  kr_hlc :: hlc_timestamp
  kr_raw :: string

datatype item = ItemOp crdt_op | ItemRaw string

record entry =
  en_ms :: u64
  en_id :: u128
  en_item :: item

type_synonym row = "u64 \<times> u128 \<times> nat \<times> bool"

record set_stamp =
  log_len :: nat
  log_sum :: u64
  kept_sum :: u128
  stamp_base :: "hlc_timestamp option"

record memo =
  memo_ids :: "(u64 \<times> u128) list"
  memo_last :: "(set_stamp \<times> row list) option"

definition memo_default :: memo where
  "memo_default = \<lparr>memo_ids = [], memo_last = None\<rparr>"

section \<open>Fingerprints\<close>

definition be_u128 :: "bytes \<Rightarrow> u128" where
  "be_u128 bs = of_nat (foldl (\<lambda>n b. 256 * n + code_of b) 0 bs)"

definition id_hash :: "('a) crypto_scheme \<Rightarrow> string \<Rightarrow> hlc_timestamp \<Rightarrow> u128" where
  "id_hash C author h =
     be_u128 (take 16 (sha256 C (''hollow-opid1'' @ [CHR 0x00] @ author @ [CHR 0x00]
       @ be_bytes 8 (unat (physical_ms h)) @ be_bytes 4 (unat (counter h)) @ actor h)))"

text \<open>\<open>random\<close> is what the system RNG returned, \<open>nanos\<close> the time used when it failed.\<close>

definition new_salt :: "('a) digest_env_scheme \<Rightarrow> bytes option \<Rightarrow> u128 \<Rightarrow> string" where
  "new_salt E random nanos =
     b64n_encode E (case random of Some salt \<Rightarrow> salt | None \<Rightarrow> take 16 (sha256 E (be_bytes 16 (unat nanos))))"

definition keyed_new :: "('a) digest_env_scheme \<Rightarrow> string \<Rightarrow> bytes option" where
  "keyed_new E salt = opt_filter (\<lambda>b. length b = 16) (b64n_decode E salt)"

definition keyed_of :: "('a) digest_env_scheme \<Rightarrow> bytes \<Rightarrow> u128 \<Rightarrow> u128" where
  "keyed_of E key i = be_u128 (aes128 E key (be_bytes 16 (unat i)))"

definition keyed_print :: "('a) digest_env_scheme \<Rightarrow> bytes \<Rightarrow> entry list \<Rightarrow> u32 \<times> string" where
  "keyed_print E key es =
     (let sum = foldl (\<lambda>acc e. acc + keyed_of E key (en_id e)) 0 es;
          n = (if length es < 2 ^ 32 then of_nat (length es) else - 1)
      in (n, b64n_encode E (be_bytes 16 (unat sum))))"

section \<open>The compared set\<close>

definition kept_checkpoint_covers :: "('a) digest_env_scheme \<Rightarrow> string \<Rightarrow> hlc_timestamp option" where
  "kept_checkpoint_covers E raw = covers_of_json E raw"

definition set_stamp_of ::
  "('a) crypto_scheme \<Rightarrow> u64 list \<Rightarrow> kept_ref list \<Rightarrow> hlc_timestamp option \<Rightarrow> set_stamp" where
  "set_stamp_of C slots krs base =
     \<lparr>log_len = length slots,
      log_sum = foldl (\<lambda>a s. a * 0x100000001b3 + s) 0 slots,
      kept_sum = foldl (\<lambda>a k. a * 0x100000001b3 + id_hash C (kr_author k) (kr_hlc k)) 0 krs,
      stamp_base = base\<rparr>"

definition rows_entries :: "crdt_op list \<Rightarrow> kept_ref list \<Rightarrow> row list \<Rightarrow> entry list" where
  "rows_entries log krs rows =
     map (\<lambda>(ms, i, at, is_kept).
       \<lparr>en_ms = ms, en_id = i, en_item = (if is_kept then ItemRaw (kr_raw (krs ! at)) else ItemOp (log ! at))\<rparr>) rows"

definition live_ids :: "u64 list \<Rightarrow> (u64 \<times> u128) list \<Rightarrow> (u64 \<times> u128) list" where
  "live_ids slots ids =
     (if length slots * 2 + 256 < length ids then filter (\<lambda>(k, _). k \<in> set slots) ids else ids)"

definition log_row ::
  "('a) crypto_scheme \<Rightarrow> hlc_timestamp option \<Rightarrow> bool \<Rightarrow> (u64 \<times> u128) list \<times> row list
     \<Rightarrow> nat \<times> crdt_op \<times> u64 \<Rightarrow> (u64 \<times> u128) list \<times> row list" where
  "log_row C base genesis x y =
     (let (ids, rows) = x; (at, op, key) = y in
      if is_none_or (\<lambda>b. retained_under op b genesis) base
      then (let i = (case map_of ids key of Some i \<Rightarrow> i | None \<Rightarrow> id_hash C (op_author op) (op_hlc op));
                ids = (if map_of ids key = None then (key, i) # ids else ids)
            in (ids, rows @ [(physical_ms (fst (fold_key op)), i, at, False)]))
      else x)"

definition kept_row ::
  "('a) digest_env_scheme \<Rightarrow> hlc_timestamp option \<Rightarrow> u128 set \<Rightarrow> nat \<times> kept_ref \<Rightarrow> row option" where
  "kept_row E base held_ids y =
     (let (at, k) = y; i = id_hash E (kr_author k) (kr_hlc k) in
      if i \<in> held_ids then None
      else
        (let covers = kept_checkpoint_covers E (kr_raw k);
             retained = (case base of
                           None \<Rightarrow> True
                         | Some b \<Rightarrow> (case covers of Some c \<Rightarrow> b \<le> c | None \<Rightarrow> b < kr_hlc k))
         in if retained then Some (physical_ms (unwrap_or (kr_hlc k) covers), i, at, True) else None))"

text \<open>What \<open>entries\<close> computes on a miss of the cached set: its rows, and the memo of ids it leaves.\<close>

definition fresh_rows ::
  "('a) digest_env_scheme \<Rightarrow> u64 list \<Rightarrow> replica \<Rightarrow> kept_ref list \<Rightarrow> hlc_timestamp option \<Rightarrow> (u64 \<times> u128) list
     \<Rightarrow> (u64 \<times> u128) list \<times> row list" where
  "fresh_rows E slots r krs base ids =
     (let genesis = is_genesis_id (server_id (st r));
          (ids, rows) = foldl (log_row E base genesis) (live_ids slots ids, [])
             (zip [0..<length (op_log r)] (zip (op_log r) slots));
          held_ids = set (map (\<lambda>row. fst (snd row)) rows);
          rows = rows @ List.map_filter (kept_row E base held_ids) (zip [0..<length krs] krs)
      in (ids, sort_key (\<lambda>row. (fst row, fst (snd row))) rows))"

definition entries ::
  "('a) digest_env_scheme \<Rightarrow> (string \<times> hlc_timestamp \<Rightarrow> u64) \<Rightarrow> replica \<Rightarrow> kept_ref list \<Rightarrow> hlc_timestamp option
     \<Rightarrow> memo \<Rightarrow> entry list \<times> memo" where
  "entries E slot r krs base m =
     (let slots = map (\<lambda>op. slot (op_author op, op_hlc op)) (op_log r);
          stamp = set_stamp_of E slots krs base in
      if is_some_and (\<lambda>l. fst l = stamp) (memo_last m)
      then (rows_entries (op_log r) krs (snd (the (memo_last m))), m)
      else
        (let (ids, rows) = fresh_rows E slots r krs base (memo_ids m)
         in (rows_entries (op_log r) krs rows, \<lparr>memo_ids = ids, memo_last = Some (stamp, rows)\<rparr>)))"

definition within :: "entry list \<Rightarrow> u64 \<Rightarrow> u64 \<Rightarrow> entry list" where
  "within es lo hi =
     (let start = partition_point (\<lambda>e. en_ms e < lo) es;
          stop = partition_point (\<lambda>e. en_ms e \<le> hi) es
      in if stop \<le> start then [] else take (stop - start) (drop start es))"

section \<open>Asking\<close>

definition print_range :: "('a) digest_env_scheme \<Rightarrow> bytes \<Rightarrow> entry list \<Rightarrow> u64 \<Rightarrow> u64 \<Rightarrow> range" where
  "print_range E key es lo hi = (let (n, fp) = keyed_print E key (within es lo hi) in Range lo hi n fp)"

text \<open>Consecutive ranges from increasing lower bounds: each ends where the next starts, the last at \<open>top\<close>.\<close>

fun cover :: "('a) digest_env_scheme \<Rightarrow> bytes \<Rightarrow> entry list \<Rightarrow> u64 \<Rightarrow> u64 list \<Rightarrow> range list" where
  "cover E key es tp [] = []"
| "cover E key es tp [lo] = [print_range E key es lo tp]"
| "cover E key es tp (lo # nxt # los) = print_range E key es lo (nxt - 1) # cover E key es tp (nxt # los)"

text \<open>The loop that doubles \<open>back\<close>. A \<open>Vec\<close> has fewer than \<open>2 ^ 63\<close> elements, so the saturating product
  never saturates while the loop runs.\<close>

function back_marks :: "entry list \<Rightarrow> nat \<Rightarrow> u64 list" where
  "back_marks es back =
     (if 0 < back \<and> back \<le> length es
      then en_ms (es ! (length es - back)) # back_marks es (2 * back)
      else [])"
  by pat_completeness auto
termination by (relation "measure (\<lambda>(es, back). Suc (length es) - back)") auto

declare back_marks.simps [simp del]

definition first_bounds :: "entry list \<Rightarrow> u64 list" where
  "first_bounds es = remdups_adj (sort (0 # back_marks es 1))"

definition first_ask ::
  "('a) digest_env_scheme \<Rightarrow> entry list \<Rightarrow> u64 \<Rightarrow> string \<Rightarrow> hlc_timestamp option \<Rightarrow> op_digest" where
  "first_ask E es ask salt base =
     (let everything = \<lparr>dg_ask = ask, dg_salt = salt, dg_base = base, dg_from = Some 0, dg_ranges = [], dg_round = 0\<rparr> in
      case keyed_new E salt of
        None \<Rightarrow> everything
      | Some key \<Rightarrow>
          if es = [] then everything
          else (let tp = en_ms (last es)
                in everything\<lparr>dg_from := checked_add tp 1, dg_ranges := cover E key es tp (first_bounds es)\<rparr>))"

section \<open>Answering\<close>

definition disjoint :: "range list \<Rightarrow> bool" where
  "disjoint rs \<longleftrightarrow> list_all (\<lambda>r. rg_lo r \<le> rg_hi r) rs
     \<and> list_all (\<lambda>i. rg_hi (rs ! i) < rg_lo (rs ! Suc i)) [0..<length rs - 1]"

text \<open>The ids sent so far and the items sent.\<close>

type_synonym sending = "u128 set \<times> item list"

definition take_entry :: "sending \<Rightarrow> entry \<Rightarrow> sending" where
  "take_entry x e = (if en_id e \<in> fst x then x else (insert (en_id e) (fst x), snd x @ [en_item e]))"

definition take_entries :: "entry list \<Rightarrow> sending \<Rightarrow> sending" where
  "take_entries es x = foldl take_entry x es"

definition answer_range ::
  "('a) digest_env_scheme \<Rightarrow> bytes \<Rightarrow> entry list \<Rightarrow> u8 \<Rightarrow> sending \<times> entry list list \<Rightarrow> range
     \<Rightarrow> sending \<times> entry list list" where
  "answer_range E key es round x rg =
     (let (snt, to_split) = x;
          ours = within es (rg_lo rg) (rg_hi rg);
          forced = (rg_fp rg = []) in
      if \<not> forced \<and> keyed_print E key ours = (rg_n rg, rg_fp rg) then x
      else
        (let one_ms = (ours = [] \<or> en_ms (hd ours) = en_ms (last ours)) in
         if forced \<or> length ours \<le> SEND_WHOLE \<or> one_ms \<or> MAX_ROUNDS \<le> round
         then (take_entries ours snt, to_split)
         else (snt, to_split @ [ours])))"

definition split_cuts :: "entry list \<Rightarrow> nat \<Rightarrow> u64 list" where
  "split_cuts ours parts =
     remdups_adj (filter (\<lambda>ms. en_ms (hd ours) < ms) (map (\<lambda>k. en_ms (ours ! (k * length ours div parts))) [1..<parts]))"

definition split_ranges :: "('a) digest_env_scheme \<Rightarrow> bytes \<Rightarrow> entry list \<Rightarrow> nat \<Rightarrow> range list" where
  "split_ranges E key ours parts =
     (if ours = [] then []
      else cover E key ours (en_ms (last ours)) (en_ms (hd ours) # split_cuts ours parts))"

definition split_group ::
  "('a) digest_env_scheme \<Rightarrow> bytes \<Rightarrow> nat \<Rightarrow> nat \<times> sending \<times> range list list \<Rightarrow> entry list
     \<Rightarrow> nat \<times> sending \<times> range list list" where
  "split_group E key fanout x ours =
     (let (budget, snt, groups) = x;
          parts = min (max (min fanout ((length ours + SEND_WHOLE - 1) div SEND_WHOLE)) 2) budget;
          grp = (if 2 \<le> parts then split_ranges E key ours parts else [])
      in if 2 \<le> length grp then (budget - length grp, snt, groups @ [grp])
         else (budget, take_entries ours snt, groups))"

definition answer ::
  "('a) digest_env_scheme \<Rightarrow> entry list \<Rightarrow> op_digest \<Rightarrow> (item list \<times> digest_reply) option" where
  "answer E es d =
     (if SPLIT_BUDGET < length (dg_ranges d) \<or> MAX_ROUNDS < dg_round d \<or> \<not> disjoint (dg_ranges d) then None
      else
        (case keyed_new E (dg_salt d) of
           None \<Rightarrow> None
         | Some key \<Rightarrow>
             (let (snt, to_split) = foldl (answer_range E key es (dg_round d)) (({}, []), []) (dg_ranges d);
                  fanout = max (SPLIT_BUDGET div max (length to_split) 1) 2;
                  (budget, snt, groups) = foldl (split_group E key fanout) (SPLIT_BUDGET, snt, []) to_split;
                  snt = (case dg_from d of
                           None \<Rightarrow> snt
                         | Some start_ms \<Rightarrow> take_entries (drop (partition_point (\<lambda>e. en_ms e < start_ms) es) es) snt)
              in Some (snd snt, \<lparr>rp_ask = dg_ask d, rp_round = dg_round d, rp_groups = groups, rp_vector = False\<rparr>))))"

section \<open>Following up\<close>

definition follow_group :: "('a) digest_env_scheme \<Rightarrow> bytes \<Rightarrow> entry list \<Rightarrow> range list \<Rightarrow> range list" where
  "follow_group E key es grp =
     (let differing = List.map_filter (\<lambda>rg.
            let ours = keyed_print E key (within es (rg_lo rg) (rg_hi rg))
            in if ours \<noteq> (rg_n rg, rg_fp rg) then Some (Range (rg_lo rg) (rg_hi rg) (fst ours) (snd ours)) else None) grp
      in if length grp < length differing * 2
         then (if grp = [] then [] else [Range (rg_lo (hd grp)) (rg_hi (last grp)) 0 []])
         else differing)"

definition follow_up ::
  "('a) digest_env_scheme \<Rightarrow> entry list \<Rightarrow> string \<Rightarrow> (u64 \<times> u64) list \<Rightarrow> digest_reply \<Rightarrow> range list option" where
  "follow_up E es salt asked reply =
     (case keyed_new E salt of
        None \<Rightarrow> None
      | Some key \<Rightarrow>
          (let all = concat (rp_groups reply);
               inside = (\<lambda>g. g \<noteq> [] \<and> list_ex (\<lambda>(lo, hi). lo \<le> rg_lo (hd g) \<and> rg_hi (last g) \<le> hi) asked) in
           if SPLIT_BUDGET < length all \<or> \<not> disjoint all \<or> \<not> list_all inside (rp_groups reply) then None
           else Some (concat (map (follow_group E key es) (rp_groups reply)))))"

definition item_part :: "('a) digest_env_scheme \<Rightarrow> item \<Rightarrow> string option" where
  "item_part E it = (case it of ItemOp op \<Rightarrow> op_to_json E op | ItemRaw raw \<Rightarrow> Some raw)"

definition items_json :: "('a) digest_env_scheme \<Rightarrow> item list \<Rightarrow> string" where
  "items_json E items = ''['' @ join_comma (List.map_filter (item_part E) items) @ '']''"

end
