(* ===== verification/DigestProps.thy ===== *)
theory DigestProps
  imports Digest
begin

text \<open>
  The digest exchange brings the asker everything it lacks: ranges cover what they are cut from, an honest
  ask is answered, an honest answer is followed up, and the last round sends whole.
\<close>

section \<open>Ranges of a sorted set\<close>

definition ms_sorted :: "entry list \<Rightarrow> bool" where
  "ms_sorted es \<longleftrightarrow> sorted (map en_ms es)"

lemma ms_sorted_Cons: "ms_sorted (e # es) \<longleftrightarrow> (\<forall>x \<in> set es. en_ms e \<le> en_ms x) \<and> ms_sorted es"
  by (auto simp: ms_sorted_def)

lemma ms_sorted_filter: "ms_sorted es \<Longrightarrow> ms_sorted (filter P es)"
  by (simp add: ms_sorted_def sorted_filter)

lemma take_le_filter:
  "ms_sorted es \<Longrightarrow> take (length (takeWhile (\<lambda>e. en_ms e \<le> hi) es)) es = filter (\<lambda>e. en_ms e \<le> hi) es"
proof (induction es)
  case (Cons e es)
  show ?case
  proof (cases "en_ms e \<le> hi")
    case True
    with Cons show ?thesis by (simp add: ms_sorted_Cons)
  next
    case False
    then have "filter (\<lambda>x. en_ms x \<le> hi) es = []"
      using Cons.prems by (force simp: ms_sorted_Cons filter_empty_conv)
    with False show ?thesis by simp
  qed
qed simp

lemma drop_less_filter:
  "ms_sorted es \<Longrightarrow> drop (length (takeWhile (\<lambda>e. en_ms e < lo) es)) es = filter (\<lambda>e. lo \<le> en_ms e) es"
proof (induction es)
  case (Cons e es)
  show ?case
  proof (cases "en_ms e < lo")
    case True
    with Cons show ?thesis by (simp add: ms_sorted_Cons not_le)
  next
    case False
    then have "filter (\<lambda>x. lo \<le> en_ms x) es = es"
      using Cons.prems by (force simp: ms_sorted_Cons filter_id_conv)
    with False show ?thesis by simp
  qed
qed simp

lemma within_filter:
  "ms_sorted es \<Longrightarrow> within es lo hi = filter (\<lambda>e. lo \<le> en_ms e \<and> en_ms e \<le> hi) es"
proof -
  have "within es lo hi = drop (partition_point (\<lambda>e. en_ms e < lo) es) (take (partition_point (\<lambda>e. en_ms e \<le> hi) es) es)"
    by (simp add: within_def Let_def drop_take)
  moreover have "drop (length (takeWhile (\<lambda>e. en_ms e < lo) es)) (take (length (takeWhile (\<lambda>e. en_ms e \<le> hi) es)) es)
      = filter (\<lambda>e. lo \<le> en_ms e \<and> en_ms e \<le> hi) es" if "ms_sorted es"
    using that
  proof (induction es)
    case (Cons e es)
    consider (above) "\<not> en_ms e \<le> hi" | (below) "en_ms e \<le> hi" "en_ms e < lo" | (inside) "en_ms e \<le> hi" "lo \<le> en_ms e"
      by fastforce
    then show ?case
    proof cases
      case above
      then have "filter (\<lambda>x. lo \<le> en_ms x \<and> en_ms x \<le> hi) es = []"
        using Cons.prems by (force simp: ms_sorted_Cons filter_empty_conv)
      with above show ?thesis by simp
    next
      case below
      with Cons show ?thesis by (simp add: ms_sorted_Cons not_le)
    next
      case inside
      then have "filter (\<lambda>x. lo \<le> en_ms x \<and> en_ms x \<le> hi) es = filter (\<lambda>x. en_ms x \<le> hi) es"
        using Cons.prems by (intro filter_cong) (force simp: ms_sorted_Cons)+
      with inside Cons.prems take_le_filter [of es hi] show ?thesis by (simp add: ms_sorted_Cons not_less)
    qed
  qed simp
  ultimately show "ms_sorted es \<Longrightarrow> ?thesis"
    by (simp add: partition_point_def)
qed

lemma within_set: "ms_sorted es \<Longrightarrow> e \<in> set (within es lo hi) \<longleftrightarrow> e \<in> set es \<and> lo \<le> en_ms e \<and> en_ms e \<le> hi"
  by (auto simp: within_filter)

lemma within_within:
  "ms_sorted es \<Longrightarrow> lo \<le> a \<Longrightarrow> b \<le> hi \<Longrightarrow> within (within es lo hi) a b = within es a b"
  by (auto simp: within_filter ms_sorted_filter intro!: filter_cong)

section \<open>Range lists\<close>

lemma word_pred:
  fixes lo :: u64
  assumes "lo < nxt"
  shows "ms \<le> nxt - 1 \<longleftrightarrow> ms < nxt"
proof -
  have "unat nxt \<noteq> 0" using assms by (simp add: word_less_nat_alt)
  moreover have "1 \<le> nxt" using calculation by (simp add: word_le_nat_alt)
  then have "unat (nxt - 1) = unat nxt - 1" by (simp add: unat_sub)
  ultimately show ?thesis by (simp add: word_le_nat_alt word_less_nat_alt) linarith
qed

definition rg_ordered :: "range list \<Rightarrow> bool" where
  "rg_ordered rs \<longleftrightarrow> list_all (\<lambda>r. rg_lo r \<le> rg_hi r) rs \<and> sorted_wrt (\<lambda>a b. rg_hi a < rg_lo b) rs"

lemma rg_ordered_Cons:
  "rg_ordered (r # rs) \<longleftrightarrow> rg_lo r \<le> rg_hi r \<and> (\<forall>x \<in> set rs. rg_hi r < rg_lo x) \<and> rg_ordered rs"
  by (auto simp: rg_ordered_def)

lemma rg_ordered_append:
  "rg_ordered (rs @ ss) \<longleftrightarrow> rg_ordered rs \<and> rg_ordered ss \<and> (\<forall>a \<in> set rs. \<forall>b \<in> set ss. rg_hi a < rg_lo b)"
  by (auto simp: rg_ordered_def sorted_wrt_append)

lemma disjoint_iff:
  "disjoint rs \<longleftrightarrow> list_all (\<lambda>r. rg_lo r \<le> rg_hi r) rs \<and> (\<forall>i < length rs - 1. rg_hi (rs ! i) < rg_lo (rs ! Suc i))"
  by (auto simp: disjoint_def list_all_iff)

lemma disjoint_Cons: "disjoint (r # s # rs) \<longleftrightarrow> rg_lo r \<le> rg_hi r \<and> rg_hi r < rg_lo s \<and> disjoint (s # rs)"
  by (auto simp: disjoint_iff All_less_Suc2)

lemma disjoint_ordered: "disjoint rs \<longleftrightarrow> rg_ordered rs"
proof (induction rs rule: induct_list012)
  case (3 r s rs)
  have "rg_hi r < rg_lo x" if "rg_hi r < rg_lo s" "rg_ordered (s # rs)" "x \<in> set rs" for x
    using that by (auto simp: rg_ordered_Cons)
  with 3 show ?case
    by (auto simp: disjoint_Cons rg_ordered_Cons [of r])
qed (simp_all add: disjoint_def rg_ordered_def)

lemma print_range_simps [simp]:
  "rg_lo (print_range E key es lo hi) = lo" "rg_hi (print_range E key es lo hi) = hi"
  by (simp_all add: print_range_def split_beta)

lemma print_range_print:
  "(rg_n (print_range E key es lo hi), rg_fp (print_range E key es lo hi)) = keyed_print E key (within es lo hi)"
  by (simp add: print_range_def split_beta)

text \<open>Ranges cut at increasing bounds are ordered, start at the first bound, end at the top and cover all
  between.\<close>

lemma cover_props:
  assumes "sorted_wrt (<) los" and "los \<noteq> []" and "last los \<le> tp"
  shows "rg_ordered (cover E key es tp los)" and "length (cover E key es tp los) = length los"
    and "rg_lo (hd (cover E key es tp los)) = hd los" and "rg_hi (last (cover E key es tp los)) = tp"
    and "\<forall>rg \<in> set (cover E key es tp los). rg = print_range E key es (rg_lo rg) (rg_hi rg) \<and> hd los \<le> rg_lo rg \<and> rg_hi rg \<le> tp"
    and "hd los \<le> ms \<Longrightarrow> ms \<le> tp \<Longrightarrow> \<exists>rg \<in> set (cover E key es tp los). rg_lo rg \<le> ms \<and> ms \<le> rg_hi rg"
proof -
  have "rg_ordered (cover E key es tp los) \<and> length (cover E key es tp los) = length los
    \<and> rg_lo (hd (cover E key es tp los)) = hd los \<and> rg_hi (last (cover E key es tp los)) = tp
    \<and> (\<forall>rg \<in> set (cover E key es tp los). rg = print_range E key es (rg_lo rg) (rg_hi rg) \<and> hd los \<le> rg_lo rg \<and> rg_hi rg \<le> tp)
    \<and> (hd los \<le> ms \<longrightarrow> ms \<le> tp \<longrightarrow> (\<exists>rg \<in> set (cover E key es tp los). rg_lo rg \<le> ms \<and> ms \<le> rg_hi rg))"
    using assms
  proof (induction E key es tp los rule: cover.induct)
    case (3 E key es tp lo nxt los)
    have lt: "lo < nxt" and ih: "sorted_wrt (<) (nxt # los)" "last (nxt # los) \<le> tp"
      using "3.prems" by simp_all
    note IH = "3.IH" [OF ih(1) _ ih(2), simplified]
    have tp: "nxt \<le> tp"
    proof -
      have "last (nxt # los) \<in> set (nxt # los)" by (rule last_in_set) simp
      then have "nxt \<le> last (nxt # los)" using ih(1) by (auto intro: less_imp_le)
      with ih(2) show ?thesis by (rule order_trans [rotated])
    qed
    have pred: "\<And>x. x \<le> nxt - 1 \<longleftrightarrow> x < nxt" using lt by (rule word_pred)
    have le: "lo \<le> nxt - 1" "nxt - 1 < nxt" "nxt - 1 \<le> tp"
      using lt tp pred [of lo] pred [of "nxt - 1"] by auto
    have ne: "cover E key es tp (nxt # los) \<noteq> []" using IH by auto
    show ?case
      using IH le ne lt pred [of ms] tp
      by (auto simp: rg_ordered_Cons not_less intro: less_le_trans order_trans [of lo nxt])
  qed (simp_all add: rg_ordered_def)
  then show "rg_ordered (cover E key es tp los)" and "length (cover E key es tp los) = length los"
    and "rg_lo (hd (cover E key es tp los)) = hd los" and "rg_hi (last (cover E key es tp los)) = tp"
    and "\<forall>rg \<in> set (cover E key es tp los). rg = print_range E key es (rg_lo rg) (rg_hi rg) \<and> hd los \<le> rg_lo rg \<and> rg_hi rg \<le> tp"
    and "hd los \<le> ms \<Longrightarrow> ms \<le> tp \<Longrightarrow> \<exists>rg \<in> set (cover E key es tp los). rg_lo rg \<le> ms \<and> ms \<le> rg_hi rg"
    by simp_all
qed

section \<open>What is sent\<close>

definition sending_inv :: "entry list \<Rightarrow> sending \<Rightarrow> bool" where
  "sending_inv es x \<longleftrightarrow> (\<forall>i \<in> fst x. \<exists>e \<in> set es. en_id e = i \<and> en_item e \<in> set (snd x)) \<and> set (snd x) \<subseteq> en_item ` set es"

lemma take_entry_inv: "sending_inv es x \<Longrightarrow> e \<in> set es \<Longrightarrow> sending_inv es (take_entry x e)"
  by (auto simp: sending_inv_def take_entry_def)

lemma take_entries_inv: "sending_inv es x \<Longrightarrow> set xs \<subseteq> set es \<Longrightarrow> sending_inv es (take_entries xs x)"
  unfolding take_entries_def by (induction xs arbitrary: x) (simp_all add: take_entry_inv)

lemma take_entries_ids: "fst (take_entries xs x) = fst x \<union> en_id ` set xs"
proof (induction xs arbitrary: x)
  case (Cons e xs)
  have "fst (take_entry x e) = insert (en_id e) (fst x)" by (auto simp: take_entry_def)
  with Cons [of "take_entry x e"] show ?case by (simp add: take_entries_def)
qed (simp add: take_entries_def)

section \<open>The answer to one list of ranges\<close>

definition rg_matches :: "('a) digest_env_scheme \<Rightarrow> bytes \<Rightarrow> entry list \<Rightarrow> range \<Rightarrow> bool" where
  "rg_matches E key es rg \<longleftrightarrow> rg_fp rg \<noteq> [] \<and> keyed_print E key (within es (rg_lo rg) (rg_hi rg)) = (rg_n rg, rg_fp rg)"

definition rg_whole :: "entry list \<Rightarrow> u8 \<Rightarrow> range \<Rightarrow> bool" where
  "rg_whole es round rg \<longleftrightarrow>
     (let ours = within es (rg_lo rg) (rg_hi rg)
      in rg_fp rg = [] \<or> length ours \<le> SEND_WHOLE \<or> (ours = [] \<or> en_ms (hd ours) = en_ms (last ours)) \<or> MAX_ROUNDS \<le> round)"

definition sends_ranges :: "('a) digest_env_scheme \<Rightarrow> bytes \<Rightarrow> entry list \<Rightarrow> u8 \<Rightarrow> sending \<Rightarrow> range list \<Rightarrow> sending" where
  "sends_ranges E key es round x rs =
     foldl (\<lambda>x rg. if \<not> rg_matches E key es rg \<and> rg_whole es round rg
                    then take_entries (within es (rg_lo rg) (rg_hi rg)) x else x) x rs"

definition splits_ranges :: "('a) digest_env_scheme \<Rightarrow> bytes \<Rightarrow> entry list \<Rightarrow> u8 \<Rightarrow> range list \<Rightarrow> entry list list" where
  "splits_ranges E key es round rs =
     map (\<lambda>rg. within es (rg_lo rg) (rg_hi rg)) (filter (\<lambda>rg. \<not> rg_matches E key es rg \<and> \<not> rg_whole es round rg) rs)"

lemma answer_ranges_eq:
  "foldl (answer_range E key es round) (x, ts) rs = (sends_ranges E key es round x rs, ts @ splits_ranges E key es round rs)"
proof (induction rs arbitrary: x ts)
  case (Cons rg rs)
  consider (m) "rg_matches E key es rg" | (w) "\<not> rg_matches E key es rg" "rg_whole es round rg"
    | (s) "\<not> rg_matches E key es rg" "\<not> rg_whole es round rg" by blast
  then show ?case
  proof cases
    case m
    then have "answer_range E key es round (x, ts) rg = (x, ts)"
      by (simp add: answer_range_def rg_matches_def Let_def)
    with Cons m show ?thesis by (simp add: sends_ranges_def splits_ranges_def)
  next
    case w
    then have "answer_range E key es round (x, ts) rg = (take_entries (within es (rg_lo rg) (rg_hi rg)) x, ts)"
      by (auto simp: answer_range_def rg_matches_def rg_whole_def Let_def)
    with Cons w show ?thesis by (simp add: sends_ranges_def splits_ranges_def)
  next
    case s
    then have "answer_range E key es round (x, ts) rg = (x, ts @ [within es (rg_lo rg) (rg_hi rg)])"
      by (auto simp: answer_range_def rg_matches_def rg_whole_def Let_def)
    with Cons s show ?thesis by (simp add: sends_ranges_def splits_ranges_def)
  qed
qed (simp add: sends_ranges_def splits_ranges_def)

lemma sends_ranges_facts:
  assumes "ms_sorted es" and "sending_inv es x"
  shows "sending_inv es (sends_ranges E key es round x rs) \<and> fst x \<subseteq> fst (sends_ranges E key es round x rs)
    \<and> (\<forall>rg \<in> set rs. \<not> rg_matches E key es rg \<longrightarrow> rg_whole es round rg \<longrightarrow>
         en_id ` set (within es (rg_lo rg) (rg_hi rg)) \<subseteq> fst (sends_ranges E key es round x rs))"
  using assms(2)
proof (induction rs arbitrary: x)
  case (Cons rg rs)
  define y where "y = (if \<not> rg_matches E key es rg \<and> rg_whole es round rg
      then take_entries (within es (rg_lo rg) (rg_hi rg)) x else x)"
  have sub: "set (within es (rg_lo rg) (rg_hi rg)) \<subseteq> set es"
    using assms(1) by (auto simp: within_set)
  have y: "sending_inv es y" "fst x \<subseteq> fst y"
    using Cons.prems sub by (auto simp: y_def take_entries_inv take_entries_ids)
  have mine: "\<not> rg_matches E key es rg \<longrightarrow> rg_whole es round rg \<longrightarrow> en_id ` set (within es (rg_lo rg) (rg_hi rg)) \<subseteq> fst y"
    by (simp add: y_def take_entries_ids)
  have "sends_ranges E key es round x (rg # rs) = sends_ranges E key es round y rs"
    by (simp add: sends_ranges_def y_def)
  with Cons.IH [OF y(1)] y(2) mine show ?case by auto
qed (simp add: sends_ranges_def)

lemma splits_facts:
  assumes "ms_sorted es" and "rg_ordered rs"
  shows "sorted_wrt (\<lambda>a b. en_ms (last a) < en_ms (hd b)) (splits_ranges E key es round rs)"
    and "\<forall>o1 \<in> set (splits_ranges E key es round rs). o1 \<noteq> [] \<and> ms_sorted o1 \<and> en_ms (hd o1) < en_ms (last o1)
      \<and> round < MAX_ROUNDS \<and> (\<exists>rg \<in> set rs. o1 = within es (rg_lo rg) (rg_hi rg) \<and> rg_lo rg \<le> en_ms (hd o1) \<and> en_ms (last o1) \<le> rg_hi rg)"
proof -
  have mem: "within es lo hi \<noteq> [] \<Longrightarrow> lo \<le> en_ms (hd (within es lo hi)) \<and> en_ms (last (within es lo hi)) \<le> hi" for lo hi
    using within_set [OF assms(1)] by (metis hd_in_set last_in_set)
  have ne: "within es (rg_lo rg) (rg_hi rg) \<noteq> []" if "\<not> rg_whole es round rg" for rg
    using that by (auto simp: rg_whole_def Let_def)
  show "\<forall>o1 \<in> set (splits_ranges E key es round rs). o1 \<noteq> [] \<and> ms_sorted o1 \<and> en_ms (hd o1) < en_ms (last o1)
      \<and> round < MAX_ROUNDS \<and> (\<exists>rg \<in> set rs. o1 = within es (rg_lo rg) (rg_hi rg) \<and> rg_lo rg \<le> en_ms (hd o1) \<and> en_ms (last o1) \<le> rg_hi rg)"
  proof
    fix o1 assume "o1 \<in> set (splits_ranges E key es round rs)"
    then obtain rg where rg: "rg \<in> set rs" "o1 = within es (rg_lo rg) (rg_hi rg)" "\<not> rg_whole es round rg"
      by (auto simp: splits_ranges_def)
    have "ms_sorted o1" using assms(1) by (simp add: rg(2) within_filter ms_sorted_filter)
    moreover have o1: "o1 \<noteq> []" "en_ms (hd o1) \<noteq> en_ms (last o1)" "round < MAX_ROUNDS"
      using rg(3) by (auto simp: rg_whole_def Let_def rg(2) [symmetric] not_le)
    moreover have "en_ms (hd o1) \<le> en_ms (last o1)"
      using calculation(1) o1(1) by (cases o1) (auto simp: ms_sorted_Cons)
    ultimately show "o1 \<noteq> [] \<and> ms_sorted o1 \<and> en_ms (hd o1) < en_ms (last o1) \<and> round < MAX_ROUNDS
        \<and> (\<exists>rg \<in> set rs. o1 = within es (rg_lo rg) (rg_hi rg) \<and> rg_lo rg \<le> en_ms (hd o1) \<and> en_ms (last o1) \<le> rg_hi rg)"
      using rg mem [of "rg_lo rg" "rg_hi rg"] by auto
  qed
  show "sorted_wrt (\<lambda>a b. en_ms (last a) < en_ms (hd b)) (splits_ranges E key es round rs)"
    using assms(2)
  proof (induction rs)
    case (Cons rg rs)
    have later: "en_ms (last (within es (rg_lo rg) (rg_hi rg))) < en_ms (hd (within es (rg_lo r2) (rg_hi r2)))"
      if "r2 \<in> set rs" "\<not> rg_whole es round r2" "\<not> rg_whole es round rg" for r2
    proof -
      have "rg_hi rg < rg_lo r2" using Cons.prems that(1) by (simp add: rg_ordered_Cons)
      with mem [OF ne [OF that(2)]] mem [OF ne [OF that(3)]] show ?thesis by (meson le_less_trans less_le_trans)
    qed
    have "rg_ordered rs" using Cons.prems by (simp add: rg_ordered_Cons)
    with Cons.IH later show ?case by (auto simp: splits_ranges_def)
  qed (simp add: splits_ranges_def)
qed

section \<open>Splitting\<close>

lemma strict_remdups_adj: "sorted xs \<Longrightarrow> sorted_wrt (<) (remdups_adj (xs :: 'a::linorder list))"
proof (induction xs rule: remdups_adj.induct)
  case (3 x y xs)
  have "\<forall>z \<in> set (remdups_adj (y # xs)). y \<le> z" using "3.prems" by simp
  with 3 show ?case by fastforce
qed simp_all

lemma split_cuts_facts:
  assumes "ms_sorted ours" and "ours \<noteq> []" and "2 \<le> parts"
  shows "sorted_wrt (<) (en_ms (hd ours) # split_cuts ours parts)"
    and "length (split_cuts ours parts) < parts"
    and "last (en_ms (hd ours) # split_cuts ours parts) \<le> en_ms (last ours)"
proof -
  define ix where "ix = (\<lambda>k. k * length ours div parts)"
  have ix: "ix k < length ours" if "k < parts" for k
  proof -
    have "k * length ours < parts * length ours" using that assms(2) by simp
    then show ?thesis using assms(3) by (simp add: ix_def less_mult_imp_div_less mult.commute)
  qed
  have nth_mono: "en_ms (ours ! i) \<le> en_ms (ours ! j)" if "i \<le> j" "j < length ours" for i j
    using assms(1) that sorted_nth_mono [of "map en_ms ours" i j] by (simp add: ms_sorted_def)
  have "sorted (map (\<lambda>k. en_ms (ours ! ix k)) [1..<parts])"
  proof (rule sorted_iff_nth_mono [THEN iffD2], intro allI impI)
    fix i j
    assume ij: "i \<le> j" "j < length (map (\<lambda>k. en_ms (ours ! ix k)) [1..<parts])"
    have "ix (1 + i) \<le> ix (1 + j)"
      using ij(1) by (simp add: ix_def div_le_mono)
    moreover have "ix (1 + j) < length ours" using ij(2) by (intro ix) simp
    ultimately show "map (\<lambda>k. en_ms (ours ! ix k)) [1..<parts] ! i \<le> map (\<lambda>k. en_ms (ours ! ix k)) [1..<parts] ! j"
      using ij nth_mono by simp
  qed
  then have "sorted (filter (\<lambda>ms. en_ms (hd ours) < ms) (map (\<lambda>k. en_ms (ours ! ix k)) [1..<parts]))"
    by (rule sorted_wrt_filter)
  from strict_remdups_adj [OF this]
  have strict: "sorted_wrt (<) (split_cuts ours parts)"
    by (simp add: split_cuts_def ix_def)
  then show "sorted_wrt (<) (en_ms (hd ours) # split_cuts ours parts)"
    by (auto simp: split_cuts_def)
  have "length (split_cuts ours parts) \<le> length (map (\<lambda>k. en_ms (ours ! ix k)) [1..<parts])"
    unfolding split_cuts_def ix_def by (rule order_trans [OF remdups_adj_length length_filter_le])
  then show "length (split_cuts ours parts) < parts"
    using assms(3) by simp
  have "last (en_ms (hd ours) # split_cuts ours parts) \<in> set (en_ms (hd ours) # split_cuts ours parts)"
    by (rule last_in_set) simp
  moreover have "x \<le> en_ms (last ours)" if "x \<in> set (split_cuts ours parts)" for x
  proof -
    from that obtain k where "x = en_ms (ours ! ix k)" "k < parts"
      by (auto simp: split_cuts_def ix_def)
    with ix [of k] nth_mono [of "ix k" "length ours - 1"] assms(2) show ?thesis
      by (simp add: last_conv_nth)
  qed
  moreover have "en_ms (hd ours) \<le> en_ms (last ours)"
    using nth_mono [of 0 "length ours - 1"] assms(2) by (simp add: hd_conv_nth last_conv_nth)
  ultimately show "last (en_ms (hd ours) # split_cuts ours parts) \<le> en_ms (last ours)" by auto
qed

lemma ms_sorted_bounds: "ms_sorted es \<Longrightarrow> e \<in> set es \<Longrightarrow> en_ms (hd es) \<le> en_ms e \<and> en_ms e \<le> en_ms (last es)"
  by (induction es) (auto simp: ms_sorted_Cons)

text \<open>\<open>is_split g ours\<close>: the ranges \<open>g\<close> cut up the entries \<open>ours\<close>.\<close>

definition is_split :: "('a) digest_env_scheme \<Rightarrow> bytes \<Rightarrow> range list \<Rightarrow> entry list \<Rightarrow> bool" where
  "is_split E key g ours \<longleftrightarrow> g \<noteq> [] \<and> rg_ordered g \<and> rg_lo (hd g) = en_ms (hd ours) \<and> rg_hi (last g) = en_ms (last ours)
     \<and> (\<forall>rg \<in> set g. rg = print_range E key ours (rg_lo rg) (rg_hi rg) \<and> en_ms (hd ours) \<le> rg_lo rg \<and> rg_hi rg \<le> en_ms (last ours))
     \<and> (\<forall>e \<in> set ours. \<exists>rg \<in> set g. rg_lo rg \<le> en_ms e \<and> en_ms e \<le> rg_hi rg)"

lemma split_ranges_is_split:
  assumes "ms_sorted ours" and "ours \<noteq> []" and "2 \<le> parts"
  shows "is_split E key (split_ranges E key ours parts) ours" and "length (split_ranges E key ours parts) \<le> parts"
proof -
  let ?los = "en_ms (hd ours) # split_cuts ours parts"
  note facts = split_cuts_facts [OF assms]
  have g: "split_ranges E key ours parts = cover E key ours (en_ms (last ours)) ?los"
    using assms(2) by (simp add: split_ranges_def)
  have ne: "?los \<noteq> []" by simp
  note cov = cover_props [where E = E and key = key and es = ours, OF facts(1) ne facts(3)]
  show "length (split_ranges E key ours parts) \<le> parts"
    using cov(2) facts(2) by (simp add: g)
  have "\<exists>rg \<in> set (split_ranges E key ours parts). rg_lo rg \<le> en_ms e \<and> en_ms e \<le> rg_hi rg" if "e \<in> set ours" for e
    using cov(6) [of "en_ms e"] ms_sorted_bounds [OF assms(1) that] by (simp add: g)
  moreover have "split_ranges E key ours parts \<noteq> []"
    using cov(2) by (auto simp: g)
  ultimately show "is_split E key (split_ranges E key ours parts) ours"
    using cov(1,3-5) by (simp add: is_split_def g)
qed

text \<open>What a run of \<^const>\<open>split_group\<close> over \<open>ts\<close> leaves: the budget pays for the ranges, and every list of
  entries to split was sent or cut up.\<close>

definition split_out ::
  "('a) digest_env_scheme \<Rightarrow> bytes \<Rightarrow> entry list \<Rightarrow> entry list list \<Rightarrow> nat \<times> sending \<times> range list list
     \<Rightarrow> nat \<times> sending \<times> range list list \<Rightarrow> bool" where
  "split_out E key es ts = (\<lambda>(budget, x, groups) (budget', x', groups').
     sending_inv es x' \<and> fst x \<subseteq> fst x' \<and> rg_ordered (concat groups')
     \<and> budget' + length (concat groups') = budget + length (concat groups)
     \<and> (\<forall>g \<in> set groups'. g \<in> set groups \<or> (\<exists>o1 \<in> set ts. is_split E key g o1))
     \<and> set groups \<subseteq> set groups'
     \<and> (\<forall>o1 \<in> set ts. en_id ` set o1 \<subseteq> fst x' \<or> (\<exists>g \<in> set groups'. is_split E key g o1)))"

lemma split_out_split:
  assumes "split_out E key es ts (budget - length grp, x, groups @ [grp]) r" and "is_split E key grp o1" and "length grp \<le> budget"
  shows "split_out E key es (o1 # ts) (budget, x, groups) r"
  using assms by (cases r) (auto simp: split_out_def)

lemma split_out_sent:
  assumes "split_out E key es ts (budget, y, groups) r" and "fst x \<subseteq> fst y" and "en_id ` set o1 \<subseteq> fst y"
  shows "split_out E key es (o1 # ts) (budget, x, groups) r"
  using assms by (cases r) (auto simp: split_out_def)

lemma split_groups_facts:
  assumes "\<forall>o1 \<in> set ts. set o1 \<subseteq> set es \<and> o1 \<noteq> [] \<and> ms_sorted o1"
    and "sorted_wrt (\<lambda>a b. en_ms (last a) < en_ms (hd b)) ts"
    and "sending_inv es x" and "rg_ordered (concat groups)" and "\<forall>rg \<in> set (concat groups). \<forall>o1 \<in> set ts. rg_hi rg < en_ms (hd o1)"
  shows "split_out E key es ts (budget, x, groups) (foldl (split_group E key fanout) (budget, x, groups) ts)"
  using assms
proof (induction ts arbitrary: budget x groups)
  case (Cons o1 ts)
  define parts where "parts = min (max (min fanout ((length o1 + SEND_WHOLE - 1) div SEND_WHOLE)) 2) budget"
  define grp where "grp = (if 2 \<le> parts then split_ranges E key o1 parts else [])"
  have step: "split_group E key fanout (budget, x, groups) o1
      = (if 2 \<le> length grp then (budget - length grp, x, groups @ [grp]) else (budget, take_entries o1 x, groups))"
    unfolding split_group_def Let_def prod.case grp_def parts_def by (rule refl)
  have o1: "set o1 \<subseteq> set es" "o1 \<noteq> []" "ms_sorted o1" using Cons.prems(1) by simp_all
  have later: "\<forall>o2 \<in> set ts. en_ms (last o1) < en_ms (hd o2)" and srt: "sorted_wrt (\<lambda>a b. en_ms (last a) < en_ms (hd b)) ts"
    using Cons.prems(2) by simp_all
  show ?case
  proof (cases "2 \<le> length grp")
    case True
    have p2: "2 \<le> parts" using True by (auto simp: grp_def split: if_splits)
    have sp: "is_split E key grp o1" "length grp \<le> budget"
      using split_ranges_is_split [OF o1(3,2) p2, of E key] p2 by (simp_all add: grp_def parts_def)
    have inside: "rg_ordered grp" "\<forall>rg \<in> set grp. en_ms (hd o1) \<le> rg_lo rg \<and> rg_hi rg \<le> en_ms (last o1)"
      using sp(1) unfolding is_split_def by blast+
    have "rg_hi a < rg_lo b" if "a \<in> set (concat groups)" "b \<in> set grp" for a b
      using Cons.prems(5) that inside(2) by (meson less_le_trans list.set_intros(1))
    then have "rg_ordered (concat (groups @ [grp]))"
      using Cons.prems(4) inside(1) by (simp add: rg_ordered_append)
    moreover have "\<forall>rg \<in> set (concat (groups @ [grp])). \<forall>o2 \<in> set ts. rg_hi rg < en_ms (hd o2)"
      using Cons.prems(5) inside(2) later by (auto intro: le_less_trans)
    ultimately have "split_out E key es ts (budget - length grp, x, groups @ [grp])
        (foldl (split_group E key fanout) (budget - length grp, x, groups @ [grp]) ts)"
      using Cons.prems(1,3) srt by (intro Cons.IH) simp_all
    moreover have "foldl (split_group E key fanout) (budget, x, groups) (o1 # ts)
        = foldl (split_group E key fanout) (budget - length grp, x, groups @ [grp]) ts"
      using True by (simp add: step)
    ultimately show ?thesis using split_out_split sp by simp
  next
    case False
    define y where "y = take_entries o1 x"
    have y: "sending_inv es y" "fst x \<subseteq> fst y" "en_id ` set o1 \<subseteq> fst y"
      using Cons.prems(3) o1(1) by (auto simp: y_def take_entries_inv take_entries_ids)
    have "split_out E key es ts (budget, y, groups) (foldl (split_group E key fanout) (budget, y, groups) ts)"
      using Cons.prems(1,4,5) srt y(1) by (intro Cons.IH) simp_all
    moreover have "foldl (split_group E key fanout) (budget, x, groups) (o1 # ts)
        = foldl (split_group E key fanout) (budget, y, groups) ts"
      using False by (simp add: step y_def)
    ultimately show ?thesis using split_out_sent y(2,3) by simp
  qed
qed (simp add: split_out_def)

section \<open>The whole answer\<close>

definition sent_in :: "entry list \<Rightarrow> item list \<Rightarrow> entry \<Rightarrow> bool" where
  "sent_in es items e \<longleftrightarrow> (\<exists>e' \<in> set es. en_id e' = en_id e \<and> en_item e' \<in> set items)"

lemma sent_in_inv: "sending_inv es x \<Longrightarrow> en_id e \<in> fst x \<Longrightarrow> sent_in es (snd x) e"
  by (auto simp: sending_inv_def sent_in_def)

definition cut_of :: "('a) digest_env_scheme \<Rightarrow> bytes \<Rightarrow> entry list \<Rightarrow> range \<Rightarrow> range list \<Rightarrow> bool" where
  "cut_of E key es rg g \<longleftrightarrow> is_split E key g (within es (rg_lo rg) (rg_hi rg)) \<and> rg_lo rg \<le> rg_lo (hd g) \<and> rg_hi (last g) \<le> rg_hi rg"

lemma cut_of_split:
  assumes "ms_sorted es" and "is_split E key g (within es (rg_lo rg) (rg_hi rg))" and "e \<in> set (within es (rg_lo rg) (rg_hi rg))"
  shows "cut_of E key es rg g"
proof -
  have "within es (rg_lo rg) (rg_hi rg) \<noteq> []" using assms(3) by auto
  then have "rg_lo rg \<le> en_ms (hd (within es (rg_lo rg) (rg_hi rg)))" "en_ms (last (within es (rg_lo rg) (rg_hi rg))) \<le> rg_hi rg"
    using within_set [OF assms(1)] by (metis hd_in_set last_in_set)+
  with assms(2) show ?thesis by (simp add: cut_of_def is_split_def)
qed

text \<open>\<open>good_answer\<close>: what the answerer promises about an ask.\<close>

definition good_answer ::
  "('a) digest_env_scheme \<Rightarrow> bytes \<Rightarrow> entry list \<Rightarrow> op_digest \<Rightarrow> item list \<Rightarrow> digest_reply \<Rightarrow> bool" where
  "good_answer E key es d items reply \<longleftrightarrow>
     rp_ask reply = dg_ask d \<and> rp_round reply = dg_round d \<and> \<not> rp_vector reply
     \<and> set items \<subseteq> en_item ` set es
     \<and> rg_ordered (concat (rp_groups reply)) \<and> length (concat (rp_groups reply)) \<le> SPLIT_BUDGET
     \<and> (rp_groups reply \<noteq> [] \<longrightarrow> dg_round d < MAX_ROUNDS)
     \<and> (\<forall>g \<in> set (rp_groups reply). \<exists>rg \<in> set (dg_ranges d). cut_of E key es rg g)
     \<and> (\<forall>e \<in> set es. \<forall>rg \<in> set (dg_ranges d). rg_lo rg \<le> en_ms e \<longrightarrow> en_ms e \<le> rg_hi rg \<longrightarrow>
          rg_matches E key es rg \<or> sent_in es items e \<or> (\<exists>g \<in> set (rp_groups reply). cut_of E key es rg g))
     \<and> (\<forall>e \<in> set es. \<forall>f. dg_from d = Some f \<longrightarrow> f \<le> en_ms e \<longrightarrow> sent_in es items e)"

lemma drop_from_set:
  assumes "ms_sorted es"
  shows "set (drop (partition_point (\<lambda>e. en_ms e < f) es) es) = {e \<in> set es. f \<le> en_ms e}"
  using assms by (simp add: partition_point_def drop_less_filter)

lemma answer_good:
  assumes srt: "ms_sorted es" and key: "keyed_new E (dg_salt d) = Some key"
    and "length (dg_ranges d) \<le> SPLIT_BUDGET" and "dg_round d \<le> MAX_ROUNDS" and ord: "rg_ordered (dg_ranges d)"
  shows "\<exists>items reply. answer E es d = Some (items, reply) \<and> good_answer E key es d items reply"
proof -
  define x where "x = sends_ranges E key es (dg_round d) ({}, []) (dg_ranges d)"
  define ts where "ts = splits_ranges E key es (dg_round d) (dg_ranges d)"
  obtain budget y groups where y: "foldl (split_group E key (max (SPLIT_BUDGET div max (length ts) 1) 2)) (SPLIT_BUDGET, x, []) ts
      = (budget, y, groups)" by (cases "foldl (split_group E key (max (SPLIT_BUDGET div max (length ts) 1) 2)) (SPLIT_BUDGET, x, []) ts") auto
  define z where "z = (case dg_from d of None \<Rightarrow> y | Some f \<Rightarrow> take_entries (drop (partition_point (\<lambda>e. en_ms e < f) es) es) y)"
  define reply where "reply = \<lparr>rp_ask = dg_ask d, rp_round = dg_round d, rp_groups = groups, rp_vector = False\<rparr>"
  have eq: "answer E es d = Some (snd z, reply)"
    using assms(3-5) y by (simp add: answer_def disjoint_ordered key answer_ranges_eq x_def ts_def z_def reply_def not_less)
  have x: "sending_inv es x" "\<forall>rg \<in> set (dg_ranges d). \<not> rg_matches E key es rg \<longrightarrow> rg_whole es (dg_round d) rg \<longrightarrow>
         en_id ` set (within es (rg_lo rg) (rg_hi rg)) \<subseteq> fst x"
    using sends_ranges_facts [OF srt, of "({}, [])" E key "dg_round d" "dg_ranges d"] by (simp_all add: x_def sending_inv_def)
  note ts = splits_facts [OF srt ord, of E key "dg_round d", folded ts_def]
  have out: "split_out E key es ts (SPLIT_BUDGET, x, []) (budget, y, groups)"
    unfolding y [symmetric] using ts srt x(1)
    by (intro split_groups_facts) (auto simp: rg_ordered_def within_set)
  have z: "sending_inv es z" "fst y \<subseteq> fst z" "\<And>f e. dg_from d = Some f \<Longrightarrow> f \<le> en_ms e \<Longrightarrow> e \<in> set es \<Longrightarrow> en_id e \<in> fst z"
    using out drop_from_set [OF srt] by (auto simp: z_def split_out_def take_entries_inv take_entries_ids split: option.split)
  have cut: "\<exists>rg \<in> set (dg_ranges d). cut_of E key es rg g" if "g \<in> set groups" for g
    using out that ts(2) by (fastforce simp: split_out_def cut_of_def is_split_def)
  have cover: "rg_matches E key es rg \<or> sent_in es (snd z) e \<or> (\<exists>g \<in> set groups. cut_of E key es rg g)"
    if e: "e \<in> set es" "rg_lo rg \<le> en_ms e" "en_ms e \<le> rg_hi rg" and rg: "rg \<in> set (dg_ranges d)" for e rg
  proof (cases "rg_matches E key es rg")
    case False
    have mem: "e \<in> set (within es (rg_lo rg) (rg_hi rg))" using e srt by (simp add: within_set)
    show ?thesis
    proof (cases "rg_whole es (dg_round d) rg")
      case True
      with False rg mem x(2) have "en_id e \<in> fst x" by blast
      then have "en_id e \<in> fst z" using out z(2) by (auto simp: split_out_def)
      then show ?thesis using sent_in_inv z(1) by blast
    next
      case whole: False
      have "within es (rg_lo rg) (rg_hi rg) \<in> set ts" using False whole rg by (auto simp: ts_def splits_ranges_def)
      then consider "en_id ` set (within es (rg_lo rg) (rg_hi rg)) \<subseteq> fst y"
        | g where "g \<in> set groups" "is_split E key g (within es (rg_lo rg) (rg_hi rg))"
        using out unfolding split_out_def prod.case by blast
      then show ?thesis
      proof cases
        case 1
        with mem z(2) have "en_id e \<in> fst z" by blast
        with sent_in_inv [OF z(1)] show ?thesis by blast
      next
        case 2
        with cut_of_split [OF srt _ mem] show ?thesis by blast
      qed
    qed
  qed simp
  have "dg_round d < MAX_ROUNDS" if "groups \<noteq> []"
    using out ts(2) that by (cases groups) (auto simp: split_out_def)
  then have "good_answer E key es d (snd z) reply"
    using out cut cover z sent_in_inv [OF z(1)]
    by (auto simp: good_answer_def reply_def split_out_def sending_inv_def)
  with eq show ?thesis by blast
qed

section \<open>The follow-up\<close>

text \<open>The asker's and the answerer's entries have no two different slices with the same keyed fingerprint: what
  the 128-bit sum of AES blocks under a fresh random key is there for.\<close>

definition collision_free :: "('a) digest_env_scheme \<Rightarrow> bytes \<Rightarrow> entry list \<Rightarrow> entry list \<Rightarrow> bool" where
  "collision_free E key xs ys \<longleftrightarrow>
     (\<forall>lo hi. keyed_print E key (within xs lo hi) = keyed_print E key (within ys lo hi)
        \<longrightarrow> en_id ` set (within xs lo hi) = en_id ` set (within ys lo hi))"

lemma collision_free_held:
  assumes "collision_free E key xs ys" and "ms_sorted xs" and "ms_sorted ys" and "e \<in> set ys" and "lo \<le> en_ms e" and "en_ms e \<le> hi"
    and "keyed_print E key (within xs lo hi) = keyed_print E key (within ys lo hi)"
  shows "en_id e \<in> en_id ` set xs"
proof -
  have "en_id e \<in> en_id ` set (within ys lo hi)" using assms(3-6) by (auto simp: within_set)
  also have "\<dots> = en_id ` set (within xs lo hi)" using assms(1,7) by (simp add: collision_free_def)
  finally show ?thesis using assms(2) by (auto simp: within_set)
qed

definition honest_range :: "('a) digest_env_scheme \<Rightarrow> bytes \<Rightarrow> entry list \<Rightarrow> range \<Rightarrow> bool" where
  "honest_range E key es rg \<longleftrightarrow> rg_fp rg = [] \<or> rg = print_range E key es (rg_lo rg) (rg_hi rg)"

definition rg_has :: "range \<Rightarrow> entry \<Rightarrow> bool" where
  "rg_has rg e \<longleftrightarrow> rg_lo rg \<le> en_ms e \<and> en_ms e \<le> rg_hi rg"

lemma follow_group_facts:
  fixes E :: "('a) digest_env_scheme"
  assumes srt: "ms_sorted xs" "ms_sorted ys" and free: "collision_free E key xs ys" and cut: "cut_of E key ys rg g"
  defines "fs \<equiv> follow_group E key xs g"
  shows "rg_ordered fs" and "length fs \<le> length g"
    and "\<forall>r \<in> set fs. honest_range E key xs r \<and> rg_lo (hd g) \<le> rg_lo r \<and> rg_hi r \<le> rg_hi (last g)"
    and "\<forall>e \<in> set ys. rg_has rg e \<longrightarrow> en_id e \<in> en_id ` set xs \<or> (\<exists>r \<in> set fs. rg_has r e)"
proof -
  define ours where "ours = within ys (rg_lo rg) (rg_hi rg)"
  define differs where "differs = (\<lambda>r. keyed_print E key (within xs (rg_lo r) (rg_hi r)) \<noteq> (rg_n r, rg_fp r))"
  define ds where "ds = map (\<lambda>r. print_range E key xs (rg_lo r) (rg_hi r)) (filter differs g)"
  have sp: "g \<noteq> []" "rg_ordered g" "rg_lo (hd g) = en_ms (hd ours)" "rg_hi (last g) = en_ms (last ours)"
    "\<forall>r \<in> set g. r = print_range E key ours (rg_lo r) (rg_hi r) \<and> en_ms (hd ours) \<le> rg_lo r \<and> rg_hi r \<le> en_ms (last ours)"
    "\<forall>e \<in> set ours. \<exists>r \<in> set g. rg_has r e" and inside: "rg_lo rg \<le> rg_lo (hd g)" "rg_hi (last g) \<le> rg_hi rg"
    using cut unfolding cut_of_def is_split_def ours_def rg_has_def by blast+
  have fs: "fs = (if length g < length ds * 2 then [Range (rg_lo (hd g)) (rg_hi (last g)) 0 []] else ds)"
    using sp(1) by (simp add: fs_def follow_group_def ds_def differs_def map_filter_def Let_def print_range_def comp_def
        split_def if_distrib [of "\<lambda>w. w \<noteq> None"] if_distrib [of the] cong: if_cong)
  have ds: "rg_ordered ds" "length ds \<le> length g"
    using sp(2) by (auto simp: ds_def rg_ordered_def sorted_wrt_map sorted_wrt_filter list_all_iff)
  have hl: "rg_lo (hd g) \<le> rg_hi (last g)"
    using sp(2,3,5) last_in_set [OF sp(1)] by (auto simp: rg_ordered_def list_all_iff intro: order_trans)
  show "rg_ordered fs" using ds(1) hl by (simp add: fs rg_ordered_def)
  show "length fs \<le> length g" using ds(2) sp(1) by (cases g) (simp_all add: fs)
  show "\<forall>r \<in> set fs. honest_range E key xs r \<and> rg_lo (hd g) \<le> rg_lo r \<and> rg_hi r \<le> rg_hi (last g)"
    using sp(3-5) by (auto simp: fs ds_def honest_range_def)
  show "\<forall>e \<in> set ys. rg_has rg e \<longrightarrow> en_id e \<in> en_id ` set xs \<or> (\<exists>r \<in> set fs. rg_has r e)"
  proof (intro ballI impI)
    fix e assume e: "e \<in> set ys" "rg_has rg e"
    then have "e \<in> set ours" using srt(2) by (simp add: ours_def within_set rg_has_def)
    then obtain r where r: "r \<in> set g" "rg_has r e" using sp(6) by blast
    show "en_id e \<in> en_id ` set xs \<or> (\<exists>r \<in> set fs. rg_has r e)"
    proof (cases "differs r")
      case True
      then have "\<exists>r \<in> set ds. rg_has r e" using r by (auto simp: ds_def rg_has_def)
      moreover have "rg_has (Range (rg_lo (hd g)) (rg_hi (last g)) 0 []) e"
        using r sp(3-5) by (auto simp: rg_has_def intro: order_trans)
      ultimately show ?thesis by (simp add: fs)
    next
      case False
      have "within ours (rg_lo r) (rg_hi r) = within ys (rg_lo r) (rg_hi r)"
        unfolding ours_def using srt(2) sp(3-5) r(1) inside by (intro within_within) (auto intro: order_trans)
      moreover have "(rg_n r, rg_fp r) = keyed_print E key (within ours (rg_lo r) (rg_hi r))"
        using sp(5) r(1) print_range_print by metis
      ultimately have "keyed_print E key (within xs (rg_lo r) (rg_hi r)) = keyed_print E key (within ys (rg_lo r) (rg_hi r))"
        using False by (simp add: differs_def)
      with collision_free_held [OF free srt e(1), of "rg_lo r" "rg_hi r"] r(2) show ?thesis by (simp add: rg_has_def)
    qed
  qed
qed

text \<open>An ask an honest asker with the entries \<open>es\<close> sends.\<close>

definition honest_ask :: "('a) digest_env_scheme \<Rightarrow> bytes \<Rightarrow> entry list \<Rightarrow> op_digest \<Rightarrow> bool" where
  "honest_ask E key es d \<longleftrightarrow>
     keyed_new E (dg_salt d) = Some key \<and> length (dg_ranges d) \<le> SPLIT_BUDGET \<and> dg_round d \<le> MAX_ROUNDS
     \<and> rg_ordered (dg_ranges d) \<and> (\<forall>rg \<in> set (dg_ranges d). honest_range E key es rg)"

definition asks_for :: "op_digest \<Rightarrow> entry \<Rightarrow> bool" where
  "asks_for d e \<longleftrightarrow> (\<exists>f. dg_from d = Some f \<and> f \<le> en_ms e) \<or> (\<exists>rg \<in> set (dg_ranges d). rg_has rg e)"

definition asked_of :: "op_digest \<Rightarrow> (u64 \<times> u64) list" where
  "asked_of d = map (\<lambda>rg. (rg_lo rg, rg_hi rg)) (dg_ranges d)"

lemma length_concat_le: "\<forall>x \<in> set xs. length (f x) \<le> length x \<Longrightarrow> length (concat (map f xs)) \<le> length (concat xs)"
  by (induction xs) auto

lemma rg_ordered_concat_map:
  assumes "rg_ordered (concat gs)"
    and "\<forall>g \<in> set gs. g \<noteq> [] \<and> rg_ordered (f g) \<and> (\<forall>r \<in> set (f g). rg_lo (hd g) \<le> rg_lo r \<and> rg_hi r \<le> rg_hi (last g))"
  shows "rg_ordered (concat (map f gs))"
  using assms
proof (induction gs)
  case (Cons g gs)
  have g: "g \<noteq> []" "rg_ordered (f g)" "\<forall>r \<in> set (f g). rg_hi r \<le> rg_hi (last g)" using Cons.prems(2) by simp_all
  have "rg_hi a < rg_lo b" if "a \<in> set (f g)" "b \<in> set (concat (map f gs))" for a b
  proof -
    from that(2) obtain h where h: "h \<in> set gs" "b \<in> set (f h)" by auto
    then have lo: "rg_lo (hd h) \<le> rg_lo b" "hd h \<in> set (concat gs)" using Cons.prems(2) by (auto intro: bexI [of _ h])
    have "rg_hi (last g) < rg_lo (hd h)"
      using Cons.prems(1) last_in_set [OF g(1)] lo(2) by (auto simp: rg_ordered_append)
    with g(3) that(1) lo(1) show ?thesis by (meson le_less_trans less_le_trans)
  qed
  with Cons g(2) show ?case by (simp add: rg_ordered_append)
qed simp

lemma follow_up_good:
  assumes srt: "ms_sorted xs" "ms_sorted ys" and free: "collision_free E key xs ys"
    and key: "keyed_new E (dg_salt d) = Some key" and good: "good_answer E key ys d items reply"
  shows "\<exists>rs. follow_up E xs (dg_salt d) (asked_of d) reply = Some rs
    \<and> rg_ordered rs \<and> length rs \<le> SPLIT_BUDGET \<and> (\<forall>rg \<in> set rs. honest_range E key xs rg)
    \<and> (\<forall>e \<in> set ys. \<forall>rg g. g \<in> set (rp_groups reply) \<longrightarrow> cut_of E key ys rg g \<longrightarrow> rg_has rg e
         \<longrightarrow> en_id e \<in> en_id ` set xs \<or> (\<exists>r \<in> set rs. rg_has r e))"
proof -
  define rs where "rs = concat (map (follow_group E key xs) (rp_groups reply))"
  have ord: "rg_ordered (concat (rp_groups reply))" and len: "length (concat (rp_groups reply)) \<le> SPLIT_BUDGET"
    and cut: "\<forall>g \<in> set (rp_groups reply). \<exists>rg \<in> set (dg_ranges d). cut_of E key ys rg g"
    using good by (simp_all add: good_answer_def)
  note facts = follow_group_facts [OF srt free]
  have ne: "\<forall>g \<in> set (rp_groups reply). g \<noteq> []" using cut by (auto simp: cut_of_def is_split_def)
  have "list_all (\<lambda>g. g \<noteq> [] \<and> list_ex (\<lambda>(lo, hi). lo \<le> rg_lo (hd g) \<and> rg_hi (last g) \<le> hi) (asked_of d)) (rp_groups reply)"
    using cut ne by (fastforce simp: list_all_iff list_ex_iff asked_of_def cut_of_def)
  then have "follow_up E xs (dg_salt d) (asked_of d) reply = Some rs"
    using ord len by (simp add: follow_up_def key disjoint_ordered rs_def not_less)
  moreover have "rg_ordered rs"
    unfolding rs_def using ord ne cut facts(1,3) by (intro rg_ordered_concat_map) blast+
  moreover have "length rs \<le> SPLIT_BUDGET"
    using length_concat_le [of "rp_groups reply" "follow_group E key xs"] cut facts(2) len
    unfolding rs_def by (meson order_trans)
  moreover have "\<forall>rg \<in> set rs. honest_range E key xs rg"
    using cut facts(3) by (fastforce simp: rs_def)
  moreover have "en_id e \<in> en_id ` set xs \<or> (\<exists>r \<in> set rs. rg_has r e)"
    if "e \<in> set ys" "g \<in> set (rp_groups reply)" "cut_of E key ys rg g" "rg_has rg e" for e rg g
    using facts(4) [OF that(3)] that(1,2,4) by (auto simp: rs_def)
  ultimately show ?thesis by blast
qed

section \<open>One round\<close>

lemma digest_round:
  assumes honest: "honest_ask E key xs d" and srt: "ms_sorted xs" "ms_sorted ys" and free: "collision_free E key xs ys"
  shows "\<exists>items reply. answer E ys d = Some (items, reply) \<and> good_answer E key ys d items reply
    \<and> (\<forall>e \<in> set ys. asks_for d e \<longrightarrow> en_id e \<in> en_id ` set xs \<or> sent_in ys items e
         \<or> (\<exists>rg. \<exists>g \<in> set (rp_groups reply). cut_of E key ys rg g \<and> rg_has rg e))"
proof -
  obtain items reply where ans: "answer E ys d = Some (items, reply)" and good: "good_answer E key ys d items reply"
    using answer_good [OF srt(2), of E d key] honest by (auto simp: honest_ask_def)
  have "en_id e \<in> en_id ` set xs \<or> sent_in ys items e \<or> (\<exists>rg. \<exists>g \<in> set (rp_groups reply). cut_of E key ys rg g \<and> rg_has rg e)"
    if e: "e \<in> set ys" "asks_for d e" for e
    using e(2) unfolding asks_for_def
  proof (elim disjE exE bexE conjE)
    fix f assume "dg_from d = Some f" "f \<le> en_ms e"
    then show ?thesis using good e(1) by (auto simp: good_answer_def)
  next
    fix rg assume rg: "rg \<in> set (dg_ranges d)" "rg_has rg e"
    then consider "rg_matches E key ys rg" | "sent_in ys items e" | "\<exists>g \<in> set (rp_groups reply). cut_of E key ys rg g"
      using good e(1) unfolding good_answer_def rg_has_def by blast
    then show ?thesis
    proof cases
      case 1
      then have "rg_fp rg \<noteq> []" and eq: "keyed_print E key (within ys (rg_lo rg) (rg_hi rg)) = (rg_n rg, rg_fp rg)"
        by (simp_all add: rg_matches_def)
      then have "rg = print_range E key xs (rg_lo rg) (rg_hi rg)"
        using honest rg(1) by (auto simp: honest_ask_def honest_range_def)
      then have "keyed_print E key (within xs (rg_lo rg) (rg_hi rg)) = keyed_print E key (within ys (rg_lo rg) (rg_hi rg))"
        using print_range_print eq by metis
      with collision_free_held [OF free srt e(1), of "rg_lo rg" "rg_hi rg"] rg(2) show ?thesis by (simp add: rg_has_def)
    qed (use rg(2) in auto)
  qed
  with ans good show ?thesis by blast
qed

section \<open>The first ask\<close>

lemma back_marks_length: "0 < bk \<Longrightarrow> length es < bk * 2 ^ n \<Longrightarrow> length (back_marks es bk) \<le> n"
proof (induction n arbitrary: bk)
  case 0
  then show ?case by (simp add: back_marks.simps)
next
  case (Suc n)
  then show ?case using Suc.IH [of "2 * bk"] by (subst back_marks.simps) (simp add: mult.assoc mult.left_commute)
qed

lemma back_marks_set: "set (back_marks es bk) \<subseteq> en_ms ` set es"
proof (induction es bk rule: back_marks.induct)
  case (1 es bk)
  then show ?case by (subst back_marks.simps) auto
qed

lemma checked_add_one_le: "tp < ms \<Longrightarrow> \<exists>f. checked_add tp 1 = Some f \<and> f \<le> (ms :: u64)"
  using unsigned_less [of ms, where 'a = nat] by (auto simp: checked_add_def word_less_nat_alt word_le_nat_alt unat_add_no_wrap)

lemma first_bounds_facts:
  assumes "ms_sorted es" and "length es < 2 ^ 63"
  shows "sorted_wrt (<) (first_bounds es)" and "first_bounds es \<noteq> []" and "hd (first_bounds es) = 0"
    and "length (first_bounds es) \<le> SPLIT_BUDGET" and "es \<noteq> [] \<Longrightarrow> last (first_bounds es) \<le> en_ms (last es)"
proof -
  have set: "set (first_bounds es) = insert 0 (set (back_marks es 1))"
    unfolding first_bounds_def remdups_adj_set set_sort by simp
  show strict: "sorted_wrt (<) (first_bounds es)"
    unfolding first_bounds_def by (intro strict_remdups_adj sorted_sort)
  show ne: "first_bounds es \<noteq> []" using set by auto
  show "hd (first_bounds es) = 0"
  proof (cases "first_bounds es")
    case (Cons a as)
    then have "0 = a \<or> 0 \<in> set as" using set by auto
    moreover have "\<forall>x \<in> set as. a < x" using strict Cons by simp
    ultimately show ?thesis using Cons by auto
  qed (use ne in simp)
  have "length (first_bounds es) \<le> length (0 # back_marks es 1)"
    unfolding first_bounds_def by (rule order_trans [OF remdups_adj_length]) simp
  moreover have "length (back_marks es 1) \<le> 63" using assms(2) by (intro back_marks_length) simp_all
  ultimately show "length (first_bounds es) \<le> SPLIT_BUDGET" by (simp add: SPLIT_BUDGET_def)
  assume "es \<noteq> []"
  have "last (first_bounds es) \<in> insert 0 (en_ms ` set es)"
    using last_in_set [OF ne] back_marks_set unfolding set by blast
  then show "last (first_bounds es) \<le> en_ms (last es)"
    using ms_sorted_bounds [OF assms(1)] by auto
qed

lemma first_ask_good:
  assumes srt: "ms_sorted xs" and len: "length xs < 2 ^ 63" and key: "keyed_new E salt = Some key"
  shows "honest_ask E key xs (first_ask E xs ask salt base)" and "asks_for (first_ask E xs ask salt base) e"
    and "dg_salt (first_ask E xs ask salt base) = salt" and "dg_round (first_ask E xs ask salt base) = 0"
proof -
  note b = first_bounds_facts [OF srt len]
  note cov = cover_props [where E = E and key = key and es = xs, OF b(1,2,5)]
  show "dg_salt (first_ask E xs ask salt base) = salt" "dg_round (first_ask E xs ask salt base) = 0"
    by (simp_all add: first_ask_def key Let_def)
  show "honest_ask E key xs (first_ask E xs ask salt base)"
    using cov(1,2,5) b(4) by (auto simp: first_ask_def key Let_def honest_ask_def honest_range_def rg_ordered_def)
  show "asks_for (first_ask E xs ask salt base) e"
  proof (cases "xs = [] \<or> en_ms (last xs) < en_ms e")
    case True
    then show ?thesis
      using checked_add_one_le [of "en_ms (last xs)" "en_ms e"] by (auto simp: first_ask_def key Let_def asks_for_def)
  next
    case False
    then have "\<exists>rg \<in> set (cover E key xs (en_ms (last xs)) (first_bounds xs)). rg_has rg e"
      using cov(6) b(3) by (auto simp: rg_has_def)
    with False show ?thesis by (auto simp: first_ask_def key Let_def asks_for_def)
  qed
qed

section \<open>The compared set is sorted\<close>

text \<open>A memo's cached rows are sorted by millisecond and fit a \<open>Vec\<close>.\<close>

definition memo_wf :: "memo \<Rightarrow> bool" where
  "memo_wf m \<longleftrightarrow> (\<forall>stamp rows. memo_last m = Some (stamp, rows) \<longrightarrow> sorted (map fst rows) \<and> length rows < 2 ^ 63)"

definition fits :: "replica \<Rightarrow> kept_ref list \<Rightarrow> memo \<Rightarrow> bool" where
  "fits r krs m \<longleftrightarrow> memo_wf m \<and> length (op_log r) + length krs < 2 ^ 63"

lemma sorted_map_fst: "sorted (map (\<lambda>row. (fst row, g row)) rows) \<Longrightarrow> sorted (map fst rows)"
  by (induction rows) (auto simp: less_eq_prod_def less_le)

lemma log_rows_length: "length (snd (foldl (log_row C base genesis) x ys)) \<le> length (snd x) + length ys"
proof (induction ys arbitrary: x)
  case (Cons y ys)
  have "length (snd (log_row C base genesis x y)) \<le> Suc (length (snd x))"
    by (simp add: log_row_def split_beta Let_def)
  with Cons [of "log_row C base genesis x y"] show ?case by simp
qed simp

lemma fresh_rows_facts:
  assumes "fresh_rows E slots r krs base ids = (ids', rows)"
  shows "sorted (map fst rows)" and "length rows \<le> length (op_log r) + length krs"
proof -
  obtain ids1 rows1 where fold: "foldl (log_row E base (is_genesis_id (server_id (st r)))) (live_ids slots ids, [])
      (zip [0..<length (op_log r)] (zip (op_log r) slots)) = (ids1, rows1)" by (cases "foldl (log_row E base (is_genesis_id (server_id (st r)))) (live_ids slots ids, [])
      (zip [0..<length (op_log r)] (zip (op_log r) slots))") auto
  define more where "more = List.map_filter (kept_row E base (set (map (\<lambda>row. fst (snd row)) rows1))) (zip [0..<length krs] krs)"
  have rows: "rows = sort_key (\<lambda>row. (fst row, fst (snd row))) (rows1 @ more)"
    using assms fold by (simp add: fresh_rows_def more_def)
  have "length rows1 \<le> length (op_log r)"
    using log_rows_length [of E base "is_genesis_id (server_id (st r))" "(live_ids slots ids, [])"
        "zip [0..<length (op_log r)] (zip (op_log r) slots)"] fold by simp
  moreover have "length more \<le> length krs"
    unfolding more_def map_filter_def length_map by (rule order_trans [OF length_filter_le]) simp
  ultimately show "length rows \<le> length (op_log r) + length krs" by (simp add: rows)
  have "sorted (map (\<lambda>row. (fst row, fst (snd row))) rows)" by (simp add: rows)
  then show "sorted (map fst rows)" by (rule sorted_map_fst)
qed

lemma rows_entries_ms: "map en_ms (rows_entries log krs rows) = map fst rows" "length (rows_entries log krs rows) = length rows"
  by (auto simp: rows_entries_def)

lemma entries_sorted:
  assumes "fits r krs m"
  shows "ms_sorted (fst (entries E slot r krs base m))" and "length (fst (entries E slot r krs base m)) < 2 ^ 63"
    and "memo_wf (snd (entries E slot r krs base m))"
proof -
  obtain ids rows where fresh: "fresh_rows E (map (\<lambda>op. slot (op_author op, op_hlc op)) (op_log r)) r krs base (memo_ids m) = (ids, rows)"
    by fastforce
  note rows = fresh_rows_facts [OF fresh]
  show "ms_sorted (fst (entries E slot r krs base m))" "length (fst (entries E slot r krs base m)) < 2 ^ 63"
    "memo_wf (snd (entries E slot r krs base m))"
    using assms rows
    by (auto simp: entries_def Let_def fresh ms_sorted_def rows_entries_ms memo_wf_def fits_def is_some_and_def split: option.splits)
qed

end
