(* ===== verification/OpSync.thy ===== *)
theory OpSync
  imports DigestProps
begin

text \<open>
  The book of catch-up asks (\<open>node/op_sync.rs\<close>): what each peer device reads, the open digest asks, the
  silence clock, the ops waiting for a room's first listing and the follow-ups of a join. Times are
  milliseconds; the random bytes, the clock reading and the device resolver are arguments.
\<close>

section \<open>Messages\<close>

record page_cursor =
  pc_at :: hlc_timestamp
  pc_checkpoint :: bool

record full_ask =
  fa_after :: "page_cursor option"

record sync_request =
  rq_server_id :: string
  rq_vector_json :: string
  rq_mls_epoch :: "u64 option"
  rq_nonce :: "u64 option"
  rq_full :: "full_ask option"
  rq_digest :: "op_digest option"
  rq_dg :: "u8 option"

text \<open>The variants of the wire enum this book does not look into are one type variable.\<close>

datatype 'm haven_message = SyncRequest sync_request | OtherMessage 'm

text \<open>\<open>vector_json\<close> is serde's writer of a state vector.\<close>

record op_sync_env = digest_env +
  vector_json :: "state_vector \<Rightarrow> string option"

section \<open>The book\<close>

definition DG :: u8 where "DG = 1"

definition CAPS_MAX :: nat where "CAPS_MAX = 4096"

definition RESEND_AFTER :: nat where "RESEND_AFTER = 5000"

definition RESENDS :: u32 where "RESENDS = 2"

definition ASK_TTL :: nat where "ASK_TTL = 60000"

definition JOIN_FOLLOW_UP :: nat where "JOIN_FOLLOW_UP = 5000"

definition UNSEEN_MAX :: nat where "UNSEEN_MAX = 16"

datatype reads = ReadsDigest | ReadsVector | ReadsUnknown

text \<open>The message of the last round is always a sync request, so \<open>ak_last\<close> holds that variant.\<close>

record ask =
  ak_id :: u64
  ak_salt :: string
  ak_round :: u8
  ak_nonce :: "u64 option"
  ak_hinted :: bool
  ak_sent_at :: instant
  ak_round_at :: instant
  ak_judged :: bool
  ak_unconfirmed :: bool
  ak_asked :: "(u64 \<times> u64) list"
  ak_last :: sync_request
  ak_resends :: u32

datatype silent =
    SilentAgain string string sync_request
  | SilentVector string string "u64 option" "u64 option"
  | SilentClosed string string

datatype step = Unasked | Done | Malformed | Again sync_request

record 'm op_sync =
  caps :: "bool hmap"
  cap_order :: "string list"
  open_asks :: "((string \<times> string) \<times> ask) list"
  follow_ups :: "(string \<times> instant) list"
  unseen :: "'m haven_message list hmap"
  acts_old :: bool

definition op_sync_default :: "'m op_sync" where
  "op_sync_default = \<lparr>caps = [], cap_order = [], open_asks = [], follow_ups = [], unseen = [], acts_old = False\<rparr>"

definition vector_ask :: "('a) op_sync_env_scheme \<Rightarrow> replica \<Rightarrow> u64 option \<Rightarrow> u64 option \<Rightarrow> sync_request" where
  "vector_ask E r nonce mls_epoch =
     \<lparr>rq_server_id = server_id (st r), rq_vector_json = unwrap_or [] (vector_json E (from_server_state r)),
      rq_mls_epoch = mls_epoch, rq_nonce = nonce, rq_full = None, rq_digest = None, rq_dg = Some DG\<rparr>"

text \<open>\<open>b\<close> is the buffer after the call to the system RNG.\<close>

definition fresh_id :: "bytes \<Rightarrow> u64" where
  "fresh_id b = of_nat (foldr (\<lambda>x n. code_of x + 256 * n) b 0)"

definition mark :: "'m op_sync \<Rightarrow> u8 option" where
  "mark s = (if \<not> acts_old s then Some DG else None)"

definition reads_of :: "'m op_sync \<Rightarrow> string \<Rightarrow> reads" where
  "reads_of s device =
     (case hm_get (caps s) device of Some True \<Rightarrow> ReadsDigest | Some False \<Rightarrow> ReadsVector | None \<Rightarrow> ReadsUnknown)"

definition identity_reads_digest :: "(string \<Rightarrow> string list) \<Rightarrow> 'm op_sync \<Rightarrow> string \<Rightarrow> bool" where
  "identity_reads_digest devices_for s identity =
     list_ex (\<lambda>d. reads_of s d = ReadsDigest) (identity # devices_for identity)"

fun trim_caps :: "bool hmap \<Rightarrow> string list \<Rightarrow> bool hmap \<times> string list" where
  "trim_caps cs [] = (cs, [])"
| "trim_caps cs (d # ds) = (if CAPS_MAX < length (d # ds) then trim_caps (hm_remove d cs) ds else (cs, d # ds))"

definition learn :: "string \<Rightarrow> bool \<Rightarrow> 'm op_sync \<Rightarrow> 'm op_sync" where
  "learn device digest s =
     (let cs = hm_insert device digest (caps s);
          (cs, ds) = (if hm_get (caps s) device = None then trim_caps cs (cap_order s @ [device]) else (cs, cap_order s));
          asks = (if digest
                  then map (\<lambda>((sv, d), a). ((sv, d), if d = device then a\<lparr>ak_unconfirmed := False\<rparr> else a)) (open_asks s)
                  else open_asks s)
      in s\<lparr>caps := cs, cap_order := ds, open_asks := asks\<rparr>)"

definition ask_digest ::
  "('a) op_sync_env_scheme \<Rightarrow> (string \<times> hlc_timestamp \<Rightarrow> u64) \<Rightarrow> replica \<Rightarrow> kept_ref list \<Rightarrow> memo \<Rightarrow> u64 \<Rightarrow> string
     \<Rightarrow> op_digest \<times> memo" where
  "ask_digest E slot r krs m ident salt =
     (let base = checkpoint_hlc (st r); (es, m) = entries E slot r krs base m
      in (first_ask E es ident salt base, m))"

text \<open>\<open>idb\<close>, \<open>rnd\<close> and \<open>nanos\<close> are what the system RNG and clock return, \<open>now\<close> the monotonic clock.\<close>

definition op_ask ::
  "('a) op_sync_env_scheme \<Rightarrow> (string \<times> hlc_timestamp \<Rightarrow> u64) \<Rightarrow> bytes \<Rightarrow> bytes option \<Rightarrow> u128 \<Rightarrow> instant
     \<Rightarrow> replica \<Rightarrow> kept_ref list \<Rightarrow> memo \<Rightarrow> string \<Rightarrow> u64 option \<Rightarrow> u64 option \<Rightarrow> 'm op_sync
     \<Rightarrow> sync_request \<times> 'm op_sync \<times> memo" where
  "op_ask E slot idb rnd nanos now r krs m device nonce mls_epoch s =
     (if acts_old s then ((vector_ask E r nonce mls_epoch)\<lparr>rq_dg := None\<rparr>, s, m)
      else if anchor (st r) = Legacy \<or> reads_of s device = ReadsVector then (vector_ask E r nonce mls_epoch, s, m)
      else
        (let ident = fresh_id idb;
             salt = new_salt E rnd nanos;
             (d, m) = ask_digest E slot r krs m ident salt;
             key = (server_id (st r), device);
             nonce = (case nonce of Some n \<Rightarrow> Some n | None \<Rightarrow> Option.bind (map_of (open_asks s) key) ak_nonce);
             asked = map (\<lambda>rg. (rg_lo rg, rg_hi rg)) (dg_ranges d);
             msg = \<lparr>rq_server_id = server_id (st r), rq_vector_json = [], rq_mls_epoch = mls_epoch, rq_nonce = nonce,
                    rq_full = None, rq_digest = Some d, rq_dg = Some DG\<rparr>;
             a = \<lparr>ak_id = ident, ak_salt = salt, ak_round = 0, ak_nonce = nonce, ak_hinted = mls_epoch \<noteq> None,
                  ak_sent_at = now, ak_round_at = now, ak_judged = False,
                  ak_unconfirmed = (reads_of s device = ReadsUnknown), ak_asked = asked, ak_last = msg, ak_resends = 0\<rparr>
         in (msg, s\<lparr>open_asks := AList.update key a (open_asks s)\<rparr>, m)))"

definition heard_request ::
  "string \<Rightarrow> u8 option \<Rightarrow> (string \<Rightarrow> u64 option) \<Rightarrow> 'm op_sync
     \<Rightarrow> (string \<times> u64 option \<times> u64 option) list \<times> 'm op_sync" where
  "heard_request device dg epoch_of s =
     (let digest = is_some_and (\<lambda>v. DG \<le> v) dg; s = learn device digest s in
      if digest then ([], s)
      else
        (map (\<lambda>((sv, _), a). (sv, ak_nonce a, if ak_hinted a then epoch_of sv else None))
           (filter (\<lambda>((_, d), _). d = device) (open_asks s)),
         s\<lparr>open_asks := filter (\<lambda>((_, d), _). d \<noteq> device) (open_asks s)\<rparr>))"

definition follow_request :: "replica \<Rightarrow> ask \<Rightarrow> range list \<Rightarrow> u8 \<Rightarrow> sync_request" where
  "follow_request r a rs round =
     \<lparr>rq_server_id = server_id (st r), rq_vector_json = [], rq_mls_epoch = None, rq_nonce = ak_nonce a, rq_full = None,
      rq_digest = Some \<lparr>dg_ask = ak_id a, dg_salt = ak_salt a, dg_base = checkpoint_hlc (st r), dg_from = None,
                        dg_ranges = rs, dg_round = round\<rparr>,
      rq_dg = Some DG\<rparr>"

definition answered ::
  "('a) op_sync_env_scheme \<Rightarrow> (string \<times> hlc_timestamp \<Rightarrow> u64) \<Rightarrow> instant \<Rightarrow> replica \<Rightarrow> kept_ref list \<Rightarrow> memo
     \<Rightarrow> string \<Rightarrow> digest_reply \<Rightarrow> u64 option \<Rightarrow> 'm op_sync \<Rightarrow> step \<times> 'm op_sync \<times> memo" where
  "answered E slot now r krs m device reply epoch_now s =
     (let key = (server_id (st r), device) in
      case opt_filter (\<lambda>a. ak_id a = rp_ask reply \<and> ak_round a = rp_round reply) (map_of (open_asks s) key) of
        None \<Rightarrow> (Unasked, s, m)
      | Some a \<Rightarrow>
          (let closed = s\<lparr>open_asks := AList.delete key (open_asks s)\<rparr> in
           if rp_vector reply
           then (Again (vector_ask E r (ak_nonce a) (if ak_hinted a then epoch_now else None)), closed, m)
           else if rp_groups reply = [] \<or> MAX_ROUNDS \<le> rp_round reply then (Done, closed, m)
           else
             (let (es, m) = entries E slot r krs (checkpoint_hlc (st r)) m in
              case follow_up E es (ak_salt a) (ak_asked a) reply of
                None \<Rightarrow> (Malformed, closed, m)
              | Some rs \<Rightarrow>
                  (let round = rp_round reply + 1;
                       msg = follow_request r a rs round;
                       a = a\<lparr>ak_unconfirmed := False, ak_asked := map (\<lambda>rg. (rg_lo rg, rg_hi rg)) rs, ak_round := round,
                             ak_sent_at := now, ak_round_at := now, ak_resends := 0, ak_judged := False, ak_last := msg\<rparr>
                   in (Again msg, s\<lparr>open_asks := AList.update key a (open_asks s)\<rparr>, m)))))"

definition carry_when_listed :: "string \<Rightarrow> 'm haven_message \<Rightarrow> 'm op_sync \<Rightarrow> 'm op_sync" where
  "carry_when_listed server msg s =
     (let waiting = unwrap_or [] (hm_get (unseen s) server)
      in s\<lparr>unseen := hm_insert server (if length waiting < UNSEEN_MAX then waiting @ [msg] else waiting) (unseen s)\<rparr>)"

definition listed :: "string \<Rightarrow> 'm op_sync \<Rightarrow> 'm haven_message list \<times> 'm op_sync" where
  "listed room s = (unwrap_or [] (hm_get (unseen s) room), s\<lparr>unseen := hm_remove room (unseen s)\<rparr>)"

definition joined :: "instant \<Rightarrow> string \<Rightarrow> 'm op_sync \<Rightarrow> 'm op_sync" where
  "joined now server s =
     (if \<not> list_ex (\<lambda>(sv, _). sv = server) (follow_ups s)
      then s\<lparr>follow_ups := follow_ups s @ [(server, now + JOIN_FOLLOW_UP)]\<rparr> else s)"

text \<open>What one tick does to one open ask: what it emits, and the ask when it stays.\<close>

definition tick_ask ::
  "instant \<Rightarrow> (string \<Rightarrow> bool) \<Rightarrow> (string \<Rightarrow> u64 option) \<Rightarrow> string \<times> string \<Rightarrow> ask \<Rightarrow> silent list \<times> ask option" where
  "tick_ask now lane_holds epoch_of key a =
     (let (server, device) = key in
      if ak_judged a then ([], if now - ak_round_at a < ASK_TTL then Some a else None)
      else if lane_holds device then ([], Some (a\<lparr>ak_sent_at := now, ak_round_at := now\<rparr>))
      else if now - ak_sent_at a < RESEND_AFTER * 2 ^ unat (ak_resends a) then ([], Some a)
      else if ak_resends a < RESENDS
      then (let copy = (ak_last a)\<lparr>rq_mls_epoch := if rq_mls_epoch (ak_last a) \<noteq> None then epoch_of server else None\<rparr>
            in ([SilentAgain server device copy], Some (a\<lparr>ak_resends := ak_resends a + 1, ak_sent_at := now\<rparr>)))
      else if ak_unconfirmed a
      then ([SilentVector server device (ak_nonce a) (if ak_hinted a then epoch_of server else None)], None)
      else ([SilentClosed server device], if now - ak_round_at a < ASK_TTL then Some (a\<lparr>ak_judged := True\<rparr>) else None))"

definition op_tick ::
  "instant \<Rightarrow> (string \<Rightarrow> bool) \<Rightarrow> (string \<Rightarrow> u64 option) \<Rightarrow> 'm op_sync \<Rightarrow> silent list \<times> string list \<times> 'm op_sync" where
  "op_tick now lane_holds epoch_of s =
     (let each = map (\<lambda>(key, a). (key, tick_ask now lane_holds epoch_of key a)) (open_asks s)
      in (concat (map (\<lambda>(_, out, _). out) each),
          map fst (filter (\<lambda>(_, at). at \<le> now) (follow_ups s)),
          s\<lparr>open_asks := List.map_filter (\<lambda>(key, _, a). map_option (Pair key) a) each,
            follow_ups := filter (\<lambda>(_, at). \<not> at \<le> now) (follow_ups s)\<rparr>))"

definition went_away :: "'m op_sync \<Rightarrow> 'm op_sync" where
  "went_away s = s\<lparr>open_asks := []\<rparr>"

section \<open>A whole catch-up\<close>

text \<open>What the answerer computes for an ask (\<open>answer_digest\<close> of \<open>node/crdt_resync.rs\<close> before it writes the items
  as JSON), and the loop both sides run: the answer goes back, the asker's book decides, and a follow-up is
  answered in turn. \<open>ws\<close> lists the asker's replica, kept ops, memo, clock and epoch as each answer arrives.\<close>

definition served ::
  "('a) digest_env_scheme \<Rightarrow> (string \<times> hlc_timestamp \<Rightarrow> u64) \<Rightarrow> replica \<Rightarrow> kept_ref list \<Rightarrow> memo \<Rightarrow> op_digest
     \<Rightarrow> (item list \<times> digest_reply) option \<times> memo" where
  "served E slot r krs m d = (let (es, m) = entries E slot r krs (dg_base d) m in (answer E es d, m))"

type_synonym situation = "replica \<times> kept_ref list \<times> memo \<times> instant \<times> u64 option"

fun sync_rounds ::
  "('a) op_sync_env_scheme \<Rightarrow> (string \<times> hlc_timestamp \<Rightarrow> u64) \<Rightarrow> (string \<times> hlc_timestamp \<Rightarrow> u64) \<Rightarrow> string
     \<Rightarrow> replica \<Rightarrow> kept_ref list \<Rightarrow> memo \<Rightarrow> op_digest \<Rightarrow> 'm op_sync \<Rightarrow> situation list \<Rightarrow> item list option" where
  "sync_rounds E slot slotB device rB krsB mB d s [] = None"
| "sync_rounds E slot slotB device rB krsB mB d s ((r, krs, m, now, epoch) # ws) =
     (case served E slotB rB krsB mB d of
        (None, _) \<Rightarrow> None
      | (Some (items, reply), mB) \<Rightarrow>
          (case answered E slot now r krs m device reply epoch s of
             (Done, _) \<Rightarrow> Some items
           | (Again msg, s, _) \<Rightarrow>
               (case rq_digest msg of
                  None \<Rightarrow> None
                | Some d \<Rightarrow> map_option ((@) items) (sync_rounds E slot slotB device rB krsB mB d s ws))
           | _ \<Rightarrow> None))"

lemma entries_again:
  assumes "entries E slot r krs base m = (es, m')"
  shows "entries E slot r krs base m' = (es, m')"
  using assms by (auto simp: entries_def Let_def split_beta split: if_splits)

definition entries_of ::
  "('a) digest_env_scheme \<Rightarrow> (string \<times> hlc_timestamp \<Rightarrow> u64) \<Rightarrow> situation \<Rightarrow> entry list" where
  "entries_of E slot = (\<lambda>(r, krs, m, _). fst (entries E slot r krs (checkpoint_hlc (st r)) m))"

text \<open>A situation the catch-up of server \<open>sid\<close> from base \<open>base\<close> may meet.\<close>

definition situation_ok ::
  "('a) digest_env_scheme \<Rightarrow> (string \<times> hlc_timestamp \<Rightarrow> u64) \<Rightarrow> bytes \<Rightarrow> string \<Rightarrow> hlc_timestamp option \<Rightarrow> entry list
     \<Rightarrow> situation \<Rightarrow> bool" where
  "situation_ok E slot key sid base ys w \<longleftrightarrow>
     (case w of (r, krs, m, _) \<Rightarrow> server_id (st r) = sid \<and> checkpoint_hlc (st r) = base \<and> fits r krs m)
     \<and> collision_free E key (entries_of E slot w) ys"

lemma next_round:
  assumes "(n :: u8) < MAX_ROUNDS"
  shows "n + 1 \<le> MAX_ROUNDS" and "unat (n + 1) = Suc (unat n)"
proof -
  have n: "unat n < 6" using assms by (simp add: MAX_ROUNDS_def word_less_nat_alt)
  then show eq: "unat (n + 1) = Suc (unat n)" by (subst unat_add_no_wrap) simp_all
  show "n + 1 \<le> MAX_ROUNDS" unfolding word_le_nat_alt eq using n by (simp add: MAX_ROUNDS_def)
qed

definition following :: "instant \<Rightarrow> replica \<Rightarrow> range list \<Rightarrow> u8 \<Rightarrow> ask \<Rightarrow> ask" where
  "following now r rs round a = a\<lparr>ak_unconfirmed := False, ak_asked := map (\<lambda>rg. (rg_lo rg, rg_hi rg)) rs, ak_round := round,
     ak_sent_at := now, ak_round_at := now, ak_resends := 0, ak_judged := False, ak_last := follow_request r a rs round\<rparr>"

lemma answered_follow:
  assumes "map_of (open_asks s) (server_id (st r), device) = Some a" and "ak_id a = rp_ask reply" and "ak_round a = rp_round reply"
    and "\<not> rp_vector reply" and "rp_groups reply \<noteq> []" and "rp_round reply < MAX_ROUNDS"
    and "entries E slot r krs (checkpoint_hlc (st r)) m = (es, m')" and "follow_up E es (ak_salt a) (ak_asked a) reply = Some rs"
  shows "answered E slot now r krs m device reply epoch s
    = (Again (follow_request r a rs (rp_round reply + 1)),
       s\<lparr>open_asks := AList.update (server_id (st r), device) (following now r rs (rp_round reply + 1) a) (open_asks s)\<rparr>, m')"
  using assms by (simp add: answered_def following_def not_le Let_def)

lemma sync_rounds_complete:
  fixes E :: "('a) op_sync_env_scheme"
  assumes "honest_ask E key xs d" and "ms_sorted xs" and "collision_free E key xs ys"
    and "entries E slotB rB krsB base mB = (ys, mB')" and "mB1 \<in> {mB, mB'}" and "fits rB krsB mB" and "dg_base d = base"
    and "map_of (open_asks s) (sid, device) = Some a" and "ak_id a = dg_ask d" and "ak_round a = dg_round d"
    and "ak_salt a = dg_salt d" and "ak_asked a = asked_of d"
    and "\<forall>w \<in> set ws. situation_ok E slot key sid base ys w" and "unat MAX_ROUNDS - unat (dg_round d) < length ws"
  shows "\<exists>items. sync_rounds E slot slotB device rB krsB mB1 d s ws = Some items \<and> set items \<subseteq> en_item ` set ys
    \<and> (\<forall>e \<in> set ys. asks_for d e \<longrightarrow> sent_in ys items e \<or> en_id e \<in> en_id ` set xs
         \<or> (\<exists>w \<in> set ws. en_id e \<in> en_id ` set (entries_of E slot w)))"
  using assms(1-3,5,7-)
proof (induction ws arbitrary: d s xs a mB1)
  case (Cons w ws)
  obtain r krs m now epoch where w: "w = (r, krs, m, now, epoch)" by (cases w) auto
  have ok: "server_id (st r) = sid" "checkpoint_hlc (st r) = base" "fits r krs m" "collision_free E key (entries_of E slot w) ys"
    using Cons.prems(11) by (simp_all add: situation_ok_def w)
  obtain es m' where es: "entries E slot r krs base m = (es, m')" by fastforce
  have eo: "entries_of E slot w = es" using es by (simp add: entries_of_def w ok(2))
  have ys: "ms_sorted ys" using entries_sorted(1) [OF assms(6), of E slotB base] assms(4) by simp
  have xs': "ms_sorted es" using entries_sorted(1) [OF ok(3), of E slot base] es by simp
  have sv: "served E slotB rB krsB mB1 d = (answer E ys d, mB')"
    using Cons.prems(4,5) assms(4) entries_again [OF assms(4)] by (auto simp: served_def)
  obtain items reply where ans: "answer E ys d = Some (items, reply)" and good: "good_answer E key ys d items reply"
    and cov: "\<forall>e \<in> set ys. asks_for d e \<longrightarrow> en_id e \<in> en_id ` set xs \<or> sent_in ys items e
         \<or> (\<exists>rg. \<exists>g \<in> set (rp_groups reply). cut_of E key ys rg g \<and> rg_has rg e)"
    using digest_round [OF Cons.prems(1,2) ys Cons.prems(3)] by blast
  have key: "keyed_new E (dg_salt d) = Some key" using Cons.prems(1) by (simp add: honest_ask_def)
  have rp: "rp_ask reply = dg_ask d" "rp_round reply = dg_round d" "\<not> rp_vector reply" "set items \<subseteq> en_item ` set ys"
    "rp_groups reply \<noteq> [] \<longrightarrow> dg_round d < MAX_ROUNDS"
    using good by (simp_all add: good_answer_def)
  show ?case
  proof (cases "rp_groups reply = []")
    case True
    then have "sync_rounds E slot slotB device rB krsB mB1 d s (w # ws) = Some items"
      using Cons.prems(6-8) rp by (simp add: w sv ans answered_def ok)
    with cov rp(4) True show ?thesis by auto
  next
    case False
    obtain rs where rs: "follow_up E es (dg_salt d) (asked_of d) reply = Some rs" "rg_ordered rs" "length rs \<le> SPLIT_BUDGET"
      "\<forall>rg \<in> set rs. honest_range E key es rg"
      and fcov: "\<forall>e \<in> set ys. \<forall>rg g. g \<in> set (rp_groups reply) \<longrightarrow> cut_of E key ys rg g \<longrightarrow> rg_has rg e
         \<longrightarrow> en_id e \<in> en_id ` set es \<or> (\<exists>r \<in> set rs. rg_has r e)"
      using follow_up_good [OF xs' ys ok(4) [unfolded eo] key good] by blast
    have lt: "dg_round d < MAX_ROUNDS" using rp(5) False by simp
    note round = next_round [OF lt]
    have fuel: "unat MAX_ROUNDS - unat (dg_round d + 1) < length ws"
      using Cons.prems(12) lt unfolding round(2) word_less_nat_alt by simp
    define d' where "d' = \<lparr>dg_ask = dg_ask d, dg_salt = dg_salt d, dg_base = base, dg_from = None, dg_ranges = rs,
      dg_round = dg_round d + 1\<rparr>"
    define a' where "a' = following now r rs (dg_round d + 1) a"
    define s' where "s' = s\<lparr>open_asks := AList.update (sid, device) a' (open_asks s)\<rparr>"
    have "answered E slot now r krs m device reply epoch s = (Again (follow_request r a rs (dg_round d + 1)), s', m')"
      using answered_follow [of s r device a reply E slot krs m es m' rs now epoch] Cons.prems(6-10) rp False lt rs(1) es
      by (simp add: ok s'_def a'_def)
    then have step: "sync_rounds E slot slotB device rB krsB mB1 d s (w # ws)
        = map_option ((@) items) (sync_rounds E slot slotB device rB krsB mB' d' s' ws)"
      using Cons.prems(7,9) by (simp add: w sv ans follow_request_def d'_def ok)
    have "honest_ask E key es d'" using key rs(2-4) round(1) by (simp add: honest_ask_def d'_def)
    then have "\<exists>items. sync_rounds E slot slotB device rB krsB mB' d' s' ws = Some items \<and> set items \<subseteq> en_item ` set ys
        \<and> (\<forall>e \<in> set ys. asks_for d' e \<longrightarrow> sent_in ys items e \<or> en_id e \<in> en_id ` set es
             \<or> (\<exists>w \<in> set ws. en_id e \<in> en_id ` set (entries_of E slot w)))"
      using xs' ok(4) Cons.prems(7,9,11) fuel
      by (intro Cons.IH [where a = a']) (simp_all add: d'_def s'_def a'_def following_def update_conv asked_of_def eo)
    then obtain more where more: "sync_rounds E slot slotB device rB krsB mB' d' s' ws = Some more" "set more \<subseteq> en_item ` set ys"
      and mcov: "\<forall>e \<in> set ys. asks_for d' e \<longrightarrow> sent_in ys more e \<or> en_id e \<in> en_id ` set es
             \<or> (\<exists>w \<in> set ws. en_id e \<in> en_id ` set (entries_of E slot w))" by blast
    have "sent_in ys (items @ more) e \<or> en_id e \<in> en_id ` set xs \<or> (\<exists>w \<in> set (w # ws). en_id e \<in> en_id ` set (entries_of E slot w))"
      if e: "e \<in> set ys" "asks_for d e" for e
    proof -
      consider "en_id e \<in> en_id ` set xs" | "sent_in ys items e" | "en_id e \<in> en_id ` set es" | "asks_for d' e"
        using cov fcov e unfolding asks_for_def d'_def by fastforce
      then show ?thesis using mcov e(1) by cases (auto simp: sent_in_def eo)
    qed
    with step more rp(4) show ?thesis by auto
  qed
qed simp


text \<open>A replica that holds nothing since its checkpoint, and one that holds a later op.\<close>

definition sample_sync_env :: op_sync_env where
  "sample_sync_env = digest_env.extend
     (fold_env.extend (sample_fold_env None) (digest_env.fields (\<lambda>_ _. []) id Some (\<lambda>_. None) (\<lambda>_. None)))
     (op_sync_env.fields (\<lambda>_. None))"

definition sample_behind :: replica where
  "sample_behind = replica_of ((skeleton ''srv'')\<lparr>checkpoint_hlc := Some (sample_stamp 5 ''own'')\<rparr>)"

definition sample_ahead :: replica where
  "sample_ahead = sample_behind\<lparr>op_log := [op_by ''own'' 9 (ServerRenamed ''new'')]\<rparr>"


end
