(* ===== verification/OpSyncProps.thy ===== *)
theory OpSyncProps
  imports OpSync
begin

text \<open>
  The book of asks over any run of its operations: its bounds and the agreement of each open ask with the
  message it sent last, who may get a vector, and that silence ends every ask.
\<close>

section \<open>The invariant\<close>

definition ask_inv :: "bool hmap \<Rightarrow> (string \<times> string) \<times> ask \<Rightarrow> bool" where
  "ask_inv cs x \<longleftrightarrow>
     (case x of ((server, device), a) \<Rightarrow>
        ak_resends a \<le> RESENDS \<and> ak_round a \<le> MAX_ROUNDS \<and> rq_server_id (ak_last a) = server
        \<and> (\<exists>d. rq_digest (ak_last a) = Some d \<and> dg_ask d = ak_id a \<and> dg_salt d = ak_salt a \<and> dg_round d = ak_round a
             \<and> asked_of d = ak_asked a)
        \<and> (ak_unconfirmed a \<longrightarrow> hm_get cs device \<noteq> Some True) \<and> hm_get cs device \<noteq> Some False)"

definition caps_inv :: "bool hmap \<Rightarrow> string list \<Rightarrow> bool" where
  "caps_inv cs ds \<longleftrightarrow> hm_wf cs \<and> distinct ds \<and> (\<forall>k. k \<in> set ds \<longleftrightarrow> hm_get cs k \<noteq> None)"

definition book_inv :: "'m op_sync \<Rightarrow> bool" where
  "book_inv s \<longleftrightarrow>
     caps_inv (caps s) (cap_order s) \<and> length (cap_order s) \<le> CAPS_MAX
     \<and> distinct (map fst (open_asks s)) \<and> list_all (ask_inv (caps s)) (open_asks s)
     \<and> (\<forall>k l. hm_get (unseen s) k = Some l \<longrightarrow> length l \<le> UNSEEN_MAX)
     \<and> distinct (map fst (follow_ups s))"

text \<open>The runs of the book: every operation of the node on it.\<close>

inductive book_reach :: "('a) op_sync_env_scheme \<Rightarrow> 'm op_sync \<Rightarrow> bool" for E where
  book_start: "book_reach E (op_sync_default\<lparr>acts_old := b\<rparr>)"
| book_learn: "book_reach E s \<Longrightarrow> book_reach E (learn device True s)"
| book_ask: "book_reach E s \<Longrightarrow> book_reach E (fst (snd (op_ask E slot idb rnd nanos now r krs m device nonce epoch s)))"
| book_heard: "book_reach E s \<Longrightarrow> book_reach E (snd (heard_request device dg epoch_of s))"
| book_answered: "book_reach E s \<Longrightarrow> book_reach E (fst (snd (answered E slot now r krs m device reply epoch s)))"
| book_carry: "book_reach E s \<Longrightarrow> book_reach E (carry_when_listed server msg s)"
| book_listed: "book_reach E s \<Longrightarrow> book_reach E (snd (listed room s))"
| book_joined: "book_reach E s \<Longrightarrow> book_reach E (joined now server s)"
| book_tick: "book_reach E s \<Longrightarrow> book_reach E (snd (snd (op_tick now lane_holds epoch_of s)))"
| book_away: "book_reach E s \<Longrightarrow> book_reach E (went_away s)"

lemma trim_caps_inv:
  assumes "caps_inv cs ds" and "trim_caps cs ds = (cs', ds')"
  shows "caps_inv cs' ds' \<and> length ds' \<le> CAPS_MAX \<and> (\<forall>k. hm_get cs' k = None \<or> hm_get cs' k = hm_get cs k)"
  using assms
proof (induction cs ds rule: trim_caps.induct)
  case (2 cs d ds)
  show ?case
  proof (cases "CAPS_MAX < length (d # ds)")
    case True
    have "caps_inv (hm_remove d cs) ds"
      using "2.prems"(1) by (auto simp: caps_inv_def hmap_wf)
    with "2.IH" [OF True] "2.prems"(2) True show ?thesis by (auto split: if_splits)
  next
    case False
    with "2.prems" show ?thesis by auto
  qed
qed auto

lemma learn_caps:
  fixes device :: string and digest :: bool and k :: string
  assumes "caps_inv (caps s) (cap_order s)" and "length (cap_order s) \<le> CAPS_MAX"
  defines "s' \<equiv> learn device digest s"
  shows "caps_inv (caps s') (cap_order s')" and "length (cap_order s') \<le> CAPS_MAX"
    and "hm_get (caps s') k = None \<or> hm_get (caps s') k = ((hm_get (caps s))(device \<mapsto> digest)) k"
proof -
  let ?cs = "hm_insert device digest (caps s)"
  have dom: "hm_get (caps s) device = None \<longleftrightarrow> device \<notin> set (cap_order s)"
    using assms(1) by (simp add: caps_inv_def)
  have "caps_inv (caps s') (cap_order s') \<and> length (cap_order s') \<le> CAPS_MAX
    \<and> (\<forall>k. hm_get (caps s') k = None \<or> hm_get (caps s') k = hm_get ?cs k)"
  proof (cases "hm_get (caps s) device = None")
    case True
    then have "caps_inv ?cs (cap_order s @ [device])"
      using assms(1) dom by (auto simp: caps_inv_def hmap_wf)
    moreover obtain cs' ds' where t: "trim_caps ?cs (cap_order s @ [device]) = (cs', ds')" by fastforce
    ultimately show ?thesis using trim_caps_inv [OF _ t] True by (simp add: s'_def learn_def Let_def t)
  next
    case False
    then have "device \<in> set (cap_order s)" using dom by simp
    then show ?thesis
      using assms(1,2) False by (auto simp: s'_def learn_def Let_def caps_inv_def hmap_wf)
  qed
  then show "caps_inv (caps s') (cap_order s')" and "length (cap_order s') \<le> CAPS_MAX"
    and "hm_get (caps s') k = None \<or> hm_get (caps s') k = ((hm_get (caps s))(device \<mapsto> digest)) k"
    by simp_all
qed

lemma learn_other [simp]:
  "unseen (learn device digest s) = unseen s" "follow_ups (learn device digest s) = follow_ups s"
  "open_asks (learn device digest s) =
     (if digest then map (\<lambda>((sv, d), a). ((sv, d), if d = device then a\<lparr>ak_unconfirmed := False\<rparr> else a)) (open_asks s)
      else open_asks s)"
  by (simp_all add: learn_def Let_def split_beta)

lemma ask_inv_caps:
  "ask_inv cs ((sv, d), a) \<Longrightarrow> hm_get cs' d = None \<or> hm_get cs' d = hm_get cs d \<Longrightarrow> ask_inv cs' ((sv, d), a)"
  by (auto simp: ask_inv_def)

lemma learn_true_inv:
  assumes "book_inv s"
  shows "book_inv (learn device True s)"
proof -
  have caps: "caps_inv (caps s) (cap_order s)" "length (cap_order s) \<le> CAPS_MAX" using assms by (simp_all add: book_inv_def)
  note c = learn_caps [OF caps, of device True]
  have "map fst (open_asks (learn device True s)) = map fst (open_asks s)"
    by (auto simp: split_beta)
  then have "distinct (map fst (open_asks (learn device True s)))" using assms by (simp only: book_inv_def)
  moreover have "ask_inv (caps (learn device True s)) ((sv, d), if d = device then a\<lparr>ak_unconfirmed := False\<rparr> else a)"
    if "((sv, d), a) \<in> set (open_asks s)" for sv d a
  proof -
    have inv: "ask_inv (caps s) ((sv, d), a)" using assms that by (auto simp: book_inv_def list_all_iff)
    show ?thesis
    proof (cases "d = device")
      case True
      with inv c(3) [of d] show ?thesis by (auto simp: ask_inv_def)
    next
      case False
      with ask_inv_caps [OF inv] c(3) [of d] show ?thesis by simp
    qed
  qed
  then have "list_all (ask_inv (caps (learn device True s))) (open_asks (learn device True s))"
    by (auto simp: list_all_iff)
  ultimately show ?thesis
    using assms c(1,2) unfolding book_inv_def learn_other(1,2) by blast
qed

lemma heard_inv:
  assumes "book_inv s"
  shows "book_inv (snd (heard_request device dg epoch_of s))"
proof (cases "is_some_and (\<lambda>v. DG \<le> v) dg")
  case True
  with learn_true_inv [OF assms, of device] show ?thesis by (simp add: heard_request_def Let_def)
next
  case False
  have caps: "caps_inv (caps s) (cap_order s)" "length (cap_order s) \<le> CAPS_MAX" using assms by (simp_all add: book_inv_def)
  note c = learn_caps [OF caps, of device False]
  have "ask_inv (caps (learn device False s)) ((sv, d), a)" if "((sv, d), a) \<in> set (open_asks s)" "d \<noteq> device" for sv d a
  proof -
    have inv: "ask_inv (caps s) ((sv, d), a)" using assms that(1) by (auto simp: book_inv_def list_all_iff)
    with ask_inv_caps [OF inv] c(3) [of d] that(2) show ?thesis by simp
  qed
  then have "list_all (ask_inv (caps (learn device False s))) (filter (\<lambda>((_, d), _). d \<noteq> device) (open_asks s))"
    by (auto simp: list_all_iff)
  moreover have "distinct (map fst (filter (\<lambda>((_, d), _). d \<noteq> device) (open_asks s)))"
    using assms by (simp add: book_inv_def distinct_map_filter)
  ultimately show ?thesis
    using assms c(1,2) False by (simp add: heard_request_def Let_def book_inv_def)
qed

lemma set_update_subset: "set (AList.update k v xs) \<subseteq> insert (k, v) (set xs)"
  by (induction xs) auto

lemma put_ask_inv:
  assumes "book_inv s" and "ask_inv (caps s) (key, a)"
  shows "book_inv (s\<lparr>open_asks := AList.update key a (open_asks s)\<rparr>)"
proof -
  have "x = (key, a) \<or> x \<in> set (open_asks s)" if "x \<in> set (AList.update key a (open_asks s))" for x
    using that set_update_subset by fast
  with assms show ?thesis by (auto simp: book_inv_def list_all_iff distinct_update)
qed

lemma del_ask_inv:
  assumes "book_inv s"
  shows "book_inv (s\<lparr>open_asks := AList.delete key (open_asks s)\<rparr>)"
  using assms by (auto simp: book_inv_def list_all_iff AList.delete_eq distinct_map_filter)

lemma first_ask_fields [simp]:
  "dg_ask (first_ask E es ident salt base) = ident" "dg_salt (first_ask E es ident salt base) = salt"
  "dg_round (first_ask E es ident salt base) = 0" "dg_base (first_ask E es ident salt base) = base"
  by (simp_all add: first_ask_def Let_def split: option.split)

lemma op_ask_inv:
  assumes "book_inv s"
  shows "book_inv (fst (snd (op_ask E slot idb rnd nanos now r krs m device nonce epoch s)))"
proof (cases "acts_old s \<or> anchor (st r) = Legacy \<or> reads_of s device = ReadsVector")
  case True
  with assms show ?thesis by (auto simp: op_ask_def)
next
  case False
  then have new: "\<not> acts_old s" "anchor (st r) \<noteq> Legacy" "reads_of s device \<noteq> ReadsVector" by simp_all
  obtain d m' where d: "ask_digest E slot r krs m (fresh_id idb) (new_salt E rnd nanos) = (d, m')" by fastforce
  have flds: "dg_ask d = fresh_id idb" "dg_salt d = new_salt E rnd nanos" "dg_round d = 0"
    using d by (auto simp: ask_digest_def Let_def split_beta)
  have caps: "hm_get (caps s) device \<noteq> Some False" "reads_of s device = ReadsUnknown \<longleftrightarrow> hm_get (caps s) device = None"
    using new(3) by (auto simp: reads_of_def split: option.splits bool.splits)
  show ?thesis
    using new caps by (auto simp: op_ask_def d Let_def ask_inv_def flds asked_of_def RESENDS_def intro!: put_ask_inv assms)
qed

lemma answered_inv:
  assumes "book_inv s"
  shows "book_inv (fst (snd (answered E slot now r krs m device reply epoch s)))"
proof (cases "opt_filter (\<lambda>a. ak_id a = rp_ask reply \<and> ak_round a = rp_round reply) (map_of (open_asks s) (server_id (st r), device))")
  case None
  with assms show ?thesis by (simp add: answered_def)
next
  case (Some a)
  note del = del_ask_inv [OF assms, of "(server_id (st r), device)"]
  have a: "map_of (open_asks s) (server_id (st r), device) = Some a" "ak_id a = rp_ask reply" "ak_round a = rp_round reply"
    using Some by simp_all
  obtain es m' where es: "entries E slot r krs (checkpoint_hlc (st r)) m = (es, m')" by fastforce
  show ?thesis
  proof (cases "rp_vector reply \<or> rp_groups reply = [] \<or> MAX_ROUNDS \<le> rp_round reply \<or> follow_up E es (ak_salt a) (ak_asked a) reply = None")
    case True
    with del show ?thesis by (auto simp: answered_def Let_def Some es)
  next
    case False
    then obtain rs where rs: "follow_up E es (ak_salt a) (ak_asked a) reply = Some rs"
      and c: "\<not> rp_vector reply" "rp_groups reply \<noteq> []" "rp_round reply < MAX_ROUNDS" by auto
    have "((server_id (st r), device), a) \<in> set (open_asks s)" using a(1) by (rule map_of_SomeD)
    then have "ask_inv (caps s) ((server_id (st r), device), a)" using assms by (auto simp: book_inv_def list_all_iff)
    then have "ask_inv (caps s) ((server_id (st r), device), following now r rs (rp_round reply + 1) a)"
      using next_round(1) [OF c(3)] by (auto simp: ask_inv_def following_def follow_request_def asked_of_def)
    then show ?thesis unfolding answered_follow [OF a c es rs] fst_conv snd_conv by (rule put_ask_inv [OF assms])
  qed
qed

lemma tick_ask_inv:
  assumes "ask_inv cs (key, a)" and "snd (tick_ask now holds epoch_of key a) = Some a'"
  shows "ask_inv cs (key, a')"
proof -
  have "ak_resends a + 1 \<le> RESENDS" if "ak_resends a < RESENDS" using that by (rule inc_le)
  with assms show ?thesis
    by (cases key) (auto simp: tick_ask_def ask_inv_def Let_def split: if_splits)
qed

lemma op_tick_asks:
  "open_asks (snd (snd (op_tick now holds epoch_of s)))
     = List.map_filter (\<lambda>(key, a). map_option (Pair key) (snd (tick_ask now holds epoch_of key a))) (open_asks s)"
  by (simp add: op_tick_def Let_def map_filter_def filter_map comp_def split_beta)

lemma map_filter_keys:
  assumes "distinct (map fst xs)" and "\<forall>x \<in> set xs. \<forall>y. f x = Some y \<longrightarrow> fst y = fst x"
  shows "distinct (map fst (List.map_filter f xs))" and "set (List.map_filter f xs) = {y. \<exists>x \<in> set xs. f x = Some y}"
proof -
  show set: "set (List.map_filter f xs) = {y. \<exists>x \<in> set xs. f x = Some y}"
    by (force simp: map_filter_def)
  have "map fst (List.map_filter f xs) = map fst (filter (\<lambda>x. f x \<noteq> None) xs)"
    using assms(2) by (auto simp: map_filter_def)
  with assms(1) show "distinct (map fst (List.map_filter f xs))" by (simp add: distinct_map_filter)
qed

lemma op_tick_inv:
  assumes "book_inv s"
  shows "book_inv (snd (snd (op_tick now holds epoch_of s)))"
proof -
  let ?f = "\<lambda>(key, a). map_option (Pair key) (snd (tick_ask now holds epoch_of key a))"
  have d: "distinct (map fst (open_asks s))" using assms by (simp add: book_inv_def)
  have k: "\<forall>x \<in> set (open_asks s). \<forall>y. ?f x = Some y \<longrightarrow> fst y = fst x" by auto
  have "list_all (ask_inv (caps s)) (List.map_filter ?f (open_asks s))"
    unfolding list_all_iff map_filter_keys(2) [OF d k] using assms tick_ask_inv
    by (fastforce simp: book_inv_def list_all_iff)
  with map_filter_keys(1) [OF d k] assms show ?thesis
    unfolding book_inv_def op_tick_asks by (simp add: op_tick_def Let_def distinct_map_filter)
qed

lemma book_reach_inv: "book_reach E s \<Longrightarrow> book_inv s"
proof (induction rule: book_reach.induct)
  case (book_start b)
  show ?case by (simp add: book_inv_def op_sync_default_def caps_inv_def)
next
  case (book_carry s server msg)
  then have "length (unwrap_or [] (hm_get (unseen s) server)) \<le> UNSEEN_MAX"
    by (cases "hm_get (unseen s) server") (auto simp: book_inv_def)
  with book_carry show ?case by (simp add: book_inv_def carry_when_listed_def Let_def)
next
  case (book_listed s room)
  then show ?case by (auto simp: book_inv_def listed_def split: if_splits)
next
  case (book_joined s now server)
  then show ?case by (auto simp: book_inv_def joined_def list_ex_iff)
next
  case (book_away s)
  then show ?case by (simp add: book_inv_def went_away_def)
qed (rule learn_true_inv op_ask_inv heard_inv answered_inv op_tick_inv, assumption)+

text \<open>C24: Over any run of its operations the book of asks keeps its bounds and its promise. It remembers at most 4096
  devices and 16 waiting ops per server, an ask was sent again at most twice and is in a round both sides allow, its last
  message carries the digest of the ask it names, no ask stays open to a device known to read only vectors, and the
  silence clock never falls back to the vector for a device known to read digests.\<close>

theorem book_invariant:
  assumes "book_reach E s"
  shows "length (cap_order s) \<le> CAPS_MAX \<and> set (cap_order s) = dom (hm_get (caps s))
    \<and> (hm_get (unseen s) server = Some waiting \<longrightarrow> length waiting \<le> UNSEEN_MAX)
    \<and> (map_of (open_asks s) (server, device) = Some a \<longrightarrow>
         ak_resends a \<le> RESENDS \<and> ak_round a \<le> MAX_ROUNDS \<and> reads_of s device \<noteq> ReadsVector
         \<and> (\<exists>d. rq_digest (ak_last a) = Some d \<and> dg_ask d = ak_id a \<and> dg_round d = ak_round a \<and> asked_of d = ak_asked a))
    \<and> (SilentVector server device nonce epoch \<in> set (fst (op_tick now lane_holds epoch_of s)) \<longrightarrow> reads_of s device \<noteq> ReadsDigest)"
proof (intro conjI)
  note inv = book_reach_inv [OF assms]
  show "length (cap_order s) \<le> CAPS_MAX" "set (cap_order s) = dom (hm_get (caps s))"
    using inv by (auto simp: book_inv_def caps_inv_def)
  show "hm_get (unseen s) server = Some waiting \<longrightarrow> length waiting \<le> UNSEEN_MAX"
    using inv by (simp add: book_inv_def)
  have ask: "ask_inv (caps s) ((sv, d), a)" if "((sv, d), a) \<in> set (open_asks s)" for sv d a
    using inv that by (auto simp: book_inv_def list_all_iff)
  show "map_of (open_asks s) (server, device) = Some a \<longrightarrow>
      ak_resends a \<le> RESENDS \<and> ak_round a \<le> MAX_ROUNDS \<and> reads_of s device \<noteq> ReadsVector
      \<and> (\<exists>d. rq_digest (ak_last a) = Some d \<and> dg_ask d = ak_id a \<and> dg_round d = ak_round a \<and> asked_of d = ak_asked a)"
    using ask by (fastforce simp: ask_inv_def reads_of_def dest: map_of_SomeD split: option.splits bool.splits)
  show "SilentVector server device nonce epoch \<in> set (fst (op_tick now lane_holds epoch_of s)) \<longrightarrow> reads_of s device \<noteq> ReadsDigest"
    using ask by (fastforce simp: op_tick_def Let_def tick_ask_def ask_inv_def reads_of_def split: if_splits option.splits bool.splits)
qed

definition sample_book :: "unit op_sync" where
  "sample_book = fst (snd (op_ask sample_sync_env (\<lambda>_. 0) [] (Some (replicate 16 (CHR ''k''))) 0 0 sample_behind [] memo_default
     ''dev'' None None (op_sync_default\<lparr>acts_old := False\<rparr>)))"

lemma sample_book_ask:
  "\<exists>a. open_asks sample_book = [((''srv'', ''dev''), a)] \<and> ak_resends a = 0 \<and> ak_sent_at a = 0 \<and> ak_round_at a = 0 \<and> \<not> ak_judged a"
  by (simp add: sample_book_def op_ask_def op_sync_default_def sample_behind_def replica_of_def anchor_def reads_of_def Let_def split_beta
      skeleton_def)

lemma book_invariant_witness:
  "\<exists>a d. map_of (open_asks sample_book) (''srv'', ''dev'') = Some a \<and> ak_resends a \<le> RESENDS
     \<and> rq_digest (ak_last a) = Some d \<and> asked_of d = ak_asked a"
proof -
  have "book_reach sample_sync_env sample_book"
    unfolding sample_book_def by (intro book_ask book_start)
  from book_invariant [OF this, where server = "''srv''" and device = "''dev''"] sample_book_ask show ?thesis
    by fastforce
qed

section \<open>Silence\<close>

fun tick_run ::
  "(instant \<times> (string \<Rightarrow> bool) \<times> (string \<Rightarrow> u64 option)) list \<Rightarrow> 'm op_sync \<Rightarrow> silent list \<times> 'm op_sync" where
  "tick_run [] s = ([], s)"
| "tick_run ((now, holds, epoch_of) # ts) s =
     (let (out, _, s) = op_tick now holds epoch_of s; (more, s) = tick_run ts s in (out @ more, s))"

definition copies :: "string \<times> string \<Rightarrow> silent list \<Rightarrow> nat" where
  "copies key out = length (filter (\<lambda>x. case x of SilentAgain server device _ \<Rightarrow> (server, device) = key | _ \<Rightarrow> False) out)"

definition verdicts :: "string \<times> string \<Rightarrow> silent list \<Rightarrow> nat" where
  "verdicts key out =
     length (filter (\<lambda>x. case x of SilentAgain _ _ _ \<Rightarrow> False | SilentVector server device _ _ \<Rightarrow> (server, device) = key
                                  | SilentClosed server device \<Rightarrow> (server, device) = key) out)"

text \<open>Ticks that each come a whole time to live after the one before, the device's lane free.\<close>

fun spaced :: "string \<Rightarrow> instant \<Rightarrow> (instant \<times> (string \<Rightarrow> bool) \<times> (string \<Rightarrow> u64 option)) list \<Rightarrow> bool" where
  "spaced device t [] = True"
| "spaced device t ((now, holds, epoch_of) # ts) = (t + ASK_TTL \<le> now \<and> \<not> holds device \<and> spaced device now ts)"

definition left :: "ask option \<Rightarrow> nat" where
  "left x = (case x of None \<Rightarrow> 0 | Some a \<Rightarrow> if ak_judged a then 0 else unat RESENDS - unat (ak_resends a))"

definition unjudged :: "ask option \<Rightarrow> nat" where
  "unjudged x = (case x of None \<Rightarrow> 0 | Some a \<Rightarrow> if ak_judged a then 0 else 1)"

lemma copies_simps [simp]: "copies key [] = 0" "copies key (xs @ ys) = copies key xs + copies key ys"
  by (simp_all add: copies_def)

lemma verdicts_simps [simp]: "verdicts key [] = 0" "verdicts key (xs @ ys) = verdicts key xs + verdicts key ys"
  by (simp_all add: verdicts_def)

lemma resends_next:
  assumes "(n :: u32) < RESENDS"
  shows "unat (n + 1) = Suc (unat n)" and "n + 1 \<le> RESENDS"
proof -
  have "unat n < 2" using assms by (simp add: RESENDS_def word_less_nat_alt)
  then show "unat (n + 1) = Suc (unat n)" by (subst unat_add_no_wrap) simp_all
  show "n + 1 \<le> RESENDS" using assms by (rule inc_le)
qed

lemma tick_ask_counts:
  "copies key (fst (tick_ask now holds epoch_of key a)) + left (snd (tick_ask now holds epoch_of key a)) \<le> left (Some a)"
  "verdicts key (fst (tick_ask now holds epoch_of key a)) + unjudged (snd (tick_ask now holds epoch_of key a)) \<le> unjudged (Some a)"
  "key' \<noteq> key \<Longrightarrow> copies key' (fst (tick_ask now holds epoch_of key a)) = 0 \<and> verdicts key' (fst (tick_ask now holds epoch_of key a)) = 0"
proof -
  have "unat (ak_resends a) < unat RESENDS" if "ak_resends a < RESENDS" using that by (simp add: word_less_nat_alt)
  then show "copies key (fst (tick_ask now holds epoch_of key a)) + left (snd (tick_ask now holds epoch_of key a)) \<le> left (Some a)"
    by (cases key) (auto simp: tick_ask_def Let_def left_def copies_def resends_next)
  show "verdicts key (fst (tick_ask now holds epoch_of key a)) + unjudged (snd (tick_ask now holds epoch_of key a)) \<le> unjudged (Some a)"
    by (cases key) (auto simp: tick_ask_def Let_def unjudged_def verdicts_def)
  show "key' \<noteq> key \<Longrightarrow> copies key' (fst (tick_ask now holds epoch_of key a)) = 0 \<and> verdicts key' (fst (tick_ask now holds epoch_of key a)) = 0"
    by (cases key) (auto simp: tick_ask_def Let_def copies_def verdicts_def)
qed

lemma map_of_map_filter:
  "distinct (map fst xs) \<Longrightarrow>
     map_of (List.map_filter (\<lambda>(k, a). map_option (Pair k) (g k a)) xs) key = Option.bind (map_of xs key) (g key)"
proof (induction xs)
  case (Cons x xs)
  have "map_of (List.map_filter (\<lambda>(k, a). map_option (Pair k) (g k a)) xs) key = None" if "key \<notin> fst ` set xs"
    using that Cons by (simp add: map_of_eq_None_iff [THEN iffD2])
  with Cons show ?case by (cases x) (auto simp: map_filter_simps split: option.split)
qed (simp add: map_filter_simps)

lemma count_concat:
  fixes h :: "'b list \<Rightarrow> nat"
  assumes "h [] = 0" and "\<And>us vs. h (us @ vs) = h us + h vs" and "\<And>k a. k \<noteq> key \<Longrightarrow> h (f k a) = 0"
  shows "distinct (map fst xs) \<Longrightarrow>
    h (concat (map (\<lambda>(k, a). f k a) xs)) = (case map_of xs key of None \<Rightarrow> 0 | Some a \<Rightarrow> h (f key a))"
proof (induction xs)
  case (Cons x xs)
  have "map_of xs key = None" if "fst x = key" using Cons.prems that by (simp add: map_of_eq_None_iff)
  with Cons show ?case by (cases x) (auto simp: assms)
qed (simp add: assms)

text \<open>What a tick says about one key is what it does to that key's ask.\<close>

lemma op_tick_key:
  assumes d: "distinct (map fst (open_asks s))" and tick: "op_tick now holds epoch_of s = (out, due, s')"
  shows "map_of (open_asks s') key = Option.bind (map_of (open_asks s) key) (\<lambda>a. snd (tick_ask now holds epoch_of key a))"
    and "copies key out = (case map_of (open_asks s) key of None \<Rightarrow> 0 | Some a \<Rightarrow> copies key (fst (tick_ask now holds epoch_of key a)))"
    and "verdicts key out = (case map_of (open_asks s) key of None \<Rightarrow> 0 | Some a \<Rightarrow> verdicts key (fst (tick_ask now holds epoch_of key a)))"
    and "distinct (map fst (open_asks s'))"
proof -
  have s': "open_asks s' = List.map_filter (\<lambda>(key, a). map_option (Pair key) (snd (tick_ask now holds epoch_of key a))) (open_asks s)"
    using op_tick_asks [of now holds epoch_of s] tick by simp
  have out: "out = concat (map (\<lambda>(key, a). fst (tick_ask now holds epoch_of key a)) (open_asks s))"
    using tick by (auto simp: op_tick_def Let_def comp_def case_prod_unfold)
  show "distinct (map fst (open_asks s'))" unfolding s' by (rule map_filter_keys(1) [OF d]) auto
  show "map_of (open_asks s') key = Option.bind (map_of (open_asks s) key) (\<lambda>a. snd (tick_ask now holds epoch_of key a))"
    unfolding s' by (rule map_of_map_filter [OF d])
  show "copies key out = (case map_of (open_asks s) key of None \<Rightarrow> 0 | Some a \<Rightarrow> copies key (fst (tick_ask now holds epoch_of key a)))"
    unfolding out using tick_ask_counts(3) by (intro count_concat [OF _ _ _ d]) auto
  show "verdicts key out = (case map_of (open_asks s) key of None \<Rightarrow> 0 | Some a \<Rightarrow> verdicts key (fst (tick_ask now holds epoch_of key a)))"
    unfolding out using tick_ask_counts(3) by (intro count_concat [OF _ _ _ d]) auto
qed

lemma tick_run_counts:
  assumes "distinct (map fst (open_asks s))"
  shows "copies key (fst (tick_run ts s)) \<le> left (map_of (open_asks s) key)
    \<and> verdicts key (fst (tick_run ts s)) \<le> unjudged (map_of (open_asks s) key)"
  using assms
proof (induction ts s rule: tick_run.induct)
  case (2 now holds epoch_of ts s)
  obtain out due s' where tick: "op_tick now holds epoch_of s = (out, due, s')" by (metis prod_cases3)
  obtain more s'' where more: "tick_run ts s' = (more, s'')" by fastforce
  note k = op_tick_key [OF "2.prems" tick]
  have "copies key more \<le> left (map_of (open_asks s') key) \<and> verdicts key more \<le> unjudged (map_of (open_asks s') key)"
    using "2.IH" [OF tick [symmetric] refl refl k(4)] by (simp add: more)
  with tick_ask_counts(1,2) [of key now holds epoch_of] show ?case
    unfolding k(1) by (cases "map_of (open_asks s) key") (auto simp: tick more k(2,3) intro: order_trans add_left_mono)
qed (simp add: copies_def verdicts_def)

lemma tick_run_closed:
  assumes "distinct (map fst (open_asks s))" and "map_of (open_asks s) key = None"
  shows "map_of (open_asks (snd (tick_run ts s))) key = None"
  using assms
proof (induction ts s rule: tick_run.induct)
  case (2 now holds epoch_of ts s)
  obtain out due s' where tick: "op_tick now holds epoch_of s = (out, due, s')" by (metis prod_cases3)
  note k = op_tick_key [OF "2.prems"(1) tick]
  show ?case using "2.IH" [OF tick [symmetric] refl refl k(4)] "2.prems"(2) by (simp add: tick k(1) split_beta)
qed simp

lemma tick_ask_spaced:
  assumes "spaced (snd key) (max (ak_sent_at a) (ak_round_at a)) ((now, holds, epoch_of) # ts)" and "ak_resends a \<le> RESENDS"
    and "snd (tick_ask now holds epoch_of key a) = Some a'"
  shows "ak_resends a' = ak_resends a + 1 \<and> ak_resends a < RESENDS \<and> spaced (snd key) (max (ak_sent_at a') (ak_round_at a')) ts"
proof -
  have "unat (ak_resends a) \<le> 2" using assms(2) by (simp add: RESENDS_def word_le_nat_alt)
  then have "(2::nat) ^ unat (ak_resends a) \<le> 2 ^ 2" by (intro power_increasing) simp_all
  then have "\<not> now - ak_sent_at a < RESEND_AFTER * 2 ^ unat (ak_resends a)" "\<not> now - ak_round_at a < ASK_TTL"
    "\<not> holds (snd key)" "spaced (snd key) now ts" "ak_round_at a \<le> now"
    using assms(1) by (auto simp: RESEND_AFTER_def ASK_TTL_def)
  with assms(3) show ?thesis
    by (cases key) (auto simp: tick_ask_def Let_def max_def split: if_splits)
qed

lemma spaced_closes:
  assumes "distinct (map fst (open_asks s))" and "map_of (open_asks s) key = Some a" and "ak_resends a \<le> RESENDS"
    and "spaced (snd key) (max (ak_sent_at a) (ak_round_at a)) ts" and "unat RESENDS - unat (ak_resends a) < length ts"
  shows "map_of (open_asks (snd (tick_run ts s))) key = None"
  using assms
proof (induction ts s arbitrary: a rule: tick_run.induct)
  case (2 now holds epoch_of ts s)
  obtain out due s' where tick: "op_tick now holds epoch_of s = (out, due, s')" by (metis prod_cases3)
  note k = op_tick_key [OF "2.prems"(1) tick]
  have run: "snd (tick_run ((now, holds, epoch_of) # ts) s) = snd (tick_run ts s')" by (simp add: tick split_beta)
  show ?case
  proof (cases "snd (tick_ask now holds epoch_of key a)")
    case None
    with tick_run_closed [OF k(4)] k(1) "2.prems"(2) show ?thesis unfolding run by simp
  next
    case (Some a')
    note sp = tick_ask_spaced [OF "2.prems"(4,3) Some]
    have "unat (ak_resends a') = Suc (unat (ak_resends a))" "ak_resends a' \<le> RESENDS"
      "unat (ak_resends a) < unat RESENDS"
      using sp resends_next [of "ak_resends a"] by (simp_all add: word_less_nat_alt)
    then show ?thesis
      using "2.IH" [OF tick [symmetric] refl refl k(4), of a'] k(1) "2.prems"(2,5) Some sp unfolding run by simp
  qed
qed simp

text \<open>C25: Silence ends every ask. However the ticks fall, an unanswered ask is sent again at most as often as is left of
  its two copies and is judged at most once. Once three ticks have passed, each a time to live after the one before and
  with the device's lane free, it is no longer open.\<close>

theorem silence_ends:
  assumes "distinct (map fst (open_asks s))" and "map_of (open_asks s) key = Some a" and "ak_resends a \<le> RESENDS"
  shows "copies key (fst (tick_run ts s)) \<le> unat RESENDS - unat (ak_resends a)
    \<and> verdicts key (fst (tick_run ts s)) \<le> 1
    \<and> (spaced (snd key) (max (ak_sent_at a) (ak_round_at a)) ts \<and> 3 \<le> length ts
         \<longrightarrow> map_of (open_asks (snd (tick_run ts s))) key = None)"
proof -
  have "copies key (fst (tick_run ts s)) \<le> unat RESENDS - unat (ak_resends a) \<and> verdicts key (fst (tick_run ts s)) \<le> 1"
    using tick_run_counts [OF assms(1), of key ts] by (auto simp: assms(2) left_def unjudged_def split: if_splits)
  moreover have "unat RESENDS - unat (ak_resends a) < 3" by (simp add: RESENDS_def)
  ultimately show ?thesis using spaced_closes [OF assms] by simp
qed

lemma silence_ends_witness:
  "map_of (open_asks (snd (tick_run [(60000, \<lambda>_. False, \<lambda>_. None), (120000, \<lambda>_. False, \<lambda>_. None), (180000, \<lambda>_. False, \<lambda>_. None)] sample_book)))
     (''srv'', ''dev'') = None"
proof -
  obtain a where "open_asks sample_book = [((''srv'', ''dev''), a)]" "ak_resends a = 0" "ak_sent_at a = 0" "ak_round_at a = 0"
    using sample_book_ask by blast
  then show ?thesis
    using silence_ends [of sample_book "(''srv'', ''dev'')" a
        "[(60000, \<lambda>_. False, \<lambda>_. None), (120000, \<lambda>_. False, \<lambda>_. None), (180000, \<lambda>_. False, \<lambda>_. None)]"]
    by (simp add: ASK_TTL_def)
qed

end
