(* ===== verification/Resolver.thy ===== *)
theory Resolver
  imports HashMap
begin

text \<open>
  The resolver of devices to master identities (\<open>node/resolver.rs\<close>): its three process-wide tables as one
  record, every lookup and every change. The locks of the source are never poisoned here. What the store
  returns at startup is an argument.
\<close>

record resolver =
  rv_links :: "string hmap"
  rv_revoked :: "string set hmap"
  rv_rostered :: "string set"
  rv_epoch :: u64

definition resolver_default :: resolver where
  "resolver_default = \<lparr>rv_links = [], rv_revoked = [], rv_rostered = {}, rv_epoch = 0\<rparr>"

section \<open>Lookups\<close>

definition changed :: "resolver \<Rightarrow> resolver" where
  "changed v = v\<lparr>rv_epoch := rv_epoch v + 1\<rparr>"

definition resolve :: "resolver \<Rightarrow> string \<Rightarrow> string" where
  "resolve v pid = unwrap_or pid (hm_get (rv_links v) pid)"

definition same_identity :: "resolver \<Rightarrow> string \<Rightarrow> string \<Rightarrow> bool" where
  "same_identity v a b \<longleftrightarrow> a = b \<or> resolve v a = resolve v b"

definition is_known_master :: "resolver \<Rightarrow> string \<Rightarrow> bool" where
  "is_known_master v pid \<longleftrightarrow> list_ex (\<lambda>(_, m). m = pid) (rv_links v)"

definition is_device_of :: "resolver \<Rightarrow> string \<Rightarrow> string \<Rightarrow> bool" where
  "is_device_of v device master \<longleftrightarrow> hm_get (rv_links v) device = Some master"

definition is_bare_master :: "resolver \<Rightarrow> string \<Rightarrow> bool" where
  "is_bare_master v pid \<longleftrightarrow> pid \<in> rv_rostered v \<and> \<not> is_device_of v pid pid"

definition disowns :: "resolver \<Rightarrow> string \<Rightarrow> string \<Rightarrow> bool" where
  "disowns v master device =
     (if device = master then is_bare_master v master
      else
        (let known = (master \<in> rv_rostered v \<or> list_ex (\<lambda>(d, m). m = master \<and> d \<noteq> master) (rv_links v))
         in known \<and> hm_get (rv_links v) device \<noteq> Some master))"

definition all_links :: "resolver \<Rightarrow> (string \<times> string) list" where
  "all_links v = rv_links v"

definition devices_for :: "resolver \<Rightarrow> string \<Rightarrow> string list" where
  "devices_for v master = map fst (filter (\<lambda>(device, m). m = master \<and> device \<noteq> master) (rv_links v))"

definition is_revoked :: "resolver \<Rightarrow> string \<Rightarrow> bool" where
  "is_revoked v device \<longleftrightarrow> hm_has (rv_revoked v) device"

definition is_revoked_by :: "resolver \<Rightarrow> string \<Rightarrow> string \<Rightarrow> bool" where
  "is_revoked_by v master device \<longleftrightarrow> is_some_and (\<lambda>masters. master \<in> masters) (hm_get (rv_revoked v) device)"

definition is_own_unrevoked_device :: "resolver \<Rightarrow> string \<Rightarrow> string \<Rightarrow> bool" where
  "is_own_unrevoked_device v peer local_master \<longleftrightarrow>
     same_identity v peer local_master \<and> \<not> is_revoked v peer \<and> \<not> is_bare_master v peer"

definition is_disowned_own_id :: "resolver \<Rightarrow> string \<Rightarrow> string \<Rightarrow> bool" where
  "is_disowned_own_id v peer local_master \<longleftrightarrow>
     same_identity v peer local_master \<and> \<not> is_own_unrevoked_device v peer local_master"

section \<open>Changes\<close>

definition note_roster :: "string \<Rightarrow> resolver \<Rightarrow> resolver" where
  "note_roster master v =
     (if master \<notin> rv_rostered v then changed (v\<lparr>rv_rostered := insert master (rv_rostered v)\<rparr>) else v)"

definition update_many :: "string \<Rightarrow> string list \<Rightarrow> resolver \<Rightarrow> resolver" where
  "update_many master devices v = changed (v\<lparr>rv_links := foldl (\<lambda>m d. hm_insert d master m) (rv_links v) devices\<rparr>)"

definition seed_self :: "string \<Rightarrow> string list \<Rightarrow> resolver \<Rightarrow> resolver" where
  "seed_self master devices v = changed (v\<lparr>rv_links := foldl (\<lambda>m d. hm_insert d master m) (rv_links v) devices\<rparr>)"

definition warm_from_links :: "(string \<times> string) list \<Rightarrow> resolver \<Rightarrow> resolver" where
  "warm_from_links pairs v = changed (v\<lparr>rv_links := foldl (\<lambda>m (d, master). hm_insert d master m) (rv_links v) pairs\<rparr>)"

definition forget_device :: "string \<Rightarrow> resolver \<Rightarrow> resolver" where
  "forget_device device v = changed (v\<lparr>rv_links := hm_remove device (rv_links v)\<rparr>)"

definition mark_revoked_by :: "string \<Rightarrow> string list \<Rightarrow> resolver \<Rightarrow> resolver" where
  "mark_revoked_by master devices v =
     changed (v\<lparr>rv_revoked := foldl (\<lambda>m d. hm_insert d (insert master (unwrap_or {} (hm_get m d))) m) (rv_revoked v) devices,
                rv_links := foldl (\<lambda>m d. hm_remove d m) (rv_links v) devices\<rparr>)"

definition unmark_one :: "string \<Rightarrow> string set hmap \<Rightarrow> string \<Rightarrow> string set hmap" where
  "unmark_one master m d =
     (case hm_get m d of
        None \<Rightarrow> m
      | Some masters \<Rightarrow>
          (let masters = masters - {master} in if masters = {} then hm_remove d m else hm_insert d masters m))"

definition unmark_revoked_by :: "string \<Rightarrow> string list \<Rightarrow> resolver \<Rightarrow> resolver" where
  "unmark_revoked_by master devices v = v\<lparr>rv_revoked := foldl (unmark_one master) (rv_revoked v) devices\<rparr>"

text \<open>The block list the store also holds is another table.\<close>

definition warm_from_store ::
  "(string \<times> string) list option \<Rightarrow> string list option \<Rightarrow> (string \<times> string) list option \<Rightarrow> resolver \<Rightarrow> resolver" where
  "warm_from_store dev_links masters marks v =
     (let v = (case dev_links of Some ls \<Rightarrow> warm_from_links ls v | None \<Rightarrow> v);
          v = (case masters of Some ms \<Rightarrow> foldl (\<lambda>v m. note_roster m v) v ms | None \<Rightarrow> v)
      in case marks of Some ps \<Rightarrow> foldl (\<lambda>v (device, master). mark_revoked_by master [device] v) v ps | None \<Rightarrow> v)"

section \<open>Runs\<close>

datatype resolver_op =
    NoteRoster string
  | UpdateMany string "string list"
  | SeedSelf string "string list"
  | WarmLinks "(string \<times> string) list"
  | ForgetDevice string
  | MarkRevoked string "string list"
  | UnmarkRevoked string "string list"

fun resolver_step :: "resolver \<Rightarrow> resolver_op \<Rightarrow> resolver" where
  "resolver_step v (NoteRoster m) = note_roster m v"
| "resolver_step v (UpdateMany m ds) = update_many m ds v"
| "resolver_step v (SeedSelf m ds) = seed_self m ds v"
| "resolver_step v (WarmLinks ps) = warm_from_links ps v"
| "resolver_step v (ForgetDevice d) = forget_device d v"
| "resolver_step v (MarkRevoked m ds) = mark_revoked_by m ds v"
| "resolver_step v (UnmarkRevoked m ds) = unmark_revoked_by m ds v"

lemma is_revoked_by_revoked: "is_revoked_by v master d \<Longrightarrow> is_revoked v d"
  by (auto simp: is_revoked_by_def is_revoked_def hm_has_def is_some_and_iff)

lemma marks_foldl:
  "is_some_and (\<lambda>ms. master \<in> ms)
     (hm_get (foldl (\<lambda>m d. hm_insert d (insert other (unwrap_or {} (hm_get m d))) m) marks ds) d)
   \<longleftrightarrow> (other = master \<and> d \<in> set ds) \<or> is_some_and (\<lambda>ms. master \<in> ms) (hm_get marks d)"
  by (induction ds arbitrary: marks) (auto simp: is_some_and_iff split: option.splits if_splits)

lemma unmarks_foldl:
  assumes "is_some_and (\<lambda>ms. master \<in> ms) (hm_get marks d)" and "other \<noteq> master \<or> d \<notin> set ds"
  shows "is_some_and (\<lambda>ms. master \<in> ms) (hm_get (foldl (unmark_one other) marks ds) d)"
  using assms
proof (induction ds arbitrary: marks)
  case (Cons x ds)
  have "is_some_and (\<lambda>ms. master \<in> ms) (hm_get (unmark_one other marks x) d)"
    using Cons.prems by (auto simp: unmark_one_def Let_def is_some_and_iff split: option.splits if_splits)
  with Cons show ?case by simp
qed simp

lemma step_keeps_mark:
  assumes "is_revoked_by v master d" and "\<And>ds. x = UnmarkRevoked master ds \<Longrightarrow> d \<notin> set ds"
  shows "is_revoked_by (resolver_step v x) master d"
proof (cases x)
  case (MarkRevoked m ds)
  with assms(1) show ?thesis by (simp add: is_revoked_by_def mark_revoked_by_def changed_def marks_foldl)
next
  case (UnmarkRevoked m ds)
  with assms show ?thesis
    by (auto simp: is_revoked_by_def unmark_revoked_by_def intro: unmarks_foldl)
qed (use assms(1) in \<open>simp_all add: is_revoked_by_def note_roster_def update_many_def seed_self_def warm_from_links_def
       forget_device_def changed_def\<close>)

lemma removes_foldl: "hm_get (foldl (\<lambda>m d. hm_remove d m) m ds) d = (if d \<in> set ds then None else hm_get m d)"
  by (induction ds arbitrary: m) auto

text \<open>C36: A device a master's roster removed is out at once and stays out. Right after the removal the device links to
  nobody. Whatever the resolver does next, rosters, links and another identity's recovery included, the device is
  never counted as one of our own devices until that same master's recovery brings it back.\<close>

theorem revoked_stays_out:
  assumes "d \<in> set ds" and "\<forall>x \<in> set ops. \<forall>us. x = UnmarkRevoked master us \<longrightarrow> d \<notin> set us"
  shows "resolve (mark_revoked_by master ds v) d = d
    \<and> is_revoked_by (foldl resolver_step (mark_revoked_by master ds v) ops) master d
    \<and> \<not> is_own_unrevoked_device (foldl resolver_step (mark_revoked_by master ds v) ops) d local_master"
proof -
  have start: "is_revoked_by (mark_revoked_by master ds v) master d"
    using assms(1) by (simp add: is_revoked_by_def mark_revoked_by_def changed_def marks_foldl)
  have "is_revoked_by (foldl resolver_step v ops) master d" if "is_revoked_by v master d" for v
    using that assms(2) by (induction ops arbitrary: v) (simp_all add: step_keeps_mark)
  from this [OF start] have "is_revoked_by (foldl resolver_step (mark_revoked_by master ds v) ops) master d" .
  moreover from is_revoked_by_revoked [OF this]
  have "\<not> is_own_unrevoked_device (foldl resolver_step (mark_revoked_by master ds v) ops) d local_master"
    by (simp add: is_own_unrevoked_device_def)
  ultimately show ?thesis
    using assms(1) by (simp add: resolve_def mark_revoked_by_def changed_def removes_foldl)
qed

lemma revoked_stays_out_witness:
  "\<not> is_own_unrevoked_device
     (foldl resolver_step (mark_revoked_by ''me'' [''phone''] resolver_default)
        [UpdateMany ''me'' [''phone''], UnmarkRevoked ''you'' [''phone'']]) ''phone'' ''me''"
  using revoked_stays_out [of "''phone''" "[''phone'']" "[UpdateMany ''me'' [''phone''], UnmarkRevoked ''you'' [''phone'']]" "''me''"
      resolver_default "''me''"] by simp

end
