(* ===== verification/Resync.thy ===== *)
theory Resync
  imports OpSyncProps Resolver
begin

text \<open>
  Fetching back skipped ops (\<open>node/crdt_resync.rs\<close>): the marks, the kept ops and their bound, the page of a
  log, the asks for a whole log and what their answers do. Times are milliseconds. The device resolver is a
  record of \<open>Resolver\<close>; fresh nonces and the decision of the serving budget (a token bucket in floating
  point) are arguments; the stored copies of marks and kept ops are not part of the state.
\<close>

section \<open>Constants and data\<close>

definition KEPT_OPS :: nat where "KEPT_OPS = 128"

definition KEPT_BYTES :: nat where "KEPT_BYTES = 512 * 1024"

definition KEPT_OP_BYTES :: nat where "KEPT_OP_BYTES = 64 * 1024"

definition PAGE_OPS :: nat where "PAGE_OPS = 200"

definition PAGE_BYTES :: nat where "PAGE_BYTES = 512 * 1024"

definition MAX_PAGES :: u32 where "MAX_PAGES = 10000"

definition ASK_TIMEOUT :: nat where "ASK_TIMEOUT = 30000"

definition TRIED_FOR :: nat where "TRIED_FOR = 30 * 60 * 1000"

definition BUSY_SKIP :: nat where "BUSY_SKIP = 120000"

definition BUSY_RETRY :: nat where "BUSY_RETRY = 20000"

definition MAX_BUSY :: u32 where "MAX_BUSY = 6"

definition PAGE_GAP :: nat where "PAGE_GAP = 2500"

definition IN_FLIGHT :: nat where "IN_FLIGHT = 2"

definition TICK_GAP :: nat where "TICK_GAP = 1000"

record resync_mark =
  mk_due :: bool
  mk_lacks :: "string option"
  mk_lost :: bool
  mk_partial_from :: "string list"

definition mark_default :: resync_mark where
  "mark_default = \<lparr>mk_due = False, mk_lacks = None, mk_lost = False, mk_partial_from = []\<rparr>"

definition mark_partial :: "resync_mark \<Rightarrow> bool" where
  "mark_partial m \<longleftrightarrow> mk_due m \<or> mk_lacks m \<noteq> None"

record kept_op =
  kp_author :: string
  kp_hlc :: hlc_timestamp
  kp_build :: string
  kp_raw :: string

record full_page =
  fp_next :: "page_cursor option"
  fp_declined :: bool
  fp_partial :: bool
  fp_busy :: bool

definition full_page_default :: full_page where
  "full_page_default = \<lparr>fp_next = None, fp_declined = False, fp_partial = False, fp_busy = False\<rparr>"

record page_ask =
  pa_device :: string
  pa_nonce :: u64
  pa_sent_at :: instant
  pa_send_at :: "instant option"
  pa_pages :: u32
  pa_after :: "page_cursor option"
  pa_partial :: bool
  pa_busy :: u32

datatype claim = Unrelated | ClaimPage "page_cursor option" | Released | Busy

record 'm crdt_resync =
  rs_build :: string
  rs_marks :: "resync_mark hmap"
  rs_kept :: "kept_op list hmap"
  rs_asks :: "page_ask hmap"
  rs_tried :: "((string \<times> string) \<times> instant) list"
  rs_partial_seen :: "(string \<times> string) set"
  rs_next_tick :: "instant option"
  rs_op_sync :: "'m op_sync"

definition with_marks :: "string \<Rightarrow> resync_mark hmap \<Rightarrow> 'm crdt_resync" where
  "with_marks build marks =
     \<lparr>rs_build = build, rs_marks = marks, rs_kept = [], rs_asks = [], rs_tried = [], rs_partial_seen = {},
      rs_next_tick = None, rs_op_sync = op_sync_default\<rparr>"

section \<open>Cursors and pages\<close>

definition cursor_of :: "crdt_op \<Rightarrow> page_cursor" where
  "cursor_of op = \<lparr>pc_at = fst (fold_key op), pc_checkpoint = snd (fold_key op)\<rparr>"

text \<open>The derived order of a cursor: by position, then by kind.\<close>

definition cursor_key :: "page_cursor \<Rightarrow> hlc_timestamp \<times> bool" where
  "cursor_key c = (pc_at c, pc_checkpoint c)"

text \<open>\<open>prev\<close> is the cursor of the op before: the source reads it at \<open>end - 1\<close>.\<close>

fun page_loop ::
  "('a) digest_env_scheme \<Rightarrow> string list \<Rightarrow> nat \<Rightarrow> page_cursor option \<Rightarrow> crdt_op list
     \<Rightarrow> string list \<times> page_cursor option \<times> crdt_op list" where
  "page_loop E parts bytes prev [] = (parts, prev, [])"
| "page_loop E parts bytes prev (op # ops) =
     (if (PAGE_OPS \<le> length parts \<or> PAGE_BYTES \<le> bytes) \<and> prev \<noteq> Some (cursor_of op) then (parts, prev, op # ops)
      else
        (case op_to_json E op of
           Some json \<Rightarrow> page_loop E (parts @ [json]) (bytes + length json) (Some (cursor_of op)) ops
         | None \<Rightarrow> page_loop E parts bytes (Some (cursor_of op)) ops))"

definition page_start :: "crdt_op list \<Rightarrow> page_cursor option \<Rightarrow> nat" where
  "page_start log after =
     (case after of None \<Rightarrow> 0 | Some c \<Rightarrow> partition_point (\<lambda>op. cursor_key (cursor_of op) \<le> cursor_key c) log)"

definition page ::
  "('a) digest_env_scheme \<Rightarrow> crdt_op list \<Rightarrow> page_cursor option \<Rightarrow> string \<times> page_cursor option" where
  "page E log after =
     (let (parts, prev, rest) = page_loop E [] 0 None (drop (page_start log after) log)
      in (''['' @ join_comma parts @ '']'', if rest \<noteq> [] then prev else None))"

section \<open>Kept ops\<close>

definition kept_shares :: "kept_op list \<Rightarrow> (nat \<times> nat) hmap" where
  "kept_shares ks =
     foldl (\<lambda>m k. let (n, bytes) = unwrap_or (0, 0) (hm_get m (kp_author k))
                  in hm_insert (kp_author k) (n + 1, bytes + length (kp_raw k)) m) [] ks"

definition share_weight :: "bool \<Rightarrow> nat \<times> nat \<Rightarrow> nat \<times> nat" where
  "share_weight by_count x = (if by_count then (fst x, snd x) else (snd x, fst x))"

text \<open>The weights with their author are pairwise different, so the map's iteration order does not matter.\<close>

definition heaviest :: "bool \<Rightarrow> kept_op list \<Rightarrow> string option" where
  "heaviest by_count ks =
     map_option fst (max_by_key (\<lambda>x. (share_weight by_count (snd x), fst x)) (kept_shares ks))"

text \<open>Of several minimal elements the first, as \<open>Iterator::min_by\<close> returns it.\<close>

definition min_by_key :: "('b \<Rightarrow> 'k::linorder) \<Rightarrow> 'b list \<Rightarrow> 'b option" where
  "min_by_key f xs =
     (case xs of [] \<Rightarrow> None | x # ys \<Rightarrow> Some (foldl (\<lambda>best y. if f y < f best then y else best) x ys))"

definition oldest_of :: "string \<Rightarrow> kept_op list \<Rightarrow> nat option" where
  "oldest_of who ks =
     map_option fst (min_by_key (\<lambda>x. kp_hlc (snd x)) (filter (\<lambda>(_, k). kp_author k = who) (zip [0..<length ks] ks)))"

definition remove_at :: "nat \<Rightarrow> 'b list \<Rightarrow> 'b list" where
  "remove_at i xs = take i xs @ drop (Suc i) xs"

definition kept_bytes :: "kept_op list \<Rightarrow> nat" where
  "kept_bytes ks = sum_list (map (\<lambda>k. length (kp_raw k)) ks)"

lemma foldl_min_by:
  "foldl (\<lambda>best y. if f y < f best then y else best) x ys \<in> insert x (set ys)
   \<and> (\<forall>y \<in> insert x (set ys). f (foldl (\<lambda>best y. if f y < f best then y else best) x ys) \<le> (f y :: 'k::linorder))"
proof (induction ys arbitrary: x)
  case (Cons y ys)
  show ?case using Cons [of "if f y < f x then y else x"] by (auto split: if_splits intro: order_trans less_imp_le)
qed simp

lemma min_by_key_in: "min_by_key f xs = Some x \<Longrightarrow> x \<in> set xs \<and> (\<forall>y \<in> set xs. f x \<le> f y)"
  using foldl_min_by [of f] by (cases xs) (auto simp: min_by_key_def)

lemma oldest_of_less: "oldest_of who ks = Some i \<Longrightarrow> i < length ks \<and> kp_author (ks ! i) = who"
  by (auto simp: oldest_of_def in_set_zip dest!: min_by_key_in)

text \<open>The loop gives up one op a round; it ends because the list gets shorter.\<close>

function trim_kept :: "bool \<Rightarrow> kept_op list \<Rightarrow> bool \<times> kept_op list" where
  "trim_kept trimmed ks =
     (let by_count = KEPT_OPS < length ks in
      if \<not> by_count \<and> kept_bytes ks \<le> KEPT_BYTES then (trimmed, ks)
      else
        (case heaviest by_count ks of
           None \<Rightarrow> (trimmed, ks)
         | Some who \<Rightarrow>
             (case oldest_of who ks of None \<Rightarrow> (trimmed, ks) | Some oldest \<Rightarrow> trim_kept True (remove_at oldest ks))))"
  by pat_completeness auto
termination
  by (relation "measure (\<lambda>(_, ks). length ks)") (auto simp: remove_at_def dest!: oldest_of_less)

declare trim_kept.simps [simp del]

text \<open>The kept ops an older build skipped that this build reads now, and what stays kept.\<close>

definition read_kept_step ::
  "('a) env_scheme \<Rightarrow> string \<Rightarrow> crdt_op list \<times> kept_op list \<Rightarrow> kept_op \<Rightarrow> crdt_op list \<times> kept_op list" where
  "read_kept_step E build x k =
     (let (ops, ks) = x in
      if kp_build k = build then (ops, ks @ [k])
      else
        (case read_op E (kp_raw k) of
           ReadOp op \<Rightarrow> (ops @ [op], ks)
         | ReadUnread _ \<Rightarrow> (ops, ks @ [k\<lparr>kp_build := build\<rparr>])
         | ReadJunk \<Rightarrow> (ops, ks)))"

definition read_kept_again :: "('a) env_scheme \<Rightarrow> string \<Rightarrow> kept_op list \<Rightarrow> crdt_op list \<times> kept_op list" where
  "read_kept_again E build ks = foldl (read_kept_step E build) ([], []) ks"

text \<open>What loading does to one server: its mark, its kept ops and its replica, which folds in what is read again.\<close>

definition load_server ::
  "('a) fold_env_scheme \<Rightarrow> u64 \<Rightarrow> instant \<Rightarrow> string \<Rightarrow> bool \<Rightarrow> resync_mark \<Rightarrow> kept_op list \<Rightarrow> replica
     \<Rightarrow> resync_mark \<times> kept_op list \<times> replica" where
  "load_server E now t build sweep stored stored_kept r =
     (let older = is_some_and (\<lambda>b. b \<noteq> build) (mk_lacks stored);
          m = (if older then stored\<lparr>mk_due := mk_due stored \<or> mk_lost stored \<or> stored_kept = [], mk_lost := False\<rparr> else stored);
          (ops, ks) = read_kept_again E build stored_kept;
          r = (if ops \<noteq> [] then snd (ingest_remote E now t ops r) else r);
          m = (if older \<or> ks \<noteq> stored_kept
               then m\<lparr>mk_lacks := if ks \<noteq> [] \<or> mk_lost m then Some build else None\<rparr> else m);
          m = m\<lparr>mk_due := mk_due m \<or> sweep\<rparr>
      in (m, ks, r))"

definition vouched :: "('a) fold_env_scheme \<Rightarrow> unread_op \<Rightarrow> server_state \<Rightarrow> bool" where
  "vouched E u s \<longleftrightarrow> unread_server_id u = server_id s \<and> is_member E s (unread_author u)"

section \<open>The book\<close>

definition kept_refs :: "kept_op list hmap \<Rightarrow> string \<Rightarrow> kept_ref list" where
  "kept_refs m sid =
     map (\<lambda>k. \<lparr>kr_author = kp_author k, kr_hlc = kp_hlc k, kr_raw = kp_raw k\<rparr>) (unwrap_or [] (hm_get m sid))"

text \<open>Forgetting a default mark or an empty list of kept ops; the write to the store follows it.\<close>

definition persist :: "string \<Rightarrow> 'm crdt_resync \<Rightarrow> 'm crdt_resync" where
  "persist sid s =
     (if opt_filter (\<lambda>m. m \<noteq> mark_default) (hm_get (rs_marks s) sid) = None
      then s\<lparr>rs_marks := hm_remove sid (rs_marks s)\<rparr> else s)"

definition persist_kept :: "string \<Rightarrow> 'm crdt_resync \<Rightarrow> 'm crdt_resync" where
  "persist_kept sid s =
     (if opt_filter (\<lambda>ks. ks \<noteq> []) (hm_get (rs_kept s) sid) = None
      then s\<lparr>rs_kept := hm_remove sid (rs_kept s)\<rparr> else s)"

definition keep_one :: "string \<Rightarrow> bool \<times> bool \<times> kept_op list \<Rightarrow> unread_op \<Rightarrow> bool \<times> bool \<times> kept_op list" where
  "keep_one build x u =
     (let (changed, lost, ks) = x in
      if list_ex (\<lambda>k. kp_author k = unread_author u \<and> kp_hlc k = unread_hlc u) ks then x
      else if KEPT_OP_BYTES < length (unread_raw u) then (changed, True, ks)
      else
        (let (trimmed, ks) = trim_kept False
               (ks @ [\<lparr>kp_author = unread_author u, kp_hlc = unread_hlc u, kp_build = build, kp_raw = unread_raw u\<rparr>])
         in (True, lost \<or> trimmed, ks)))"

definition note_skipped :: "string \<Rightarrow> unread_op list \<Rightarrow> 'm crdt_resync \<Rightarrow> 'm crdt_resync" where
  "note_skipped sid unread s =
     (if unread = [] then s
      else
        (let (changed, lost, ks) = foldl (keep_one (rs_build s)) (False, False, unwrap_or [] (hm_get (rs_kept s) sid)) unread;
             before = unwrap_or mark_default (hm_get (rs_marks s) sid);
             m = before\<lparr>mk_lacks := Some (rs_build s), mk_lost := mk_lost before \<or> lost\<rparr>;
             s = s\<lparr>rs_kept := hm_insert sid ks (rs_kept s), rs_marks := hm_insert sid m (rs_marks s)\<rparr>;
             s = (if m \<noteq> before then persist sid s else s)
         in if changed then persist_kept sid s else s))"

definition forget :: "string \<Rightarrow> 'm crdt_resync \<Rightarrow> 'm crdt_resync" where
  "forget sid s =
     (let had_mark = hm_has (rs_marks s) sid;
          had_kept = hm_has (rs_kept s) sid;
          s = s\<lparr>rs_asks := hm_remove sid (rs_asks s), rs_tried := filter (\<lambda>((sv, _), _). sv \<noteq> sid) (rs_tried s),
                rs_partial_seen := Set.filter (\<lambda>(sv, _). sv \<noteq> sid) (rs_partial_seen s), rs_marks := hm_remove sid (rs_marks s)\<rparr>;
          s = (if had_mark then persist sid s else s);
          s = s\<lparr>rs_kept := hm_remove sid (rs_kept s)\<rparr>
      in if had_kept then persist_kept sid s else s)"

definition release :: "string \<Rightarrow> instant \<Rightarrow> nat \<Rightarrow> 'm crdt_resync \<Rightarrow> 'm crdt_resync" where
  "release sid now skip s =
     (case hm_get (rs_asks s) sid of
        None \<Rightarrow> s
      | Some a \<Rightarrow> s\<lparr>rs_asks := hm_remove sid (rs_asks s), rs_tried := AList.update (sid, pa_device a) (now + skip) (rs_tried s)\<rparr>)"

definition finish :: "resolver \<Rightarrow> string \<Rightarrow> string \<Rightarrow> bool \<Rightarrow> string \<Rightarrow> instant \<Rightarrow> 'm crdt_resync \<Rightarrow> 'm crdt_resync" where
  "finish v sid device partial us now s =
     (case hm_get (rs_marks s) sid of
        None \<Rightarrow> s
      | Some m \<Rightarrow>
          (let master = resolve v device;
               m = (if partial \<and> \<not> same_identity v master us \<and> master \<notin> set (mk_partial_from m)
                    then m\<lparr>mk_partial_from := mk_partial_from m @ [master]\<rparr> else m)
           in if partial \<and> length (mk_partial_from m) < 2
              then persist sid (s\<lparr>rs_marks := hm_insert sid m (rs_marks s),
                                  rs_tried := AList.update (sid, device) (now + TRIED_FOR) (rs_tried s)\<rparr>)
              else persist sid (s\<lparr>rs_marks := hm_insert sid (m\<lparr>mk_due := False, mk_partial_from := []\<rparr>) (rs_marks s)\<rparr>)))"

definition request :: "string \<Rightarrow> string \<Rightarrow> u64 \<Rightarrow> page_cursor option \<Rightarrow> sync_request" where
  "request sid vector nonce after =
     \<lparr>rq_server_id = sid, rq_vector_json = vector, rq_mls_epoch = None, rq_nonce = Some nonce,
      rq_full = Some \<lparr>fa_after = after\<rparr>, rq_digest = None, rq_dg = Some DG\<rparr>"

section \<open>Serving\<close>

text \<open>\<open>granted\<close> is what the serving budget answered for this asker.\<close>

definition serve ::
  "('a) digest_env_scheme \<Rightarrow> bool \<Rightarrow> replica \<Rightarrow> full_ask \<Rightarrow> 'm crdt_resync \<Rightarrow> string \<times> full_page" where
  "serve E granted r ask s =
     (if anchor (st r) = Legacy \<or> is_deleted (st r) then (''[]'', full_page_default\<lparr>fp_declined := True\<rparr>)
      else if \<not> granted then (''[]'', full_page_default\<lparr>fp_busy := True\<rparr>)
      else
        (let (ops_json, next) = page E (op_log r) (fa_after ask)
         in (ops_json, full_page_default\<lparr>fp_next := next,
              fp_partial := is_some_and mark_partial (hm_get (rs_marks s) (server_id (st r)))\<rparr>)))"

definition answer_digest ::
  "('a) digest_env_scheme \<Rightarrow> (string \<times> hlc_timestamp \<Rightarrow> u64) \<Rightarrow> replica \<Rightarrow> memo \<Rightarrow> op_digest \<Rightarrow> 'm crdt_resync
     \<Rightarrow> (string \<times> digest_reply) option \<times> memo" where
  "answer_digest E slot r m d s =
     (let (res, m) = served E slot r (kept_refs (rs_kept s) (server_id (st r))) m d
      in (map_option (\<lambda>(items, reply). (items_json E items, reply)) res, m))"

section \<open>Asking\<close>

definition sync_ask ::
  "('a) op_sync_env_scheme \<Rightarrow> (string \<times> hlc_timestamp \<Rightarrow> u64) \<Rightarrow> bytes \<Rightarrow> bytes option \<Rightarrow> u128 \<Rightarrow> instant
     \<Rightarrow> replica \<Rightarrow> memo \<Rightarrow> string \<Rightarrow> u64 option \<Rightarrow> u64 option \<Rightarrow> 'm crdt_resync \<Rightarrow> sync_request \<times> 'm crdt_resync \<times> memo" where
  "sync_ask E slot idb rnd nanos now r m device nonce mls_epoch s =
     (let (msg, book, m) = op_ask E slot idb rnd nanos now r (kept_refs (rs_kept s) (server_id (st r))) m device nonce mls_epoch
            (rs_op_sync s)
      in (msg, s\<lparr>rs_op_sync := book\<rparr>, m))"

definition digest_answered ::
  "('a) op_sync_env_scheme \<Rightarrow> (string \<times> hlc_timestamp \<Rightarrow> u64) \<Rightarrow> instant \<Rightarrow> replica \<Rightarrow> memo \<Rightarrow> string \<Rightarrow> digest_reply
     \<Rightarrow> u64 option \<Rightarrow> 'm crdt_resync \<Rightarrow> step \<times> 'm crdt_resync \<times> memo" where
  "digest_answered E slot now r m device reply epoch_now s =
     (let (stp, book, m) = answered E slot now r (kept_refs (rs_kept s) (server_id (st r))) m device reply epoch_now (rs_op_sync s)
      in (stp, s\<lparr>rs_op_sync := book\<rparr>, m))"

definition spread :: "('a) crypto_scheme \<Rightarrow> string \<Rightarrow> string \<Rightarrow> bytes" where
  "spread C asker responder =
     take 8 (sha256 C (''hollow-resync-spread'' @ [CHR 0x00] @ asker @ [CHR 0x00] @ responder))"

definition pick_rank :: "('a) fold_env_scheme \<Rightarrow> resolver \<Rightarrow> replica \<Rightarrow> string \<Rightarrow> nat" where
  "pick_rank E v r d =
     (let master = resolve v d
      in if current_owner (st r) = Some master then 0 else if get_role E (st r) master = Admin then 1 else 2)"

definition pick_may ::
  "('a) fold_env_scheme \<Rightarrow> resolver \<Rightarrow> string \<Rightarrow> replica \<Rightarrow> string \<Rightarrow> instant \<Rightarrow> 'm crdt_resync \<Rightarrow> string \<Rightarrow> bool" where
  "pick_may E v sid r our_device now s d \<longleftrightarrow>
     d \<noteq> our_device \<and> \<not> is_bare_master v d \<and> is_member E (st r) d
     \<and> is_none_or (\<lambda>until. until \<le> now) (map_of (rs_tried s) (sid, d))
     \<and> resolve v d \<notin> set (unwrap_or [] (map_option mk_partial_from (hm_get (rs_marks s) sid)))"

definition pick ::
  "('a) fold_env_scheme \<Rightarrow> resolver \<Rightarrow> string \<Rightarrow> replica \<Rightarrow> string list \<Rightarrow> string \<Rightarrow> instant \<Rightarrow> 'm crdt_resync
     \<Rightarrow> string option" where
  "pick E v sid r peers our_device now s =
     min_by_key (\<lambda>d. ((sid, d) \<in> rs_partial_seen s, pick_rank E v r d, spread E our_device d))
       (filter (pick_may E v sid r our_device now s) peers)"

text \<open>What a tick does to one open ask: the message it sends, whether it expired, and the ask.\<close>

definition tick_page_ask ::
  "instant \<Rightarrow> (string \<Rightarrow> bool) \<Rightarrow> string \<Rightarrow> page_ask \<Rightarrow> (string \<times> sync_request) list \<times> bool \<times> page_ask" where
  "tick_page_ask now queued sid a =
     (case pa_send_at a of
        Some at \<Rightarrow>
          if at \<le> now
          then ([(pa_device a, request sid ''{}'' (pa_nonce a) (pa_after a))], False, a\<lparr>pa_send_at := None, pa_sent_at := now\<rparr>)
          else ([], False, a)
      | None \<Rightarrow>
          if queued (pa_device a) then ([], False, a\<lparr>pa_sent_at := now\<rparr>)
          else if ASK_TIMEOUT \<le> now - pa_sent_at a then ([], True, a) else ([], False, a))"

text \<open>One server of the ask loop. \<open>nonces\<close> gives the nonce of a server's ask.\<close>

definition ask_due ::
  "('a) op_sync_env_scheme \<Rightarrow> resolver \<Rightarrow> instant \<Rightarrow> (string \<Rightarrow> u64) \<Rightarrow> replica hmap \<Rightarrow> string list hmap \<Rightarrow> string
     \<Rightarrow> string \<Rightarrow> 'm crdt_resync \<Rightarrow> (string \<times> sync_request) list \<times> page_ask hmap \<Rightarrow> string
     \<Rightarrow> (string \<times> sync_request) list \<times> page_ask hmap" where
  "ask_due E v now nonces states room_peers us our_device s x sid =
     (let (out, asks) = x in
      if IN_FLIGHT \<le> length (rs_asks s) + length asks \<or> hm_has (rs_asks s) sid then x
      else
        (case hm_get states sid of
           None \<Rightarrow> x
         | Some r \<Rightarrow>
             if anchor (st r) = Legacy \<or> is_deleted (st r) \<or> \<not> is_member E (st r) us then x
             else
               (case Option.bind (hm_get room_peers sid) (\<lambda>peers. pick E v sid r peers our_device now s) of
                  None \<Rightarrow> x
                | Some device \<Rightarrow>
                    (let vector = unwrap_or [] (vector_json E (from_server_state r)); nonce = nonces sid
                     in (out @ [(device, request sid vector nonce None)],
                         asks @ [(sid, \<lparr>pa_device = device, pa_nonce = nonce, pa_sent_at = now, pa_send_at = None, pa_pages = 0,
                                        pa_after = None, pa_partial = False, pa_busy = 0\<rparr>)])))))"

definition gone_servers :: "replica hmap \<Rightarrow> 'm crdt_resync \<Rightarrow> string list" where
  "gone_servers states s =
     filter (\<lambda>sid. is_none_or (\<lambda>r. is_deleted (st r)) (hm_get states sid)) (map fst (rs_marks s) @ map fst (rs_kept s))"

definition resync_tick ::
  "('a) op_sync_env_scheme \<Rightarrow> resolver \<Rightarrow> (string \<Rightarrow> u64) \<Rightarrow> instant \<Rightarrow> replica hmap \<Rightarrow> string list hmap \<Rightarrow> string
     \<Rightarrow> string \<Rightarrow> (string \<Rightarrow> bool) \<Rightarrow> 'm crdt_resync \<Rightarrow> (string \<times> sync_request) list \<times> 'm crdt_resync" where
  "resync_tick E v nonces now states room_peers us our_device queued s =
     (if rs_marks s = [] \<or> is_some_and (\<lambda>t. now < t) (rs_next_tick s) then ([], s)
      else
        (let s = s\<lparr>rs_next_tick := Some (now + TICK_GAP)\<rparr>;
             s = foldl (\<lambda>s sid. forget sid s) s (gone_servers states s);
             each = map (\<lambda>(sid, a). (sid, tick_page_ask now queued sid a)) (rs_asks s);
             out = concat (map (\<lambda>(_, o1, _). o1) each);
             expired = map fst (filter (\<lambda>(_, _, e, _). e) each);
             s = s\<lparr>rs_asks := map (\<lambda>(sid, _, _, a). (sid, a)) each\<rparr>;
             s = foldl (\<lambda>s sid. release sid now TRIED_FOR s) s expired;
             s = s\<lparr>rs_tried := filter (\<lambda>(_, until). now < until) (rs_tried s)\<rparr>;
             due = sort (map fst (filter (\<lambda>(_, m). mk_due m) (rs_marks s)));
             (out, asks) = foldl (ask_due E v now nonces states room_peers us our_device s) (out, []) due
         in (out, s\<lparr>rs_asks := foldl (\<lambda>m (sid, a). hm_insert sid a m) (rs_asks s) asks\<rparr>)))"

section \<open>Answers\<close>

text \<open>\<open>nonce'\<close> is a fresh nonce.\<close>

definition claim_answer ::
  "u64 \<Rightarrow> string \<Rightarrow> string \<Rightarrow> u64 option \<Rightarrow> full_page option \<Rightarrow> instant \<Rightarrow> 'm crdt_resync \<Rightarrow> claim \<times> 'm crdt_resync" where
  "claim_answer nonce' sid sender nonce pg now s =
     (case hm_get (rs_asks s) sid of
        None \<Rightarrow> (Unrelated, s)
      | Some a \<Rightarrow>
          if pa_device a \<noteq> sender \<or> nonce \<noteq> Some (pa_nonce a) then (Unrelated, s)
          else
            (case pg of
               Some p \<Rightarrow>
                 if fp_busy p
                 then (if 0 < pa_pages a \<and> pa_busy a < MAX_BUSY
                       then (Busy, s\<lparr>rs_asks := hm_insert sid (a\<lparr>pa_busy := pa_busy a + 1, pa_nonce := nonce',
                                        pa_send_at := Some (now + BUSY_RETRY)\<rparr>) (rs_asks s)\<rparr>)
                       else (Busy, release sid now BUSY_SKIP s))
                 else if fp_declined p then (Released, release sid now TRIED_FOR s)
                 else
                   (ClaimPage (fp_next p),
                    s\<lparr>rs_asks := hm_insert sid (a\<lparr>pa_partial := pa_partial a \<or> fp_partial p, pa_busy := 0\<rparr>) (rs_asks s),
                      rs_partial_seen := (if fp_partial p then insert (sid, sender) (rs_partial_seen s) else rs_partial_seen s)\<rparr>)
             | None \<Rightarrow> (Released, release sid now TRIED_FOR s)))"

definition paged ::
  "('a) fold_env_scheme \<Rightarrow> resolver \<Rightarrow> u64 \<Rightarrow> string \<Rightarrow> bool \<Rightarrow> page_cursor option \<Rightarrow> replica hmap \<Rightarrow> string \<Rightarrow> instant
     \<Rightarrow> 'm crdt_resync \<Rightarrow> (string \<times> sync_request) option \<times> 'm crdt_resync" where
  "paged E v nonce' sid ok next states us now s =
     (case hm_get (rs_asks s) sid of
        None \<Rightarrow> (None, s)
      | Some a \<Rightarrow>
          if \<not> is_some_and (\<lambda>r. is_member E (st r) us \<and> \<not> is_deleted (st r)) (hm_get states sid) then (None, forget sid s)
          else if \<not> ok then (None, release sid now TRIED_FOR s)
          else
            (case next of
               None \<Rightarrow> (None, finish v sid (pa_device a) (pa_partial a) us now (s\<lparr>rs_asks := hm_remove sid (rs_asks s)\<rparr>))
             | Some cursor \<Rightarrow>
                 if is_some_and (\<lambda>after. cursor_key cursor \<le> cursor_key after) (pa_after a) \<or> MAX_PAGES \<le> pa_pages a + 1
                 then (None, release sid now TRIED_FOR s)
                 else
                   (let a = a\<lparr>pa_pages := pa_pages a + 1, pa_after := Some cursor, pa_nonce := nonce'\<rparr>;
                        at = pa_sent_at a + PAGE_GAP
                    in if now < at then (None, s\<lparr>rs_asks := hm_insert sid (a\<lparr>pa_send_at := Some at\<rparr>) (rs_asks s)\<rparr>)
                       else (Some (pa_device a, request sid ''{}'' nonce' (Some cursor)),
                             s\<lparr>rs_asks := hm_insert sid (a\<lparr>pa_sent_at := now\<rparr>) (rs_asks s)\<rparr>))))"

record page_ingest =
  pi_ok :: bool
  pi_admitted :: "crdt_op list"
  pi_rebuilt :: bool
  pi_unread :: "unread_op list"
  pi_was_member :: bool

definition page_ingest_default :: page_ingest where
  "page_ingest_default = \<lparr>pi_ok = False, pi_admitted = [], pi_rebuilt = False, pi_unread = [], pi_was_member = False\<rparr>"

definition ingest_page ::
  "('a) fold_env_scheme \<Rightarrow> u64 \<Rightarrow> instant \<Rightarrow> replica hmap \<Rightarrow> string \<Rightarrow> string \<Rightarrow> string \<Rightarrow> page_ingest \<times> replica hmap" where
  "ingest_page E now t states sid ops_json us =
     (case hm_get states sid of
        None \<Rightarrow> (page_ingest_default, states)
      | Some r \<Rightarrow>
          (let parsed = parse_ops_tolerant E ops_json in
           if malformed parsed then (page_ingest_default, hm_insert sid r (hm_remove sid states))
           else
             (let was_member = is_member E (st r) us;
                  (out, r) = ingest_remote E now t (parsed_ops parsed) r;
                  unread = filter (\<lambda>u. vouched E u (st r)) (parsed_unread parsed)
              in (\<lparr>pi_ok = True, pi_admitted = in_admitted out, pi_rebuilt = in_rebuilt out, pi_unread = unread,
                   pi_was_member = was_member\<rparr>, hm_insert sid r (hm_remove sid states)))))"

definition read_live_op ::
  "('a) fold_env_scheme \<Rightarrow> replica option \<Rightarrow> string \<Rightarrow> string \<Rightarrow> 'm crdt_resync \<Rightarrow> crdt_op option \<times> 'm crdt_resync" where
  "read_live_op E r sid op_json s =
     (case read_op E op_json of
        ReadOp op \<Rightarrow> (Some op, s)
      | ReadUnread u \<Rightarrow> (None, if is_some_and (\<lambda>r. vouched E u (st r)) r then note_skipped sid [u] s else s)
      | ReadJunk \<Rightarrow> (None, s))"

end
