(* ===== verification/ResyncProps.thy ===== *)
theory ResyncProps
  imports Resync
begin

text \<open>
  Fetching a whole log: its pages are exactly the log, and folding them in one by one rebuilds the
  responder's replica.
\<close>

section \<open>Pages\<close>

lemma cursor_key_of [simp]: "cursor_key (cursor_of op) = fold_key op"
  by (simp add: cursor_key_def cursor_of_def)

lemma cursor_of_eq: "cursor_of a = cursor_of b \<longleftrightarrow> fold_key a = fold_key b"
  by (auto simp: cursor_of_def prod_eq_iff)

lemma map_filter_append: "List.map_filter f (xs @ ys) = List.map_filter f xs @ List.map_filter f ys"
  by (simp add: map_filter_def)

lemma page_loop_split:
  assumes "page_loop E parts bytes prev ops = (parts', prev', rest)"
  shows "\<exists>took. ops = took @ rest \<and> parts' = parts @ List.map_filter (op_to_json E) took
    \<and> prev' = (if took = [] then prev else Some (cursor_of (last took)))
    \<and> (rest \<noteq> [] \<longrightarrow> prev' \<noteq> Some (cursor_of (hd rest)))"
  using assms
proof (induction E parts bytes prev ops rule: page_loop.induct)
  case (2 E parts bytes prev op ops)
  show ?case
  proof (cases "(PAGE_OPS \<le> length parts \<or> PAGE_BYTES \<le> bytes) \<and> prev \<noteq> Some (cursor_of op)")
    case True
    with "2.prems" show ?thesis by (auto simp: map_filter_simps)
  next
    case False
    have "\<exists>took. ops = took @ rest \<and> parts' = (parts @ List.map_filter (op_to_json E) [op]) @ List.map_filter (op_to_json E) took
        \<and> prev' = (if took = [] then Some (cursor_of op) else Some (cursor_of (last took)))
        \<and> (rest \<noteq> [] \<longrightarrow> prev' \<noteq> Some (cursor_of (hd rest)))"
      using "2.IH"(1,2) [OF False] "2.prems" False
      by (cases "op_to_json E op") (auto simp: map_filter_simps)
    then obtain took where t: "ops = took @ rest" "parts' = parts @ List.map_filter (op_to_json E) (op # took)"
      "prev' = (if took = [] then Some (cursor_of op) else Some (cursor_of (last took)))"
      "rest \<noteq> [] \<longrightarrow> prev' \<noteq> Some (cursor_of (hd rest))"
      by (auto simp: map_filter_simps split: option.splits)
    then show ?thesis by (intro exI [of _ "op # took"]) auto
  qed
qed (simp add: map_filter_simps)

lemma page_loop_bound:
  assumes "page_loop E parts bytes prev ops = (parts', prev', rest)"
    and "strict_log ops" and "length parts \<le> PAGE_OPS" and "\<forall>op \<in> set ops. prev \<noteq> Some (cursor_of op)"
  shows "length parts' \<le> PAGE_OPS"
  using assms
proof (induction E parts bytes prev ops rule: page_loop.induct)
  case (2 E parts bytes prev op ops)
  have later: "strict_log ops" "\<forall>op' \<in> set ops. Some (cursor_of op) \<noteq> Some (cursor_of op')"
    using "2.prems"(2) by (auto simp: strict_log_def cursor_of_eq)
  show ?case
  proof (cases "(PAGE_OPS \<le> length parts \<or> PAGE_BYTES \<le> bytes) \<and> prev \<noteq> Some (cursor_of op)")
    case True
    with "2.prems" show ?thesis by auto
  next
    case False
    then have "length parts < PAGE_OPS" using "2.prems"(4) by auto
    then show ?thesis using "2.IH"(1,2) [OF False] "2.prems"(1) False later by (cases "op_to_json E op") auto
  qed
qed simp

lemma page_loop_moves:
  assumes "page_loop E [] 0 None ops = (parts, prev, rest)" and "ops \<noteq> []"
  shows "length rest < length ops"
proof -
  obtain op os where ops: "ops = op # os" using assms(2) by (cases ops) auto
  obtain ps b where "page_loop E ps b (Some (cursor_of op)) os = (parts, prev, rest)"
    using assms(1) by (cases "op_to_json E op") (auto simp: ops PAGE_OPS_def PAGE_BYTES_def)
  from page_loop_split [OF this] show ?thesis by (auto simp: ops)
qed

text \<open>The pages an asker gets: each ask names the cursor the page before ended with.\<close>

fun page_run :: "('a) digest_env_scheme \<Rightarrow> nat \<Rightarrow> crdt_op list \<Rightarrow> page_cursor option \<Rightarrow> string list option" where
  "page_run E 0 log after = None"
| "page_run E (Suc n) log after =
     (case page E log after of
        (json, None) \<Rightarrow> Some [json]
      | (json, Some c) \<Rightarrow> map_option (Cons json) (page_run E n log (Some c)))"

definition page_text :: "('a) digest_env_scheme \<Rightarrow> crdt_op list \<Rightarrow> string" where
  "page_text E ops = ''['' @ join_comma (List.map_filter (op_to_json E) ops) @ '']''"

lemma page_start_at:
  assumes "strict_log (front @ rest)" and "front \<noteq> []"
  shows "page_start (front @ rest) (Some (cursor_of (last front))) = length front"
proof -
  have "fold_key op \<le> fold_key (last front)" if "op \<in> set front" for op
    using assms that by (induction front) (auto simp: strict_log_def intro: less_imp_le split: if_splits)
  moreover have "fold_key (last front) < fold_key op" if "op \<in> set rest" for op
    using assms that by (auto simp: strict_log_def sorted_wrt_append)
  ultimately have "takeWhile (\<lambda>op. fold_key op \<le> fold_key (last front)) (front @ rest) = front"
    by (cases rest) (auto simp: takeWhile_append not_le)
  then show ?thesis by (simp add: page_start_def partition_point_def)
qed

lemma page_step:
  assumes "strict_log (front @ rest)" and "page E (front @ rest) (if front = [] then None else Some (cursor_of (last front))) = (json, nxt)"
  shows "\<exists>took rest'. rest = took @ rest' \<and> json = page_text E took \<and> length (List.map_filter (op_to_json E) took) \<le> PAGE_OPS
    \<and> nxt = (if rest' = [] then None else Some (cursor_of (last (front @ took)))) \<and> (rest \<noteq> [] \<longrightarrow> took \<noteq> [])"
proof -
  obtain parts prev rest' where loop: "page_loop E [] 0 None rest = (parts, prev, rest')" by (metis prod_cases3)
  have start: "drop (page_start (front @ rest) (if front = [] then None else Some (cursor_of (last front)))) (front @ rest) = rest"
    using page_start_at [OF assms(1)] by (simp add: page_start_def)
  obtain took where t: "rest = took @ rest'" "parts = List.map_filter (op_to_json E) took"
    "prev = (if took = [] then None else Some (cursor_of (last took)))"
    using page_loop_split [OF loop] by auto
  have ne: "rest \<noteq> [] \<longrightarrow> took \<noteq> []" using page_loop_moves [OF loop] t(1) by auto
  have "strict_log rest" using assms(1) by (simp add: strict_log_def sorted_wrt_append)
  then have "length (List.map_filter (op_to_json E) took) \<le> PAGE_OPS"
    using page_loop_bound [OF loop] unfolding t(2) by simp
  moreover have "json = page_text E took \<and> nxt = (if rest' = [] then None else prev)"
    using assms(2) unfolding page_def start loop by (auto simp: page_text_def t(2))
  moreover have "(if rest' = [] then None else prev) = (if rest' = [] then None else Some (cursor_of (last (front @ took))))"
    using t(1,3) ne by (cases "rest' = []") simp_all
  ultimately show ?thesis using t(1) ne by metis
qed

lemma page_run_splits:
  assumes "strict_log (front @ rest)" and "length rest < n"
  shows "\<exists>batches. page_run E n (front @ rest) (if front = [] then None else Some (cursor_of (last front))) = Some (map (page_text E) batches)
    \<and> concat batches = rest \<and> (\<forall>b \<in> set batches. length (List.map_filter (op_to_json E) b) \<le> PAGE_OPS)"
  using assms
proof (induction n arbitrary: front rest)
  case (Suc n)
  obtain json nxt where pg: "page E (front @ rest) (if front = [] then None else Some (cursor_of (last front))) = (json, nxt)"
    by fastforce
  obtain took rest' where t: "rest = took @ rest'" "json = page_text E took" "length (List.map_filter (op_to_json E) took) \<le> PAGE_OPS"
    "nxt = (if rest' = [] then None else Some (cursor_of (last (front @ took))))" "rest \<noteq> [] \<longrightarrow> took \<noteq> []"
    using page_step [OF Suc.prems(1) pg] by blast
  show ?case
  proof (cases "rest' = []")
    case True
    have "page_run E (Suc n) (front @ rest) (if front = [] then None else Some (cursor_of (last front))) = Some (map (page_text E) [took])"
      unfolding page_run.simps pg prod.case t(4) using True t(2) by simp
    with t(1,3) True show ?thesis by (intro exI [of _ "[took]"]) simp
  next
    case False
    have "took \<noteq> []" using t(1,5) False by auto
    then have "length rest' < n" using Suc.prems(2) t(1) by (cases took) auto
    then have "\<exists>batches. page_run E n ((front @ took) @ rest') (if front @ took = [] then None else Some (cursor_of (last (front @ took))))
          = Some (map (page_text E) batches)
        \<and> concat batches = rest' \<and> (\<forall>b \<in> set batches. length (List.map_filter (op_to_json E) b) \<le> PAGE_OPS)"
      using Suc.prems(1) t(1) by (intro Suc.IH) simp_all
    then obtain batches where b: "page_run E n (front @ took @ rest') (Some (cursor_of (last (front @ took)))) = Some (map (page_text E) batches)"
      "concat batches = rest'" "\<forall>b \<in> set batches. length (List.map_filter (op_to_json E) b) \<le> PAGE_OPS"
      using \<open>took \<noteq> []\<close> by auto
    have "page_run E (Suc n) (front @ rest) (if front = [] then None else Some (cursor_of (last front))) = Some (map (page_text E) (took # batches))"
      unfolding page_run.simps pg prod.case t(4) using False b(1) t(1,2) by simp
    with b(2,3) t(1,3) show ?thesis by (intro exI [of _ "took # batches"]) simp
  qed
qed simp

section \<open>Folding a log in page by page\<close>

text \<open>A log that replays: each op is allowed when its turn comes, and before a checkpoint stands at most the founding
  op of a self-certifying server.\<close>

fun replays :: "('a) fold_env_scheme \<Rightarrow> server_state \<Rightarrow> crdt_op list \<Rightarrow> crdt_op list \<Rightarrow> bool" where
  "replays E s front [] = True"
| "replays E s front (op # ops) =
     (op_allowed E s op
      \<and> (is_checkpoint (op_payload op) \<longrightarrow> list_all (\<lambda>o1. is_founding (op_payload o1) \<and> is_genesis_id (server_id s)) front)
      \<and> replays E (apply_payload E op s) (front @ [op]) ops)"

lemma replays_append:
  "replays E s front (xs @ ys) \<longleftrightarrow> replays E s front xs \<and> replays E (foldl (\<lambda>s op. apply_payload E op s) s xs) (front @ xs) ys"
  by (induction xs arbitrary: s front) auto

text \<open>A replica between two pages: nothing held, the dedup keys those of the log.\<close>

definition at_rest :: "replica \<Rightarrow> bool" where
  "at_rest r \<longleftrightarrow> anchor (st r) \<noteq> Legacy \<and> held r = [] \<and> op_log_dedup r = log_keys (op_log r)"

lemma admit_at_tail:
  assumes "at_rest r" and "strict_log (op_log r @ [op])" and "replays E (st r) (op_log r) [op]"
  shows "op_log (admit E op r) = op_log r @ [op]" and "at_rest (admit E op r)"
proof -
  have srt: "sorted (map fold_key (op_log r))" "\<forall>o1 \<in> set (op_log r). fold_key o1 < fold_key op"
    using assms(2) by (simp_all add: strict_log_append strict_log_sorted)
  have allowed: "op_allowed E (st r) op" using assms(3) by simp
  have anch: "anchor (apply_payload E op (st r)) \<noteq> Legacy"
    using assms(1) apply_checkpoint_hlc [OF allowed] by (auto simp: at_rest_def anchor_Legacy)
  show log: "op_log (admit E op r) = op_log r @ [op]"
  proof (cases "is_checkpoint (op_payload op)")
    case True
    then obtain json covers where cp: "op_payload op = ServerCheckpoint json covers" by (auto simp: is_checkpoint_iff)
    have "filter (\<lambda>o1. is_founding (op_payload o1) \<and> is_genesis_id (server_id (st r))) (op_log r) = op_log r"
      using assms(3) True by (simp add: list_all_iff filter_id_conv)
    with log_admit_checkpoint [OF srt cp allowed] show ?thesis by simp
  next
    case False
    from log_admit_plain [OF srt False, of E] obtain n where "op_log (admit E op r) = drop n (op_log r @ [op])" "n = 0"
      using assms(1) unfolding at_rest_def by metis
    then show ?thesis by simp
  qed
  have "op_log_dedup (admit E op r) = log_keys (op_log (admit E op r))"
    using log anch assms(1)
    by (auto simp: admit_def log_admitted_def Let_def prune_before_checkpoint_def at_rest_def log_keys_def split: option.splits)
  with assms(1) anch show "at_rest (admit E op r)"
    by (simp add: at_rest_def admit_def)
qed

lemma tail_replays:
  assumes "at_rest r" and "strict_log (op_log r @ ops)" and "replays E (st r) (op_log r) ops"
  shows "\<exists>en' out'. foldl (tail_step E t) (en, out, r) ops = (en', out', foldl (\<lambda>r op. admit E op r) r ops)
    \<and> at_rest (foldl (\<lambda>r op. admit E op r) r ops) \<and> op_log (foldl (\<lambda>r op. admit E op r) r ops) = op_log r @ ops
    \<and> st (foldl (\<lambda>r op. admit E op r) r ops) = foldl (\<lambda>s op. apply_payload E op s) (st r) ops"
  using assms
proof (induction ops arbitrary: r en out)
  case (Cons op ops)
  have one: "strict_log (op_log r @ [op])" "replays E (st r) (op_log r) [op]" "op_allowed E (st r) op"
    using Cons.prems(2,3) by (auto simp: strict_log_def sorted_wrt_append)
  note a = admit_at_tail [OF Cons.prems(1) one(1,2)]
  show ?case
    using Cons.IH [OF a(2), of "en \<or> enables_others (op_payload op)" "out\<lparr>in_admitted := in_admitted out @ [op]\<rparr>"] Cons.prems(2,3)
    by (simp add: tail_step_simps(1) [OF one(3)] a(1))
qed simp

lemma fresh_all:
  assumes "\<forall>op \<in> set ops. passes E now r op \<and> \<not> is_known r op" and "distinct (map op_key ops)"
  shows "fresh_ops E now r ops = ops"
proof -
  have "foldl (sift E now r) (n, seen, fresh) ops = (n, seen \<union> op_key ` set ops, fresh @ ops)"
    if "op_key ` set ops \<inter> seen = {}" for n seen fresh
    using assms that
  proof (induction ops arbitrary: seen fresh)
    case (Cons op ops)
    have "op_key op \<notin> seen" "op_key ` set ops \<inter> insert (op_key op) seen = {}" using Cons.prems by auto
    with Cons show ?case by (simp add: sift_simps(3))
  qed simp
  then show ?thesis by (simp add: fresh_ops_def)
qed

lemma witness_frame [simp]:
  "st (foldl (\<lambda>r op. witness_clock now (op_hlc op) r) r ops) = st r"
  "op_log (foldl (\<lambda>r op. witness_clock now (op_hlc op) r) r ops) = op_log r"
  "held (foldl (\<lambda>r op. witness_clock now (op_hlc op) r) r ops) = held r"
  "op_log_dedup (foldl (\<lambda>r op. witness_clock now (op_hlc op) r) r ops) = op_log_dedup r"
  by (induction ops arbitrary: r) (simp_all add: witness_clock_def split: option.split)

lemma ingest_replays:
  fixes t :: instant
  assumes "at_rest r" and "strict_log (op_log r @ ops)" and "replays E (st r) (op_log r) ops"
    and "\<forall>op \<in> set ops. passes E now r op" and "distinct (map op_key (op_log r @ ops))"
  defines "r' \<equiv> snd (ingest_remote E now t ops r)"
  shows "at_rest r' \<and> op_log r' = op_log r @ ops \<and> st r' = foldl (\<lambda>s op. apply_payload E op s) (st r) ops"
proof (cases "ops = []")
  case True
  have "ready t r = r" using assms(1) by (simp add: at_rest_def ready_def expire_held_def ensure_dedup_def log_keys_def)
  moreover have "fresh_ops E now r [] = []" by (simp add: fresh_ops_def)
  ultimately show ?thesis using True assms(1) by (simp add: r'_def ingest_remote_def fold_remote_eq Let_def ingested_default_def)
next
  case False
  have rd: "ready t r = r" using assms(1) by (simp add: at_rest_def ready_def expire_held_def ensure_dedup_def log_keys_def)
  have "\<forall>op \<in> set ops. \<not> is_known r op"
    using assms(1,5) by (auto simp: is_known_def at_rest_def log_keys_def)
  then have fresh: "fresh_ops E now r ops = ops" using assms(4,5) by (intro fresh_all) auto
  have "strict_log ops" using assms(2) by (simp add: strict_log_def sorted_wrt_append)
  then have srt: "sort_key fold_key ops = ops" by (intro sort_key_id_if_sorted strict_log_sorted)
  have tail: "op_log r = [] \<or> fold_key (last (op_log r)) < fold_key (hd ops)"
    using assms(2) last_in_set [of "op_log r"] hd_in_set [OF False] unfolding strict_log_def sorted_wrt_append by blast
  define r1 where "r1 = foldl (\<lambda>r op. admit E op r) r ops"
  define out0 where "out0 = ingested_default\<lparr>in_rejected := length (filter (\<lambda>op. \<not> passes E now r op) ops)\<rparr>"
  obtain en' out' where f: "foldl (tail_step E t) (False, out0, r) ops = (en', out', r1)"
    and r1: "at_rest r1" "op_log r1 = op_log r @ ops" "st r1 = foldl (\<lambda>s op. apply_payload E op s) (st r) ops"
    using tail_replays [OF assms(1-3), of t False out0] by (auto simp: r1_def)
  have "fold_remote E now t ops r = (out', r1)"
    using False assms(1) tail f r1(1) by (simp add: fold_remote_eq rd fresh Let_def srt fold_fresh_def at_rest_def out0_def [symmetric])
  then have "r' = foldl (\<lambda>r op. witness_clock now (op_hlc op) r) r1 (in_admitted out')"
    by (simp add: r'_def ingest_remote_def)
  with r1 show ?thesis by (simp add: at_rest_def)
qed

text \<open>A replica whose log, replayed from nothing, is never refused and gives its state.\<close>

definition self_contained :: "('a) fold_env_scheme \<Rightarrow> replica \<Rightarrow> bool" where
  "self_contained E r \<longleftrightarrow>
     is_genesis_id (server_id (st r)) \<and> strict_log (op_log r) \<and> distinct (map op_key (op_log r))
     \<and> replays E (skeleton (server_id (st r))) [] (op_log r)
     \<and> st r = foldl (\<lambda>s op. apply_payload E op s) (skeleton (server_id (st r))) (op_log r)"

text \<open>What the pages rely on from serde: an op of the log is read back from its JSON, and the JSON array of a run of
  them is read as its items.\<close>

definition json_reads :: "('a) digest_env_scheme \<Rightarrow> crdt_op list \<Rightarrow> bool" where
  "json_reads E log \<longleftrightarrow>
     (\<forall>op \<in> set log. \<exists>j. op_to_json E op = Some j \<and> read_op E j = ReadOp op)
     \<and> (\<forall>before ops after. log = before @ ops @ after \<longrightarrow>
          items_of_json E (page_text E ops) = Some (List.map_filter (op_to_json E) ops))"

lemma page_text_parses:
  assumes "json_reads E log" and "log = before @ ops @ after"
  shows "parse_ops_tolerant E (page_text E ops) = \<lparr>parsed_ops = ops, parsed_unread = [], malformed = False\<rparr>"
proof -
  have one: "\<exists>j. op_to_json E op = Some j \<and> read_op E j = ReadOp op" if "op \<in> set ops" for op
    using assms that by (auto simp: json_reads_def)
  have "foldl (\<lambda>out item. tolerant_push out (read_op E item)) out (List.map_filter (op_to_json E) ops)
      = out\<lparr>parsed_ops := parsed_ops out @ ops\<rparr>" for out
    using one
  proof (induction ops arbitrary: out)
    case (Cons op ops)
    then obtain j where "op_to_json E op = Some j" "read_op E j = ReadOp op" by auto
    with Cons show ?case by (simp add: map_filter_simps)
  qed (simp add: map_filter_simps)
  moreover have "items_of_json E (page_text E ops) = Some (List.map_filter (op_to_json E) ops)"
    using assms unfolding json_reads_def by blast
  ultimately show ?thesis by (simp add: parse_ops_tolerant_def Let_def)
qed

lemma at_rest_skeleton: "is_genesis_id sid \<Longrightarrow> at_rest (replica_of (skeleton sid))"
  by (simp add: at_rest_def replica_of_def anchor_Legacy skeleton_def log_keys_def)

text \<open>The server's entry after its pages were folded in.\<close>

definition fold_pages ::
  "('a) fold_env_scheme \<Rightarrow> u64 \<Rightarrow> instant \<Rightarrow> string \<Rightarrow> string \<Rightarrow> replica hmap \<Rightarrow> string list \<Rightarrow> replica hmap" where
  "fold_pages E now t sid us states pages = foldl (\<lambda>states json. snd (ingest_page E now t states sid json us)) states pages"

lemma fold_pages_replays:
  assumes "json_reads E log" and "log = front @ concat batches" and "strict_log log" and "distinct (map op_key log)"
    and "\<forall>op \<in> set log. stateless_check E (skeleton sid) now op = Inr ()"
    and "hm_get states sid = Some j" and "at_rest j" and "op_log j = front" and "server_id (st j) = sid"
    and "replays E (st j) front (concat batches)"
  shows "\<exists>j'. hm_get (fold_pages E now t sid us states (map (page_text E) batches)) sid = Some j'
    \<and> op_log j' = log \<and> st j' = foldl (\<lambda>s op. apply_payload E op s) (st j) (concat batches)"
  using assms
proof (induction batches arbitrary: front states j)
  case (Cons b batches)
  define j' where "j' = snd (ingest_remote E now t b j)"
  have log: "log = front @ b @ concat batches" using Cons.prems(2) by simp
  have pass: "\<forall>op \<in> set b. passes E now j op"
    using Cons.prems(5,9) log by (auto simp: passes_def stateless_check_def skeleton_def)
  have pre: "strict_log (op_log j @ b)" "distinct (map op_key (op_log j @ b))" "replays E (st j) (op_log j) b"
    using Cons.prems(3,4,8,10) unfolding log append_assoc [symmetric] strict_log_def
    by (simp_all add: replays_append sorted_wrt_append) auto
  have j': "at_rest j'" "op_log j' = front @ b" "st j' = foldl (\<lambda>s op. apply_payload E op s) (st j) b"
    using ingest_replays [OF Cons.prems(7), of b E now t] pre pass Cons.prems(8) unfolding j'_def by blast+
  have states: "snd (ingest_page E now t states sid (page_text E b) us) = hm_insert sid j' (hm_remove sid states)"
    using Cons.prems(6) by (simp add: ingest_page_def page_text_parses [OF Cons.prems(1) log] Let_def split_beta j'_def)
  have sid: "server_id (st j') = sid"
  proof -
    have "server_id (foldl (\<lambda>s op. apply_payload E op s) s b) = server_id s" for s
      by (induction b arbitrary: s) simp_all
    with j'(3) Cons.prems(9) show ?thesis by simp
  qed
  show ?case
    using Cons.IH [of "front @ b" "hm_insert sid j' (hm_remove sid states)" j'] Cons.prems log j' sid
    by (simp add: fold_pages_def states replays_append)
qed (simp add: fold_pages_def)

text \<open>C7: A log fetched page by page rebuilds the responder's replica. The pages a member hands out for one ask after
  another end, and folding them into an empty replica of the server, through the parser and the whole of remote ingest,
  gives exactly the responder's log and state. The responder's log replays without refusal, its ops are in order, verify
  and lie within the allowed drift; serde reads back what it wrote.\<close>

theorem whole_log_rebuilds:
  fixes E :: "('a) digest_env_scheme"
  assumes "self_contained E r" and "json_reads E (op_log r)"
    and "\<forall>op \<in> set (op_log r). stateless_check E (st r) now op = Inr ()"
    and "hm_get states (server_id (st r)) = Some (replica_of (skeleton (server_id (st r))))"
  shows "\<exists>pages j. page_run E (Suc (length (op_log r))) (op_log r) None = Some pages
    \<and> hm_get (fold_pages E now t (server_id (st r)) us states pages) (server_id (st r)) = Some j
    \<and> op_log j = op_log r \<and> st j = st r"
proof -
  let ?sid = "server_id (st r)"
  have sc: "is_genesis_id ?sid" "strict_log (op_log r)" "distinct (map op_key (op_log r))"
    "replays E (skeleton ?sid) [] (op_log r)" "st r = foldl (\<lambda>s op. apply_payload E op s) (skeleton ?sid) (op_log r)"
    using assms(1) unfolding self_contained_def by blast+
  obtain batches where b: "page_run E (Suc (length (op_log r))) (op_log r) None = Some (map (page_text E) batches)" "concat batches = op_log r"
    using page_run_splits [of "[]" "op_log r" "Suc (length (op_log r))" E] sc(2) by auto
  have checks: "\<forall>op \<in> set (op_log r). stateless_check E (skeleton ?sid) now op = Inr ()"
    using assms(3) by (simp add: stateless_check_def skeleton_def)
  have start: "op_log (replica_of (skeleton ?sid)) = []" "st (replica_of (skeleton ?sid)) = skeleton ?sid" "server_id (skeleton ?sid) = ?sid"
    by (simp_all add: replica_of_def skeleton_def)
  obtain j where j: "hm_get (fold_pages E now t ?sid us states (map (page_text E) batches)) ?sid = Some j" "op_log j = op_log r"
    "st j = foldl (\<lambda>s op. apply_payload E op s) (skeleton ?sid) (op_log r)"
    using fold_pages_replays [OF assms(2) _ sc(2,3) checks assms(4) at_rest_skeleton [OF sc(1)], of "[]" batches t us] b(2) start sc(4)
    by auto
  from j(3) have "st j = st r" by (rule trans) (rule sc(5) [symmetric])
  with b(1) j(1,2) show ?thesis by blast
qed

definition sample_page_env :: "crdt_op \<Rightarrow> digest_env" where
  "sample_page_env op = fold_env.extend
     ((sample_fold_env None)\<lparr>payload_of_json := \<lambda>_. Some (op_payload op),
        shape_of_json := \<lambda>_. Some \<lparr>shape_server_id = op_server_id op, shape_hlc = op_hlc op, shape_author = op_author op,
                                   shape_raw = payload_json (sample_fold_env None) (op_payload op), shape_auth = op_auth op\<rparr>,
        items_of_json := \<lambda>s. Some (if s = ''[]'' then [] else [''x''])\<rparr>)
     (digest_env.fields (\<lambda>_ _. []) id Some (\<lambda>_. None) (\<lambda>_. Some ''x''))"

lemma sample_page_env_simps [simp]:
  "payload_json (sample_page_env op) = payload_json (sample_fold_env None)" "sha256 (sample_page_env op) = sha256 sample_env"
  "b64_decode (sample_page_env op) = b64_decode sample_env" "hex_encode (sample_page_env op) = hex_encode sample_env"
  "bs58_encode (sample_page_env op) = bs58_encode sample_env" "ed_key_error (sample_page_env op) = ed_key_error sample_env"
  "ed_verify_strict (sample_page_env op) = ed_verify_strict sample_env" "op_to_json (sample_page_env op) = (\<lambda>_. Some ''x'')"
  by (simp_all add: sample_page_env_def fold_env.defs digest_env.defs)

lemma sample_page_env_agrees:
  "verify_author (sample_page_env op) op' = verify_author (sample_fold_env None) op'"
  "derive_server_id (sample_page_env op) ow nonce = derive_server_id (sample_fold_env None) ow nonce"
proof -
  have "peer_id_from_pubkey_protobuf (sample_page_env op) = peer_id_from_pubkey_protobuf (sample_fold_env None)"
    by (rule ext) (simp add: peer_id_from_pubkey_protobuf_def compute_peer_id_def)
  moreover have "verify_peer_signature (sample_page_env op) = verify_peer_signature (sample_fold_env None)"
    by (intro ext) (simp add: verify_peer_signature_def)
  ultimately show "verify_author (sample_page_env op) op' = verify_author (sample_fold_env None) op'"
    unfolding verify_author_def verify_signed_def signing_payload_def sample_page_env_simps sample_fold_env_simps by (simp only:)
  show "derive_server_id (sample_page_env op) ow nonce = derive_server_id (sample_fold_env None) ow nonce"
    by (simp add: derive_server_id_def)
qed

lemma sample_page_env_reads: "json_reads (sample_page_env op) [op]"
proof -
  have "read_op (sample_page_env op) ''x'' = ReadOp op"
    by (simp add: read_op_def sample_page_env_def fold_env.defs Let_def)
  moreover have "items_of_json (sample_page_env op) (page_text (sample_page_env op) ops) = Some (List.map_filter (op_to_json (sample_page_env op)) ops)"
    if "[op] = before @ ops @ after" for before ops after
    using that by (cases before; cases ops) (simp_all add: page_text_def map_filter_simps sample_page_env_def fold_env.defs digest_env.defs)
  ultimately show ?thesis by (simp add: json_reads_def)
qed

lemma whole_log_rebuilds_witness:
  "\<exists>op pages j. op_log sample_replica = [op] \<and> page_run (sample_page_env op) 2 [op] None = Some pages
     \<and> hm_get (fold_pages (sample_page_env op) 100 0 (op_server_id op) ''me''
          [(op_server_id op, replica_of (skeleton (op_server_id op)))] pages) (op_server_id op) = Some j
     \<and> op_log j = [op] \<and> st j = st sample_replica"
proof (rule sample_founded)
  fix op
  let ?E = "sample_page_env op" and ?sid = "op_server_id op"
  assume log: "op_log sample_replica = [op]" and gen: "is_genesis_id ?sid" and stamp: "physical_ms (op_hlc op) = 100"
    and f: "found_on (sample_fold_env None) ''random'' 50 (\<lambda>_. 100) 100 ''club'' (peer_id sample_founder)
      ''phone'' sample_founder sample_pk = Some (sample_replica, op)"
  have "length (sample_key (CHR ''k'')) = 32" and "physical_ms (op_hlc op) \<le> 100 + MAX_DRIFT_MS"
    by (simp_all add: sample_key_def stamp MAX_DRIFT_MS_def)
  note facts = founded_op_passes [OF sample_fold_env_laws this(1) f [unfolded sample_pk_def sample_founder_def] this(2)]
  have sid: "server_id (st sample_replica) = ?sid"
    using facts(2) by (auto simp: passes_def stateless_check_def replica_of_def skeleton_def split: if_splits)
  have app: "apply_payload ?E op s = apply_payload (sample_fold_env None) op s" for s
    using facts(7) by (simp add: apply_payload_def)
  have allow: "op_allowed ?E s op = op_allowed (sample_fold_env None) s op" for s
    using facts(7) by (simp add: op_allowed_founding founding_allowed_def sample_page_env_agrees)
  have "self_contained ?E sample_replica"
    unfolding self_contained_def log sid using facts(3-5) [unfolded sid] gen by (simp add: strict_log_def allow app)
  moreover have "\<forall>o1 \<in> set (op_log sample_replica). stateless_check ?E (st sample_replica) 100 o1 = Inr ()"
    using facts(2) by (simp add: log sid passes_def stateless_check_def sample_page_env_agrees replica_of_def skeleton_def)
  ultimately show ?thesis
    using whole_log_rebuilds [of ?E sample_replica 100 "[(?sid, replica_of (skeleton ?sid))]" 0 "''me''"] sample_page_env_reads [of op]
    by (simp add: log sid numeral_2_eq_2)
qed

end
