(* ===== verification/KeptProps.thy ===== *)
theory KeptProps
  imports ResyncProps "HOL-Library.Sublist"
begin

text \<open>
  The ops a node keeps unread (\<open>node/crdt_resync.rs\<close>, \<open>trim_kept\<close>): how many there are, and from whom they
  are given up.
\<close>

definition share :: "kept_op list \<Rightarrow> string \<Rightarrow> nat \<times> nat" where
  "share ks a = (length (filter (\<lambda>k. kp_author k = a) ks), kept_bytes (filter (\<lambda>k. kp_author k = a) ks))"

lemma kept_bytes_simps [simp]:
  "kept_bytes [] = 0" "kept_bytes (k # ks) = length (kp_raw k) + kept_bytes ks"
  "kept_bytes (xs @ ys) = kept_bytes xs + kept_bytes ys"
  by (simp_all add: kept_bytes_def)

lemma kept_shares_facts:
  "hm_wf (kept_shares ks) \<and> (\<forall>a. hm_get (kept_shares ks) a = (if a \<in> kp_author ` set ks then Some (share ks a) else None))"
proof (induction ks rule: rev_induct)
  case Nil
  show ?case by (simp add: kept_shares_def)
next
  case (snoc k ks)
  let ?v = "let (n, bytes) = unwrap_or (0, 0) (hm_get (kept_shares ks) (kp_author k)) in (n + 1, bytes + length (kp_raw k))"
  have step: "kept_shares (ks @ [k]) = hm_insert (kp_author k) ?v (kept_shares ks)"
    by (simp add: kept_shares_def Let_def split_beta)
  have v: "?v = share (ks @ [k]) (kp_author k)"
  proof (cases "kp_author k \<in> kp_author ` set ks")
    case False
    then have "filter (\<lambda>j. kp_author j = kp_author k) ks = []"
      by (auto simp: filter_empty_conv image_iff)
    with False snoc show ?thesis by (simp add: share_def)
  qed (use snoc in \<open>simp add: share_def\<close>)
  have other: "share (ks @ [k]) a = share ks a" if "a \<noteq> kp_author k" for a
    using that by (simp add: share_def)
  show ?case
    using snoc other unfolding step v by (auto simp: hmap_wf)
qed

lemma heaviest_facts:
  assumes "heaviest c ks = Some who"
  shows "who \<in> kp_author ` set ks" "a \<in> kp_author ` set ks \<Longrightarrow> share_weight c (share ks a) \<le> share_weight c (share ks who)"
proof -
  let ?w = "\<lambda>x :: string \<times> nat \<times> nat. (share_weight c (snd x), fst x)"
  obtain v where v: "max_by_key ?w (kept_shares ks) = Some (who, v)"
    using assms by (auto simp: heaviest_def)
  have wf: "hm_wf (kept_shares ks)" and get: "\<And>a. hm_get (kept_shares ks) a = (if a \<in> kp_author ` set ks then Some (share ks a) else None)"
    using kept_shares_facts [of ks] by auto
  have "hm_get (kept_shares ks) who = Some v"
    using max_by_key_in [OF v] wf by (simp add: hm_wf_def)
  then have who: "who \<in> kp_author ` set ks" "v = share ks who" using get [of who] by (auto split: if_splits)
  then show "who \<in> kp_author ` set ks" by simp
  show "share_weight c (share ks a) \<le> share_weight c (share ks who)" if "a \<in> kp_author ` set ks"
  proof -
    have "(a, share ks a) \<in> set (kept_shares ks)" using get [of a] that by (auto dest: map_of_SomeD)
    from max_by_key_ge [OF v this] who(2) show ?thesis by auto
  qed
qed

lemma heaviest_None: "heaviest c ks = None \<longleftrightarrow> ks = []"
proof -
  have "kept_shares ks = [] \<longleftrightarrow> ks = []"
  proof
    assume "kept_shares ks = []"
    then have "a \<notin> kp_author ` set ks" for a using kept_shares_facts [of ks] by (auto split: if_splits)
    then show "ks = []" by (cases ks) auto
  qed (simp add: kept_shares_def)
  then show ?thesis by (simp add: heaviest_def)
qed

lemma oldest_of_Some: "who \<in> kp_author ` set ks \<Longrightarrow> oldest_of who ks \<noteq> None"
proof
  assume "who \<in> kp_author ` set ks" and none: "oldest_of who ks = None"
  then obtain i where "i < length ks" "kp_author (ks ! i) = who" by (auto simp: in_set_conv_nth)
  then have "(i, ks ! i) \<in> set (filter (\<lambda>(_, k). kp_author k = who) (zip [0..<length ks] ks))"
    by (auto simp: set_zip intro!: exI [of _ i])
  moreover have "filter (\<lambda>(_, k). kp_author k = who) (zip [0..<length ks] ks) = []"
    using none unfolding oldest_of_def min_by_key_def by (auto split: list.splits)
  ultimately show False by simp
qed

lemma remove_at_filter:
  assumes "i < length ks"
  shows "subseq (remove_at i ks) ks" "remove_at i ks \<noteq> ks"
    "kp_author (ks ! i) \<noteq> a \<Longrightarrow> filter (\<lambda>k. kp_author k = a) (remove_at i ks) = filter (\<lambda>k. kp_author k = a) ks"
proof -
  have ks: "ks = take i ks @ ks ! i # drop (Suc i) ks" using assms by (simp add: id_take_nth_drop)
  have "subseq (take i ks @ drop (Suc i) ks) (take i ks @ ks ! i # drop (Suc i) ks)"
    by (rule list_emb_append_mono) (auto intro: list_emb_Cons)
  with ks show "subseq (remove_at i ks) ks" by (simp add: remove_at_def)
  have "length (remove_at i ks) < length ks" using assms by (simp add: remove_at_def)
  then show "remove_at i ks \<noteq> ks" by auto
  assume "kp_author (ks ! i) \<noteq> a"
  then have "filter (\<lambda>k. kp_author k = a) (take i ks @ ks ! i # drop (Suc i) ks)
      = filter (\<lambda>k. kp_author k = a) (take i ks @ drop (Suc i) ks)" by simp
  with ks show "filter (\<lambda>k. kp_author k = a) (remove_at i ks) = filter (\<lambda>k. kp_author k = a) ks"
    by (simp add: remove_at_def)
qed

lemma share_mono:
  assumes "subseq xs ks"
  shows "fst (share xs a) \<le> fst (share ks a)" "snd (share xs a) \<le> snd (share ks a)"
proof -
  have sub: "subseq (filter (\<lambda>k. kp_author k = a) xs) (filter (\<lambda>k. kp_author k = a) ks)"
    using assms by (rule subseq_filter)
  then show "fst (share xs a) \<le> fst (share ks a)" by (simp add: share_def list_emb_length)
  have "kept_bytes ys \<le> kept_bytes zs" if "subseq ys zs" for ys zs
    using that by induction auto
  with sub show "snd (share xs a) \<le> snd (share ks a)" by (simp add: share_def)
qed

text \<open>One round: either the bounds hold and nothing happens, or the heaviest author gives up an op.\<close>

lemma trim_cases:
  obtains (fits) "length ks \<le> KEPT_OPS" "kept_bytes ks \<le> KEPT_BYTES" "trim_kept b ks = (b, ks)"
  | (gives) who i where "heaviest (KEPT_OPS < length ks) ks = Some who" "i < length ks" "kp_author (ks ! i) = who"
      "trim_kept b ks = trim_kept True (remove_at i ks)"
proof (cases "length ks \<le> KEPT_OPS \<and> kept_bytes ks \<le> KEPT_BYTES")
  case True
  then show ?thesis by (intro fits) (simp_all add: trim_kept.simps [of b ks])
next
  case False
  then have "ks \<noteq> []" by auto
  then obtain who where who: "heaviest (KEPT_OPS < length ks) ks = Some who"
    using heaviest_None [of "KEPT_OPS < length ks" ks] by auto
  then obtain i where i: "oldest_of who ks = Some i"
    using oldest_of_Some [OF heaviest_facts(1) [OF who]] by auto
  with who False have "trim_kept b ks = trim_kept True (remove_at i ks)"
    by (subst trim_kept.simps) (auto simp: Let_def not_le)
  with who oldest_of_less [OF i] show ?thesis by (intro gives) auto
qed

lemma trim_subseq: "subseq (snd (trim_kept b ks)) ks"
proof (induction ks arbitrary: b rule: length_induct)
  case (1 ks)
  show ?case
  proof (cases rule: trim_cases [of ks b])
    case (gives who i)
    have "length (remove_at i ks) < length ks" using gives(2) by (simp add: remove_at_def)
    with 1 have "subseq (snd (trim_kept True (remove_at i ks))) (remove_at i ks)" by blast
    then show ?thesis
      unfolding gives(4) using remove_at_filter(1) [OF gives(2)] by (rule subseq_order.trans)
  qed simp
qed

lemma trim_bounded: "length (snd (trim_kept b ks)) \<le> KEPT_OPS \<and> kept_bytes (snd (trim_kept b ks)) \<le> KEPT_BYTES"
proof (induction ks arbitrary: b rule: length_induct)
  case (1 ks)
  show ?case
  proof (cases rule: trim_cases [of ks b])
    case (gives who i)
    have "length (remove_at i ks) < length ks" using gives(2) by (simp add: remove_at_def)
    with 1 gives(4) show ?thesis by simp
  qed simp
qed

lemma trim_True: "fst (trim_kept True ks)"
proof (induction ks rule: length_induct)
  case (1 ks)
  show ?case
  proof (cases rule: trim_cases [of ks True])
    case (gives who i)
    have "length (remove_at i ks) < length ks" using gives(2) by (simp add: remove_at_def)
    with 1 gives(4) show ?thesis by simp
  qed simp
qed

lemma trim_flag: "fst (trim_kept b ks) \<longleftrightarrow> b \<or> snd (trim_kept b ks) \<noteq> ks"
proof (cases rule: trim_cases [of ks b])
  case (gives who i)
  have "length (snd (trim_kept True (remove_at i ks))) \<le> length (remove_at i ks)"
    by (rule list_emb_length [OF trim_subseq])
  also have "\<dots> < length ks" using gives(2) by (simp add: remove_at_def)
  finally show ?thesis using gives(4) trim_True [of "remove_at i ks"] by auto
qed simp

lemma trim_fair:
  assumes "fst (share ks a) < fst (share (snd (trim_kept b ks)) c)" and "snd (share ks a) < snd (share (snd (trim_kept b ks)) c)"
  shows "filter (\<lambda>k. kp_author k = a) (snd (trim_kept b ks)) = filter (\<lambda>k. kp_author k = a) ks"
  using assms
proof (induction ks arbitrary: b rule: length_induct)
  case (1 ks)
  show ?case
  proof (cases rule: trim_cases [of ks b])
    case (gives who i)
    note less = share_mono [OF trim_subseq, of b ks c]
    have c: "c \<in> kp_author ` set ks"
    proof (rule ccontr)
      assume "c \<notin> kp_author ` set ks"
      then have "filter (\<lambda>k. kp_author k = c) ks = []" by (auto simp: filter_empty_conv image_iff)
      then have "fst (share ks c) = 0" by (simp add: share_def)
      with less(1) "1.prems"(1) show False by simp
    qed
    have "a \<noteq> who"
    proof
      assume "a = who"
      with heaviest_facts(2) [OF gives(1) c]
      have "fst (share ks c) \<le> fst (share ks a) \<or> snd (share ks c) \<le> snd (share ks a)"
        by (cases "share ks c"; cases "share ks who") (auto simp: share_weight_def split: if_splits)
      with less "1.prems" show False by linarith
    qed
    then have same: "filter (\<lambda>k. kp_author k = a) (remove_at i ks) = filter (\<lambda>k. kp_author k = a) ks"
      using gives(2,3) by (intro remove_at_filter(3)) auto
    then have "share (remove_at i ks) a = share ks a" by (simp add: share_def)
    moreover have "length (remove_at i ks) < length ks" using gives(2) by (simp add: remove_at_def)
    ultimately show ?thesis
      using "1.IH" "1.prems" same unfolding gives(4) by metis
  qed simp
qed

text \<open>C35: The ops kept unread are bounded and given up fairly. Trimming leaves at most 128 ops and 512 KiB of
  the ones there were, in their order; it reports a loss exactly when one happened; and an author loses
  nothing as long as somebody still keeps both more ops and more bytes than that author ever had: a flood
  pushes out the flooder's own.\<close>

theorem trim_kept_fair:
  "let ks' = snd (trim_kept b ks) in
     subseq ks' ks \<and> length ks' \<le> KEPT_OPS \<and> kept_bytes ks' \<le> KEPT_BYTES
     \<and> (fst (trim_kept b ks) \<longleftrightarrow> b \<or> ks' \<noteq> ks)
     \<and> (fst (share ks a) < fst (share ks' c) \<and> snd (share ks a) < snd (share ks' c)
          \<longrightarrow> filter (\<lambda>k. kp_author k = a) ks' = filter (\<lambda>k. kp_author k = a) ks)"
  unfolding Let_def using trim_subseq trim_bounded trim_flag trim_fair by blast

definition sample_flood :: "kept_op list" where
  "sample_flood = map (\<lambda>i. \<lparr>kp_author = ''a'', kp_hlc = HlcTimestamp (of_nat i) 0 ''a'', kp_build = [], kp_raw = ''{}''\<rparr>) [0..<200]"

theorem trim_kept_fair_witness:
  "length (snd (trim_kept False sample_flood)) \<le> KEPT_OPS \<and> fst (trim_kept False sample_flood)"
proof -
  have "length sample_flood = 200" by (simp add: sample_flood_def)
  moreover have "length (snd (trim_kept False sample_flood)) \<le> KEPT_OPS
      \<and> (fst (trim_kept False sample_flood) \<longleftrightarrow> snd (trim_kept False sample_flood) \<noteq> sample_flood)"
    using trim_kept_fair [of False sample_flood "''a''" "''b''"] unfolding Let_def by blast
  ultimately show ?thesis by (auto simp: KEPT_OPS_def)
qed

end
