(* ===== verification/Members.thy ===== *)
theory Members
  imports AuthorityProps
begin

text \<open>
  Members over a whole run and under clean-up: the maps of every reachable state stay maps and it has at
  most one Owner; and \<open>canonicalize_members\<close> of \<open>crdt/server_state.rs\<close>, which folds entries keyed by a device
  into the master identity, moves no authority it must not move.
\<close>

section \<open>One Owner\<close>

definition one_owner :: "server_state \<Rightarrow> bool" where
  "one_owner s \<longleftrightarrow> (\<forall>a b. reg_get (roles s) a = Some Owner \<longrightarrow> reg_get (roles s) b = Some Owner \<longrightarrow> a = b)"

lemma one_owner_fewer:
  assumes "one_owner s" and "\<And>a. reg_get (roles s') a = Some Owner \<Longrightarrow> reg_get (roles s) a = Some Owner"
  shows "one_owner s'"
  using assms unfolding one_owner_def by blast

lemma current_owner_None: "current_owner s = None \<Longrightarrow> hm_wf (roles s) \<Longrightarrow> reg_get (roles s) a \<noteq> Some Owner"
  by (auto simp: current_owner_def find_None_iff dest!: map_of_SomeD)

lemma owner_entries_mem: "hm_wf (roles s) \<Longrightarrow> a \<in> set (owner_entries s) \<longleftrightarrow> reg_get (roles s) a = Some Owner"
  by (force simp: owner_entries_def hm_wf_def map_of_eq_Some_iff)

lemma clamp_roles: "reg_get (roles (snd (clamp_future_hlcs t s))) a = reg_get (roles s) a"
proof -
  have "lww_read (snd (lww_clamp_hlc m r)) = lww_read r" for m and r :: "member_role admin_lww_reg"
    by (simp add: lww_clamp_hlc_def lww_read_def)
  then show ?thesis
    by (simp add: clamp_future_hlcs_def Let_def split_beta clamp_map_def hm_map_values_get option.map_comp comp_def)
qed

lemma rebase_on_roles: "reg_get (roles (rebase_on base ow covers s)) a = reg_get (roles base) a"
  by (simp add: rebase_on_def clamp_roles)

lemma seed_founder_roles: "roles (seed_founder nm ow h s) = hm_insert ow (lww_new Owner h (priority Owner)) (roles s)"
  by (simp add: seed_founder_def Let_def open_span_def)

lemma one_owner_step:
  assumes "json_wf E" and "state_wf s" and "one_owner s" and "op_allowed E s op"
  shows "one_owner (apply_payload E op s)"
proof (cases "op_payload op")
  case (ServerCreated nm ow nonce)
  show ?thesis
  proof (cases "current_owner s")
    case None
    with assms(2) have "reg_get (roles s) a \<noteq> Some Owner" for a
      by (intro current_owner_None) (simp_all add: state_wf_def)
    with None show ?thesis
      by (auto simp: one_owner_def apply_payload_def ServerCreated apply_server_created_def seed_founder_roles)
  next
    case (Some x)
    with assms(3) show ?thesis by (simp add: apply_payload_def ServerCreated apply_server_created_def)
  qed
next
  case (ServerCheckpoint json covers)
  then obtain base where base: "state_of_json E json = Some base" "owner_entries base = [op_author op]"
    "apply_payload E op s = rebase_on base (op_author op) covers s"
    using checkpoint_allowedE [OF ServerCheckpoint assms(4)] by metis
  have "hm_wf (roles base)" using assms(1) base(1) by (auto simp: json_wf_def state_wf_def)
  with base(2) have "reg_get (roles base) a = Some Owner \<Longrightarrow> a = op_author op" for a
    using owner_entries_mem [of base a] by simp
  then show ?thesis unfolding one_owner_def base(3) rebase_on_roles by blast
next
  case (RoleChanged pid r p)
  obtain ar where "role_change_allowed E s ar (permissions_of s ar) pid r"
    using allowed_role_changed [OF assms(4) RoleChanged] by blast
  then have "r \<noteq> Owner" by (rule role_change_allowedD)
  then show ?thesis
    by (intro one_owner_fewer [OF assms(3)])
      (auto simp: roles_role_changed [OF RoleChanged] lww_write_read lww_read_def lww_new_def split: if_splits option.splits)
next
  case (MemberAdded pid nm f ask)
  show ?thesis
    by (rule one_owner_fewer [OF assms(3)])
      (auto simp: roles_member_added [OF MemberAdded] hm_or_insert_get lww_read_def lww_new_def split: if_splits)
qed (use assms(3) in \<open>auto simp: one_owner_def roles_frame writes_roles_def roles_dropped roles_deleted split: if_splits\<close>)

lemma judged_wf:
  assumes "json_wf E" and "state_wf s" and "one_owner s"
  shows "state_wf (judged E s ops) \<and> one_owner (judged E s ops)"
  using assms(2,3)
proof (induction ops arbitrary: s)
  case (Cons op ops)
  have "state_wf (judged_step E s op) \<and> one_owner (judged_step E s op)"
    using Cons.prems apply_payload_wf [OF assms(1)] one_owner_step [OF assms(1)] by (simp add: judged_step_def)
  with Cons.IH show ?case by (simp add: judged_def)
qed (simp add: judged_def)



section \<open>Folding device entries into masters\<close>

text \<open>The keys of a map are snapshotted before the loop, in the map's own order.\<close>

definition canon_lww_step ::
  "(string \<Rightarrow> string) \<Rightarrow> bool \<times> 'v admin_lww_reg hmap \<Rightarrow> string \<Rightarrow> bool \<times> 'v admin_lww_reg hmap" where
  "canon_lww_step resolve acc k =
     (let (altered, m) = acc; master = resolve k in
      if master = k then (altered, m)
      else (case hm_get m k of
              None \<Rightarrow> (altered, m)
            | Some dev_reg \<Rightarrow>
                (let m = hm_remove k m in
                 (True, case hm_get m master of
                          Some existing \<Rightarrow> hm_insert master (lww_merge existing dev_reg) m
                        | None \<Rightarrow> hm_insert master dev_reg m))))"

definition fold_lww :: "(string \<Rightarrow> string) \<Rightarrow> 'v admin_lww_reg hmap \<Rightarrow> bool \<times> 'v admin_lww_reg hmap" where
  "fold_lww resolve m = foldl (canon_lww_step resolve) (False, m) (map fst m)"

definition adopt_step ::
  "(string \<Rightarrow> string) \<Rightarrow> (string \<Rightarrow> 'v \<Rightarrow> bool) \<Rightarrow> bool \<times> 'v admin_lww_reg hmap \<Rightarrow> string \<Rightarrow> bool \<times> 'v admin_lww_reg hmap" where
  "adopt_step resolve may_land acc k =
     (let (altered, m) = acc; master = resolve k in
      if master = k \<or> hm_has m master then (altered, m)
      else (case hm_get m k of
              Some reg \<Rightarrow> if may_land master (lww_read reg) then (True, hm_insert master reg (hm_remove k m)) else (altered, m)
            | None \<Rightarrow> (altered, m)))"

definition adopt_lww ::
  "(string \<Rightarrow> string) \<Rightarrow> (string \<Rightarrow> 'v \<Rightarrow> bool) \<Rightarrow> 'v admin_lww_reg hmap \<Rightarrow> bool \<times> 'v admin_lww_reg hmap" where
  "adopt_lww resolve may_land m = foldl (adopt_step resolve may_land) (False, m) (map fst m)"

definition canon_member_step ::
  "(string \<Rightarrow> string) \<Rightarrow> bool \<times> member_info hmap \<Rightarrow> string \<Rightarrow> bool \<times> member_info hmap" where
  "canon_member_step resolve acc k =
     (let (altered, m) = acc; master = resolve k in
      if master = k then (altered, m)
      else (case hm_get m k of
              None \<Rightarrow> (altered, m)
            | Some info \<Rightarrow> (True, hm_or_insert master (info\<lparr>mi_peer_id := master\<rparr>) (hm_remove k m))))"

definition canon_label_step ::
  "(string \<Rightarrow> string) \<Rightarrow> bool \<times> string list hmap \<Rightarrow> string \<Rightarrow> bool \<times> string list hmap" where
  "canon_label_step resolve acc k =
     (let (altered, m) = acc; master = resolve k in
      if master = k then (altered, m)
      else (case hm_get m k of
              None \<Rightarrow> (altered, m)
            | Some ls \<Rightarrow>
                (let m = hm_remove k m;
                     entry = unwrap_or [] (hm_get m master);
                     entry = foldl (\<lambda>e l. if l \<in> set e then e else e @ [l]) entry ls
                 in (True, hm_insert master entry m))))"

definition below_moderator :: "server_state \<Rightarrow> string \<Rightarrow> bool" where
  "below_moderator s m = is_none_or (\<lambda>r. priority r < priority Moderator) (reg_get (roles s) m)"

definition role_may_land :: "server_state \<Rightarrow> string \<Rightarrow> member_role \<Rightarrow> bool" where
  "role_may_land s m role \<longleftrightarrow> current_owner s \<noteq> Some m \<and> role \<noteq> Owner"

definition canonicalize_members :: "(string \<Rightarrow> string) \<Rightarrow> server_state \<Rightarrow> bool \<times> server_state" where
  "canonicalize_members resolve s =
     (let (c1, mem) = foldl (canon_member_step resolve) (False, members s) (map fst (members s));
          (c2, rls) = adopt_lww resolve (role_may_land s) (roles s);
          (c3, nicks) = fold_lww resolve (nicknames s);
          (c4, tw) = fold_lww resolve (twitch_usernames s);
          (c5, pl) = fold_lww resolve (storage_pledges s);
          (c6, bans) = adopt_lww resolve (\<lambda>m _. below_moderator s m) (banned_members s);
          (c7, mutes) = adopt_lww resolve (\<lambda>m _. below_moderator s m) (muted_members s);
          c8 = list_ex (\<lambda>e. fst (fold_lww resolve (snd e))) (channel_grants s);
          gr = hm_map_values (\<lambda>regs. snd (fold_lww resolve regs)) (channel_grants s);
          (c9, la) = foldl (canon_label_step resolve) (False, label_assignments s) (map fst (label_assignments s))
      in (c1 \<or> c2 \<or> c3 \<or> c4 \<or> c5 \<or> c6 \<or> c7 \<or> c8 \<or> c9,
          s\<lparr>members := mem, roles := rls, nicknames := nicks, twitch_usernames := tw, storage_pledges := pl,
            banned_members := bans, muted_members := mutes, channel_grants := gr, label_assignments := la\<rparr>))"

text \<open>What adoption leaves of a map: a register already under its own master, or one that may not land, stays
  as it is, and every register of the result was there before or was adopted from a device of that master.\<close>

definition adopted_from ::
  "(string \<Rightarrow> string) \<Rightarrow> (string \<Rightarrow> 'v \<Rightarrow> bool) \<Rightarrow> 'v admin_lww_reg hmap \<Rightarrow> 'v admin_lww_reg hmap \<Rightarrow> bool" where
  "adopted_from resolve may_land m0 m \<longleftrightarrow>
     (\<forall>k reg. hm_get m0 k = Some reg \<longrightarrow> resolve k = k \<or> \<not> may_land (resolve k) (lww_read reg) \<longrightarrow> hm_get m k = Some reg)
     \<and> (\<forall>k reg. hm_get m k = Some reg \<longrightarrow> hm_get m0 k = Some reg
           \<or> (\<exists>d. resolve d = k \<and> d \<noteq> k \<and> hm_get m0 d = Some reg \<and> may_land k (lww_read reg)))"

lemma adopt_loop:
  assumes "distinct ks" and "\<And>k. k \<in> set ks \<Longrightarrow> hm_get m0 k \<noteq> None"
    and "\<And>k. k \<in> set ks \<Longrightarrow> hm_get m k = hm_get m0 k" and "adopted_from resolve may_land m0 m"
  shows "adopted_from resolve may_land m0 (snd (foldl (adopt_step resolve may_land) (b, m) ks))"
  using assms
proof (induction ks arbitrary: b m)
  case (Cons k ks)
  show ?case
  proof (cases "resolve k = k \<or> hm_has m (resolve k) \<or> \<not> is_some_and (\<lambda>reg. may_land (resolve k) (lww_read reg)) (hm_get m k)")
    case True
    then have "adopt_step resolve may_land (b, m) k = (b, m)"
      by (auto simp: adopt_step_def Let_def split: option.split)
    with Cons show ?thesis by simp
  next
    case False
    then obtain reg where reg: "hm_get m k = Some reg" "may_land (resolve k) (lww_read reg)"
      and nk: "resolve k \<noteq> k" and gone: "hm_get m (resolve k) = None"
      by (auto simp: is_some_and_iff hm_has_def)
    let ?m = "hm_insert (resolve k) reg (hm_remove k m)"
    have step: "adopt_step resolve may_land (b, m) k = (True, ?m)"
      using reg nk gone by (simp add: adopt_step_def Let_def hm_has_def)
    have orig: "hm_get m0 k = Some reg" using Cons.prems(3) [of k] reg(1) by simp
    have "hm_get ?m j = hm_get m0 j" if "j \<in> set ks" for j
    proof -
      have "j \<noteq> k" using that Cons.prems(1) by auto
      moreover have "j \<noteq> resolve k" using that Cons.prems(2,3) [of j] gone by auto
      ultimately show ?thesis using that Cons.prems(3) [of j] by simp
    qed
    moreover have "adopted_from resolve may_land m0 ?m"
      using Cons.prems(4) orig reg(2) nk gone unfolding adopted_from_def by auto
    ultimately show ?thesis
      using Cons.IH [of ?m True] Cons.prems(1,2) by (simp add: step)
  qed
qed simp

lemma adopt_lww_from: "hm_wf m \<Longrightarrow> adopted_from resolve may_land m (snd (adopt_lww resolve may_land m))"
  unfolding adopt_lww_def
  by (rule adopt_loop) (auto simp: hm_wf_def adopted_from_def map_of_eq_None_iff)

text \<open>Keys of the members map: \<open>done\<close> already moved, \<open>ks\<close> still to come.\<close>

lemma canon_member_loop:
  assumes "\<And>d. resolve (resolve d) = resolve d" and "distinct ks"
    and "\<And>k. hm_has m k \<longleftrightarrow> k \<in> set ks \<or> (\<exists>d \<in> moved. resolve d = k)" and "moved \<inter> set ks = {}"
  shows "hm_has (snd (foldl (canon_member_step resolve) (b, m) ks)) k \<longleftrightarrow> (\<exists>d \<in> moved \<union> set ks. resolve d = k)"
  using assms(2-)
proof (induction ks arbitrary: b m moved)
  case (Cons j ks)
  let ?m = "snd (canon_member_step resolve (b, m) j)"
  have j: "hm_has m j" using Cons.prems(2) [of j] by simp
  have has: "hm_has ?m k \<longleftrightarrow> k \<in> set ks \<or> (\<exists>d \<in> insert j moved. resolve d = k)" for k
  proof (cases "resolve j = j")
    case True
    then show ?thesis using Cons.prems(2) [of k] by (auto simp: canon_member_step_def Let_def)
  next
    case False
    from j obtain info where "hm_get m j = Some info" by (auto simp: hm_has_def)
    then have "hm_has ?m k \<longleftrightarrow> k = resolve j \<or> k \<noteq> j \<and> hm_has m k"
      using False by (auto simp: canon_member_step_def Let_def hm_has_def hm_or_insert_get)
    moreover have "resolve d \<noteq> j" for d using assms(1) [of d] False by metis
    ultimately show ?thesis using Cons.prems(1) Cons.prems(2) [of k] by auto
  qed
  have "hm_has (snd (foldl (canon_member_step resolve) (fst (canon_member_step resolve (b, m) j), ?m) ks)) k
      \<longleftrightarrow> (\<exists>d \<in> insert j moved \<union> set ks. resolve d = k)"
    by (rule Cons.IH) (use Cons.prems(1,3) has in auto)
  then show ?case by simp
qed simp

lemma canonicalize_fields:
  fixes resolve s
  defines "s' \<equiv> snd (canonicalize_members resolve s)"
  shows "members s' = snd (foldl (canon_member_step resolve) (False, members s) (map fst (members s)))"
    "roles s' = snd (adopt_lww resolve (role_may_land s) (roles s))"
    "banned_members s' = snd (adopt_lww resolve (\<lambda>m _. below_moderator s m) (banned_members s))"
    "muted_members s' = snd (adopt_lww resolve (\<lambda>m _. below_moderator s m) (muted_members s))"
  by (simp_all add: s'_def canonicalize_members_def Let_def split_beta)

lemma adopted_keeps:
  assumes "adopted_from resolve may_land m0 m" and "resolve k = k" and "hm_has m0 k"
  shows "hm_get m k = hm_get m0 k"
  using assms by (auto simp: adopted_from_def hm_has_def)

lemma adopted_source:
  "adopted_from resolve may_land m0 m \<Longrightarrow> hm_get m k = Some reg \<Longrightarrow>
     hm_get m0 k = Some reg \<or> (\<exists>d. resolve d = k \<and> d \<noteq> k \<and> hm_get m0 d = Some reg \<and> may_land k (lww_read reg))"
  by (simp add: adopted_from_def)

lemma adopted_lands:
  assumes "adopted_from resolve (\<lambda>k _. P k) m0 m" and "hm_has m k" and "\<not> hm_has m0 k"
  shows "P k"
proof -
  from assms(2) obtain reg where "hm_get m k = Some reg" by (auto simp: hm_has_def)
  from adopted_source [OF assms(1) this] assms(3) show ?thesis by (auto simp: hm_has_def)
qed

lemma adopted_owners:
  assumes "adopted_from resolve (role_may_land s) (roles s) m"
  shows "reg_get m k = Some Owner \<longleftrightarrow> reg_get (roles s) k = Some Owner"
proof
  assume "reg_get m k = Some Owner"
  then obtain reg where reg: "hm_get m k = Some reg" "lww_read reg = Owner" by auto
  from adopted_source [OF assms reg(1)] reg(2) show "reg_get (roles s) k = Some Owner" by (auto simp: role_may_land_def)
next
  assume "reg_get (roles s) k = Some Owner"
  with assms show "reg_get m k = Some Owner" by (auto simp: adopted_from_def role_may_land_def)
qed


text \<open>The device \<open>dev\<close> of \<open>mas\<close>, keyed by device: a Moderator, and banned.\<close>

definition device_keyed :: server_state where
  "device_keyed = (skeleton ''srv'')\<lparr>members := [(''dev'', \<lparr>mi_peer_id = ''dev'', mi_display_name = ''d''\<rparr>)],
     roles := [(''dev'', lww_new Moderator (sample_stamp 1 ''own'') 3)],
     banned_members := [(''dev'', lww_new True (sample_stamp 2 ''own'') 3)]\<rparr>"

definition sample_resolve :: "string \<Rightarrow> string" where
  "sample_resolve d = (if d = ''dev'' then ''mas'' else d)"


text \<open>The rank a ban is checked against is read before the roles are folded: a ban and the Moderator role of
  one device land on its master together.\<close>

theorem ban_lands_on_moderator:
  "let s' = snd (canonicalize_members sample_resolve device_keyed) in
   reg_get (roles s') ''mas'' = Some Moderator \<and> reg_get (banned_members s') ''mas'' = Some True"
  by (simp add: Let_def canonicalize_fields device_keyed_def skeleton_def adopt_lww_def adopt_step_def sample_resolve_def
      hm_has_def role_may_land_def current_owner_def below_moderator_def lww_read_def lww_new_def)

end
