(* ===== verification/Roster.thy ===== *)
theory Roster
  imports JoinLock Slices
begin

text \<open>
  The roster (\<open>identity/roster.rs\<close>): which devices are one identity's. The seven kinds of signed statements
  with the order Rust derives for them, the payloads they sign, signing and checking, the merge of two
  rosters, compaction under the ceilings, the fold that says who belongs now, and the digest. A
  \<open>BTreeSet<String>\<close> is a set, a \<open>BTreeMap\<close> that is only looked up a map, milliseconds (\<open>i64\<close>) are integers
  whose additions saturate as written. The JSON writer is serde's, a field of \<open>roster_env\<close>.
\<close>

section \<open>Statements\<close>

definition i64_MAX :: int where "i64_MAX = 2 ^ 63 - 1"

definition saturating_add_i64 :: "int \<Rightarrow> int \<Rightarrow> int" where
  "saturating_add_i64 a b = max (- (2 ^ 63)) (min i64_MAX (a + b))"

definition LEGACY_BASE :: string where "LEGACY_BASE = ''legacy''"

definition PENDING_MATURITY_MS :: int where "PENDING_MATURITY_MS = 7 * 24 * 60 * 60 * 1000"

definition MAX_FUTURE_SKEW_MS :: int where "MAX_FUTURE_SKEW_MS = 10 * 60 * 1000"

definition UPGRADE_RECOVERY_AT_MS :: int where "UPGRADE_RECOVERY_AT_MS = 1577836800000"

definition MAX_VOUCHES :: nat where "MAX_VOUCHES = 128"

definition MAX_REMOVALS :: nat where "MAX_REMOVALS = 96"

definition MAX_REMOVAL_KEEP :: nat where "MAX_REMOVAL_KEEP = 16"

definition MAX_KEEP :: nat where "MAX_KEEP = 64"

definition MAX_RECOVERY_TIES :: nat where "MAX_RECOVERY_TIES = 4"

definition MAX_PHRASE_ADMITS :: nat where "MAX_PHRASE_ADMITS = 64"

definition MAX_LEGACY :: nat where "MAX_LEGACY = 64"

definition MAX_PENDING :: nat where "MAX_PENDING = 16"

definition MAX_CARRIED_REMOVALS :: nat where "MAX_CARRIED_REMOVALS = 8"

definition MAX_CARRIED_REMOVAL_BYTES :: nat where "MAX_CARRIED_REMOVAL_BYTES = 4096"

definition MAX_CONSENTS :: nat where "MAX_CONSENTS = 96"

definition MAX_UNNAMED_CONSENTS :: nat where "MAX_UNNAMED_CONSENTS = 8"

lemmas roster_caps = MAX_VOUCHES_def MAX_REMOVALS_def MAX_REMOVAL_KEEP_def MAX_KEEP_def MAX_RECOVERY_TIES_def
  MAX_PHRASE_ADMITS_def MAX_LEGACY_def MAX_PENDING_def MAX_CONSENTS_def MAX_UNNAMED_CONSENTS_def

datatype consent = Consent (c_device: string) (c_sig: string)

datatype recovery =
  Recovery (rc_at_ms: int) (rc_keep: "string list") (rc_no_wait: bool) (rc_sig_r: string) (rc_sig_m: string)

datatype phrase_admit =
  PhraseAdmit (pa_at_ms: int) (pa_device: string) (pa_sig_r: string) (pa_sig_m: string)

datatype vouch = Vouch (vo_base: string) (vo_device: string) (vo_by: string) (vo_sig: string)

datatype pending = Pending (pe_base: string) (pe_device: string) (pe_sig_m: string)

datatype legacy_claim = LegacyClaim (lc_device: string) (lc_sig_m: string)

datatype removal =
  Removal (rm_base: string) (rm_device: string) (rm_by: string) (rm_keep_vouched: "string list") (rm_sig: string)

record roster =
  master :: string
  r_pub :: string
  recoveries :: "recovery list"
  phrase_admits :: "phrase_admit list"
  consents :: "consent list"
  vouches :: "vouch list"
  pendings :: "pending list"
  legacy :: "legacy_claim list"
  removals :: "removal list"

record roster_state =
  rs_base :: string
  rs_protected :: bool
  rs_no_wait :: bool
  rs_members :: "string set"
  rs_removed :: "string hmap"
  rs_pending :: "string set"

definition state_is_member :: "string \<Rightarrow> roster_state \<Rightarrow> bool" where
  "state_is_member device s \<longleftrightarrow> device \<in> rs_members s"

record roster_env = crypto +
  removals_json :: "removal list \<Rightarrow> bytes option"
  digest_json :: "string \<Rightarrow> string \<Rightarrow> recovery list \<Rightarrow> phrase_admit list \<Rightarrow> consent list \<Rightarrow> vouch list
     \<Rightarrow> legacy_claim list \<Rightarrow> removal list \<Rightarrow> string"

text \<open>The derived order: field by field, in the order of the declaration.\<close>

definition consent_key :: "consent \<Rightarrow> string \<times> string" where
  "consent_key x = (c_device x, c_sig x)"

definition recovery_key :: "recovery \<Rightarrow> int \<times> string list \<times> bool \<times> string \<times> string" where
  "recovery_key x = (rc_at_ms x, rc_keep x, rc_no_wait x, rc_sig_r x, rc_sig_m x)"

definition phrase_admit_key :: "phrase_admit \<Rightarrow> int \<times> string \<times> string \<times> string" where
  "phrase_admit_key x = (pa_at_ms x, pa_device x, pa_sig_r x, pa_sig_m x)"

definition vouch_key :: "vouch \<Rightarrow> string \<times> string \<times> string \<times> string" where
  "vouch_key x = (vo_base x, vo_device x, vo_by x, vo_sig x)"

definition pending_key :: "pending \<Rightarrow> string \<times> string \<times> string" where
  "pending_key x = (pe_base x, pe_device x, pe_sig_m x)"

definition legacy_key :: "legacy_claim \<Rightarrow> string \<times> string" where
  "legacy_key x = (lc_device x, lc_sig_m x)"

definition removal_key :: "removal \<Rightarrow> string \<times> string \<times> string \<times> string list \<times> string" where
  "removal_key x = (rm_base x, rm_device x, rm_by x, rm_keep_vouched x, rm_sig x)"

lemma statement_keys [simp]:
  "consent_key a = consent_key a' \<longleftrightarrow> a = a'"
  "recovery_key b = recovery_key b' \<longleftrightarrow> b = b'"
  "phrase_admit_key c = phrase_admit_key c' \<longleftrightarrow> c = c'"
  "vouch_key d = vouch_key d' \<longleftrightarrow> d = d'"
  "pending_key e = pending_key e' \<longleftrightarrow> e = e'"
  "legacy_key f = legacy_key f' \<longleftrightarrow> f = f'"
  "removal_key g = removal_key g' \<longleftrightarrow> g = g'"
  by (auto simp: consent_key_def recovery_key_def phrase_admit_key_def vouch_key_def
      pending_key_def legacy_key_def removal_key_def
      intro: consent.expand recovery.expand phrase_admit.expand vouch.expand pending.expand legacy_claim.expand removal.expand)

instantiation consent :: linorder
begin

definition less_consent :: "consent \<Rightarrow> consent \<Rightarrow> bool" where
  "less_consent a b \<longleftrightarrow> consent_key a < consent_key b"

definition less_eq_consent :: "consent \<Rightarrow> consent \<Rightarrow> bool" where
  "less_eq_consent a b \<longleftrightarrow> consent_key a \<le> consent_key b"

instance
  by standard (auto simp: less_consent_def less_eq_consent_def order.strict_iff_order)

end

instantiation recovery :: linorder
begin

definition less_recovery :: "recovery \<Rightarrow> recovery \<Rightarrow> bool" where
  "less_recovery a b \<longleftrightarrow> recovery_key a < recovery_key b"

definition less_eq_recovery :: "recovery \<Rightarrow> recovery \<Rightarrow> bool" where
  "less_eq_recovery a b \<longleftrightarrow> recovery_key a \<le> recovery_key b"

instance
  by standard (auto simp: less_recovery_def less_eq_recovery_def order.strict_iff_order)

end

instantiation phrase_admit :: linorder
begin

definition less_phrase_admit :: "phrase_admit \<Rightarrow> phrase_admit \<Rightarrow> bool" where
  "less_phrase_admit a b \<longleftrightarrow> phrase_admit_key a < phrase_admit_key b"

definition less_eq_phrase_admit :: "phrase_admit \<Rightarrow> phrase_admit \<Rightarrow> bool" where
  "less_eq_phrase_admit a b \<longleftrightarrow> phrase_admit_key a \<le> phrase_admit_key b"

instance
  by standard (auto simp: less_phrase_admit_def less_eq_phrase_admit_def order.strict_iff_order)

end

instantiation vouch :: linorder
begin

definition less_vouch :: "vouch \<Rightarrow> vouch \<Rightarrow> bool" where
  "less_vouch a b \<longleftrightarrow> vouch_key a < vouch_key b"

definition less_eq_vouch :: "vouch \<Rightarrow> vouch \<Rightarrow> bool" where
  "less_eq_vouch a b \<longleftrightarrow> vouch_key a \<le> vouch_key b"

instance
  by standard (auto simp: less_vouch_def less_eq_vouch_def order.strict_iff_order)

end

instantiation pending :: linorder
begin

definition less_pending :: "pending \<Rightarrow> pending \<Rightarrow> bool" where
  "less_pending a b \<longleftrightarrow> pending_key a < pending_key b"

definition less_eq_pending :: "pending \<Rightarrow> pending \<Rightarrow> bool" where
  "less_eq_pending a b \<longleftrightarrow> pending_key a \<le> pending_key b"

instance
  by standard (auto simp: less_pending_def less_eq_pending_def order.strict_iff_order)

end

instantiation legacy_claim :: linorder
begin

definition less_legacy_claim :: "legacy_claim \<Rightarrow> legacy_claim \<Rightarrow> bool" where
  "less_legacy_claim a b \<longleftrightarrow> legacy_key a < legacy_key b"

definition less_eq_legacy_claim :: "legacy_claim \<Rightarrow> legacy_claim \<Rightarrow> bool" where
  "less_eq_legacy_claim a b \<longleftrightarrow> legacy_key a \<le> legacy_key b"

instance
  by standard (auto simp: less_legacy_claim_def less_eq_legacy_claim_def order.strict_iff_order)

end

instantiation removal :: linorder
begin

definition less_removal :: "removal \<Rightarrow> removal \<Rightarrow> bool" where
  "less_removal a b \<longleftrightarrow> removal_key a < removal_key b"

definition less_eq_removal :: "removal \<Rightarrow> removal \<Rightarrow> bool" where
  "less_eq_removal a b \<longleftrightarrow> removal_key a \<le> removal_key b"

instance
  by standard (auto simp: less_removal_def less_eq_removal_def order.strict_iff_order)

end

section \<open>Payloads, signing, checking\<close>

definition sorted_ids :: "string list \<Rightarrow> string list" where
  "sorted_ids v = remdups_adj (sort v)"

definition consent_payload :: "string \<Rightarrow> string \<Rightarrow> string" where
  "consent_payload m device = ''hollow-id1-join:'' @ m @ '':'' @ device"

definition recovery_payload :: "string \<Rightarrow> string \<Rightarrow> int \<Rightarrow> string list \<Rightarrow> bool \<Rightarrow> string" where
  "recovery_payload m rp at_ms keep no_wait =
     ''hollow-id1-recovery:'' @ m @ '':'' @ rp @ '':'' @ show_int at_ms @ '':'' @ join_comma (sorted_ids keep)
       @ (if no_wait then '':nowait'' else [])"

definition phrase_admit_payload :: "string \<Rightarrow> string \<Rightarrow> int \<Rightarrow> string \<Rightarrow> string" where
  "phrase_admit_payload m rp at_ms device =
     ''hollow-id1-radmit:'' @ m @ '':'' @ rp @ '':'' @ show_int at_ms @ '':'' @ device"

definition vouch_payload :: "string \<Rightarrow> string \<Rightarrow> string \<Rightarrow> string" where
  "vouch_payload m base device = ''hollow-id1-admit:'' @ m @ '':'' @ base @ '':'' @ device"

definition pending_payload :: "string \<Rightarrow> string \<Rightarrow> string \<Rightarrow> string" where
  "pending_payload m base device = ''hollow-id1-pending:'' @ m @ '':'' @ base @ '':'' @ device"

definition legacy_payload :: "string \<Rightarrow> string \<Rightarrow> string" where
  "legacy_payload m device = ''hollow-id1-legacy:'' @ m @ '':'' @ device"

definition removal_payload :: "string \<Rightarrow> string \<Rightarrow> string \<Rightarrow> string list \<Rightarrow> string" where
  "removal_payload m base device keep_vouched =
     ''hollow-id1-remove:'' @ m @ '':'' @ base @ '':'' @ device @ '':'' @ join_comma (sorted_ids keep_vouched)"

definition base_id :: "('a) crypto_scheme \<Rightarrow> string \<Rightarrow> string \<Rightarrow> recovery \<Rightarrow> string" where
  "base_id C m rp rc =
     (let payload = recovery_payload m rp (rc_at_ms rc) (rc_keep rc) (rc_no_wait rc)
      in hex_encode C (take 16 (sha256 C payload)))"

definition is_base_shape :: "string \<Rightarrow> bool" where
  "is_base_shape base \<longleftrightarrow>
     base = LEGACY_BASE
     \<or> length base = 32 \<and> list_all (\<lambda>b. is_ascii_hexdigit b \<and> \<not> is_ascii_uppercase b) base"

definition key_of :: "('a) crypto_scheme \<Rightarrow> string \<Rightarrow> bytes option" where
  "key_of C i = pubkey_from_peer_id C i"

definition id_ok :: "('a) crypto_scheme \<Rightarrow> string \<Rightarrow> bool" where
  "id_ok C d \<longleftrightarrow> key_of C d \<noteq> None"

definition verify_text :: "('a) crypto_scheme \<Rightarrow> bytes \<Rightarrow> string \<Rightarrow> string \<Rightarrow> bool" where
  "verify_text C pubkey payload sig_b64 =
     (case b64_decode C sig_b64 of
        None \<Rightarrow> False
      | Some sig \<Rightarrow>
          if length sig \<noteq> 64 then False
          else if ed_key_error C pubkey \<noteq> None then False
          else ed_verify_strict C pubkey sig payload)"

definition verify_by :: "('a) crypto_scheme \<Rightarrow> string \<Rightarrow> string \<Rightarrow> string \<Rightarrow> bool" where
  "verify_by C i payload sig_b64 = is_some_and (\<lambda>k. verify_text C k payload sig_b64) (key_of C i)"

definition sign_text :: "('a) crypto_scheme \<Rightarrow> native_keypair \<Rightarrow> string \<Rightarrow> string" where
  "sign_text C kp payload = b64_encode C (kp_sign C kp payload)"

definition r_pub_of :: "('a) crypto_scheme \<Rightarrow> native_keypair \<Rightarrow> string" where
  "r_pub_of C rkp = b64_encode C (ed_public C (signing_key rkp))"

definition sign_consent :: "('a) crypto_scheme \<Rightarrow> native_keypair \<Rightarrow> string \<Rightarrow> consent" where
  "sign_consent C device m =
     (let i = peer_id device in Consent i (sign_text C device (consent_payload m i)))"

definition sign_recovery ::
  "('a) crypto_scheme \<Rightarrow> native_keypair \<Rightarrow> native_keypair \<Rightarrow> int \<Rightarrow> string list \<Rightarrow> bool \<Rightarrow> recovery" where
  "sign_recovery C mkp rkp at_ms keep no_wait =
     (let payload = recovery_payload (peer_id mkp) (r_pub_of C rkp) at_ms keep no_wait
      in Recovery at_ms (sorted_ids keep) no_wait (sign_text C rkp payload) (sign_text C mkp payload))"

definition sign_phrase_admit ::
  "('a) crypto_scheme \<Rightarrow> native_keypair \<Rightarrow> native_keypair \<Rightarrow> int \<Rightarrow> string \<Rightarrow> phrase_admit" where
  "sign_phrase_admit C mkp rkp at_ms device =
     (let payload = phrase_admit_payload (peer_id mkp) (r_pub_of C rkp) at_ms device
      in PhraseAdmit at_ms device (sign_text C rkp payload) (sign_text C mkp payload))"

definition sign_upgrade_recovery :: "('a) crypto_scheme \<Rightarrow> native_keypair \<Rightarrow> native_keypair \<Rightarrow> recovery" where
  "sign_upgrade_recovery C mkp rkp = sign_recovery C mkp rkp UPGRADE_RECOVERY_AT_MS [peer_id rkp] False"

definition sign_upgrade_admit ::
  "('a) crypto_scheme \<Rightarrow> native_keypair \<Rightarrow> native_keypair \<Rightarrow> string \<Rightarrow> phrase_admit" where
  "sign_upgrade_admit C mkp rkp device = sign_phrase_admit C mkp rkp (UPGRADE_RECOVERY_AT_MS + 1) device"

definition sign_vouch :: "('a) crypto_scheme \<Rightarrow> native_keypair \<Rightarrow> string \<Rightarrow> string \<Rightarrow> string \<Rightarrow> vouch" where
  "sign_vouch C by_kp m base device =
     Vouch base device (peer_id by_kp) (sign_text C by_kp (vouch_payload m base device))"

definition sign_pending :: "('a) crypto_scheme \<Rightarrow> native_keypair \<Rightarrow> string \<Rightarrow> string \<Rightarrow> pending" where
  "sign_pending C mkp base device =
     Pending base device (sign_text C mkp (pending_payload (peer_id mkp) base device))"

definition sign_legacy :: "('a) crypto_scheme \<Rightarrow> native_keypair \<Rightarrow> string \<Rightarrow> legacy_claim" where
  "sign_legacy C mkp device = LegacyClaim device (sign_text C mkp (legacy_payload (peer_id mkp) device))"

definition sign_removal ::
  "('a) crypto_scheme \<Rightarrow> native_keypair \<Rightarrow> string \<Rightarrow> string \<Rightarrow> string \<Rightarrow> string list \<Rightarrow> removal" where
  "sign_removal C by_kp m base device keep_vouched =
     Removal base device (peer_id by_kp) (sorted_ids keep_vouched)
       (sign_text C by_kp (removal_payload m base device keep_vouched))"

definition removal_verifies :: "('a) crypto_scheme \<Rightarrow> string \<Rightarrow> removal \<Rightarrow> bool" where
  "removal_verifies C m r =
     (let keep = sorted_ids (rm_keep_vouched r) in
      is_base_shape (rm_base r) \<and> id_ok C (rm_device r) \<and> keep = rm_keep_vouched r
      \<and> length keep \<le> MAX_REMOVAL_KEEP \<and> list_all (id_ok C) keep
      \<and> verify_by C (rm_by r) (removal_payload m (rm_base r) (rm_device r) keep) (rm_sig r))"

definition carried_fits :: "('a) roster_env_scheme \<Rightarrow> removal list \<Rightarrow> bool" where
  "carried_fits E rm \<longleftrightarrow>
     length rm \<le> MAX_CARRIED_REMOVALS
     \<and> is_some_and (\<lambda>b. length b \<le> MAX_CARRIED_REMOVAL_BYTES) (removals_json E rm)"

section \<open>Growing a set along vouches\<close>

text \<open>The loop of \<open>vouch_closure\<close> and of the fold: passes over the vouches until a pass adds nobody. \<open>ok\<close> is
  the condition the fold puts on a vouch and \<open>vouch_closure\<close> does not.\<close>

definition vouch_pass :: "(vouch \<Rightarrow> bool) \<Rightarrow> vouch list \<Rightarrow> string set \<Rightarrow> string set" where
  "vouch_pass ok vs seed =
     foldl (\<lambda>seed v. if vo_by v \<in> seed \<and> ok v then insert (vo_device v) seed else seed) seed vs"

lemma vouch_pass_simps [simp]:
  "vouch_pass ok [] seed = seed"
  "vouch_pass ok (v # vs) seed =
     vouch_pass ok vs (if vo_by v \<in> seed \<and> ok v then insert (vo_device v) seed else seed)"
  by (simp_all add: vouch_pass_def)

lemma vouch_pass_bounds: "seed \<subseteq> vouch_pass ok vs seed \<and> vouch_pass ok vs seed \<subseteq> seed \<union> vo_device ` set vs"
proof (induction vs arbitrary: seed)
  case (Cons v vs)
  from Cons.IH [of "if vo_by v \<in> seed \<and> ok v then insert (vo_device v) seed else seed"]
  show ?case by (auto split: if_splits)
qed simp

function vouch_grow :: "(vouch \<Rightarrow> bool) \<Rightarrow> vouch list \<Rightarrow> string set \<Rightarrow> string set" where
  "vouch_grow ok vs seed =
     (let seed' = vouch_pass ok vs seed in if card seed' = card seed then seed' else vouch_grow ok vs seed')"
  by pat_completeness auto
termination
proof (relation "measure (\<lambda>(_, vs, seed). card (vo_device ` set vs - seed))")
  fix ok vs seed seed'
  assume d: "seed' = vouch_pass ok vs seed" and grew: "card seed' \<noteq> card seed"
  from vouch_pass_bounds [of seed ok vs] d have sub: "seed \<subseteq> seed'" "seed' \<subseteq> seed \<union> vo_device ` set vs" by auto
  moreover from grew have "seed' \<noteq> seed" by auto
  ultimately obtain x where x: "x \<in> seed'" "x \<notin> seed" by blast
  with sub have "vo_device ` set vs - seed' \<subset> vo_device ` set vs - seed" by blast
  then show "((ok, vs, seed'), (ok, vs, seed)) \<in> measure (\<lambda>(_, vs, seed). card (vo_device ` set vs - seed))"
    by (simp add: psubset_card_mono)
qed simp

declare vouch_grow.simps [simp del]

definition vouch_closure :: "string set \<Rightarrow> vouch list \<Rightarrow> string set" where
  "vouch_closure seed vs = vouch_grow (\<lambda>_. True) vs seed"

definition push_unique :: "'a::linorder list \<Rightarrow> 'a list \<Rightarrow> 'a list" where
  "push_unique into from = remdups_adj (sort (into @ from))"

definition sort_cap :: "'a::linorder list \<Rightarrow> nat \<Rightarrow> 'a list" where
  "sort_cap v cap = take cap (remdups_adj (sort v))"

definition list_min :: "'a::linorder list \<Rightarrow> 'a option" where
  "list_min xs = (case xs of [] \<Rightarrow> None | x # ys \<Rightarrow> Some (foldl min x ys))"

section \<open>The current base and who stands in it\<close>

type_synonym rank = "nat \<times> nat \<times> string"

record current =
  cu_base :: string
  cu_at :: int
  cu_keep :: "string set"
  cu_no_wait :: bool

definition new_roster :: "string \<Rightarrow> roster" where
  "new_roster m = \<lparr>master = m, r_pub = [], recoveries = [], phrase_admits = [], consents = [], vouches = [],
     pendings = [], legacy = [], removals = []\<rparr>"

definition roster_genesis ::
  "('a) crypto_scheme \<Rightarrow> native_keypair \<Rightarrow> native_keypair \<Rightarrow> native_keypair \<Rightarrow> int \<Rightarrow> roster" where
  "roster_genesis C mkp rkp device now_ms =
     (new_roster (peer_id mkp))
       \<lparr>r_pub := r_pub_of C rkp, consents := [sign_consent C device (peer_id mkp)],
        recoveries := [sign_recovery C mkp rkp now_ms [peer_id device] False]\<rparr>"

definition r_key :: "('a) crypto_scheme \<Rightarrow> roster \<Rightarrow> bytes option" where
  "r_key C r = opt_filter (\<lambda>bs. length bs = 32) (b64_decode C (r_pub r))"

definition current_recovery :: "('a) crypto_scheme \<Rightarrow> roster \<Rightarrow> current option" where
  "current_recovery C r =
     (case list_max (map rc_at_ms (recoveries r)) of
        None \<Rightarrow> None
      | Some at_ms \<Rightarrow>
          (let ties = filter (\<lambda>rc. rc_at_ms rc = at_ms) (recoveries r) in
           case list_min (map (base_id C (master r) (r_pub r)) ties) of
             None \<Rightarrow> None
           | Some base \<Rightarrow>
               Some \<lparr>cu_base = base, cu_at = at_ms, cu_keep = \<Union> ((set \<circ> rc_keep) ` set ties),
                     cu_no_wait = list_ex rc_no_wait ties\<rparr>))"

definition within_caps :: "roster \<Rightarrow> bool" where
  "within_caps r \<longleftrightarrow>
     length (recoveries r) \<le> MAX_RECOVERY_TIES \<and> length (phrase_admits r) \<le> MAX_PHRASE_ADMITS
     \<and> length (consents r) \<le> MAX_CONSENTS \<and> length (vouches r) \<le> MAX_VOUCHES
     \<and> length (pendings r) \<le> MAX_PENDING \<and> length (legacy r) \<le> MAX_LEGACY
     \<and> length (removals r) \<le> MAX_REMOVALS"

definition upgrade_admitted :: "('a) crypto_scheme \<Rightarrow> roster \<Rightarrow> string set" where
  "upgrade_admitted C r =
     (case current_recovery C r of
        Some c \<Rightarrow>
          if cu_at c = UPGRADE_RECOVERY_AT_MS
          then pa_device ` set (filter (\<lambda>p. pa_at_ms p = UPGRADE_RECOVERY_AT_MS + 1) (phrase_admits r))
          else {}
      | None \<Rightarrow> {})"

definition roster_base :: "('a) crypto_scheme \<Rightarrow> roster \<Rightarrow> string" where
  "roster_base C r = unwrap_or LEGACY_BASE (map_option cu_base (current_recovery C r))"

definition base_roots :: "('a) crypto_scheme \<Rightarrow> roster \<Rightarrow> current option \<times> string set" where
  "base_roots C r =
     (case current_recovery C r of
        Some c \<Rightarrow>
          (Some c, cu_keep c \<union> pa_device ` set (filter (\<lambda>p. cu_at c < pa_at_ms p) (phrase_admits r)))
      | None \<Rightarrow> (None, lc_device ` set (legacy r) \<union> pa_device ` set (phrase_admits r)))"

definition consented :: "roster \<Rightarrow> string set" where
  "consented r = c_device ` set (consents r)"

definition next_frontier :: "vouch list \<Rightarrow> (string \<Rightarrow> 'r option) \<Rightarrow> string set \<Rightarrow> string set" where
  "next_frontier vs rank frontier =
     vo_device ` set (filter (\<lambda>v. vo_by v \<in> frontier \<and> rank (vo_device v) = None) vs)"

function rank_loop ::
  "nat \<Rightarrow> vouch list \<Rightarrow> string set \<Rightarrow> nat \<Rightarrow> (string \<Rightarrow> (nat \<times> nat) option) \<Rightarrow> string \<Rightarrow> (nat \<times> nat) option" where
  "rank_loop tier vs frontier depth rank =
     (if frontier = {} then rank
      else (let rank' = (\<lambda>d. if d \<in> frontier then Some (tier, depth) else rank d)
            in rank_loop tier vs (next_frontier vs rank' frontier) (depth + 1) rank'))"
  by pat_completeness auto
termination
proof (relation "measure (\<lambda>(_, vs, frontier, _, rank).
    card {d \<in> vo_device ` set vs. rank d = None}
      + (if frontier \<subseteq> {d \<in> vo_device ` set vs. rank d = None} then 0 else 1))")
  fix tier :: nat and vs :: "vouch list" and frontier depth and rank rank' :: "string \<Rightarrow> (nat \<times> nat) option"
  assume ne: "frontier \<noteq> {}" and r': "rank' = (\<lambda>d. if d \<in> frontier then Some (tier, depth) else rank d)"
  let ?open = "\<lambda>r :: string \<Rightarrow> (nat \<times> nat) option. {d \<in> vo_device ` set vs. r d = None}"
  have nx: "next_frontier vs rank' frontier \<subseteq> ?open rank'"
    by (auto simp: next_frontier_def)
  have sub: "?open rank' = ?open rank - frontier"
    by (auto simp: r')
  have "card (?open rank') < card (?open rank) + (if frontier \<subseteq> ?open rank then 0 else 1)"
  proof (cases "frontier \<subseteq> ?open rank")
    case True
    with ne have "?open rank - frontier \<subset> ?open rank" by blast
    then have "card (?open rank - frontier) < card (?open rank)" by (simp add: psubset_card_mono)
    with True sub show ?thesis by simp
  next
    case False
    have "card (?open rank - frontier) \<le> card (?open rank)" by (simp add: card_mono)
    with False sub show ?thesis by simp
  qed
  with nx show "((tier, vs, next_frontier vs rank' frontier, depth + 1, rank'), (tier, vs, frontier, depth, rank))
      \<in> measure (\<lambda>(_, vs, frontier, _, rank). card {d \<in> vo_device ` set vs. rank d = None}
          + (if frontier \<subseteq> {d \<in> vo_device ` set vs. rank d = None} then 0 else 1))"
    by simp
qed simp

declare rank_loop.simps [simp del]

text \<open>The two tiers grow one after the other; the sorted vector the code collects into its map is keyed by
  its ids again, which is the map itself.\<close>

definition rank_tier ::
  "nat \<Rightarrow> vouch list \<Rightarrow> string set \<Rightarrow> (string \<Rightarrow> (nat \<times> nat) option) \<Rightarrow> string \<Rightarrow> (nat \<times> nat) option" where
  "rank_tier tier vs seed rank = rank_loop tier vs {d \<in> seed. rank d = None} 0 rank"

definition ranked :: "('a) crypto_scheme \<Rightarrow> bool \<Rightarrow> roster \<Rightarrow> string \<Rightarrow> rank option" where
  "ranked C with_pending r =
     (let roots = snd (base_roots C r);
          vs = filter (\<lambda>v. vo_device v \<in> consented r) (vouches r);
          rank = rank_tier 0 vs {d \<in> roots. d \<in> consented r} Map.empty;
          rank = rank_tier 1 vs {d \<in> pe_device ` set (pendings r). with_pending \<and> d \<in> consented r} rank
      in (\<lambda>d. map_option (\<lambda>(tier, depth). (tier, depth, d)) (rank d)))"

definition standing :: "('a) crypto_scheme \<Rightarrow> roster \<Rightarrow> string \<Rightarrow> rank option" where
  "standing C r = ranked C True r"

section \<open>Compaction\<close>

definition newest_only :: "roster \<Rightarrow> roster" where
  "newest_only r =
     (case list_max (map rc_at_ms (recoveries r)) of
        Some at_ms \<Rightarrow> r\<lparr>recoveries := filter (\<lambda>rc. rc_at_ms rc = at_ms) (recoveries r)\<rparr>
      | None \<Rightarrow> r)"

definition current_only :: "('a) crypto_scheme \<Rightarrow> roster \<Rightarrow> roster" where
  "current_only C r =
     (case current_recovery C r of
        Some c \<Rightarrow>
          r\<lparr>phrase_admits := filter (\<lambda>p. cu_at c < pa_at_ms p) (phrase_admits r), legacy := [],
            vouches := filter (\<lambda>v. vo_base v = cu_base c) (vouches r),
            pendings := filter (\<lambda>p. pe_base p = cu_base c) (pendings r),
            removals := filter (\<lambda>m. rm_base m = cu_base c) (removals r)\<rparr>
      | None \<Rightarrow>
          r\<lparr>vouches := filter (\<lambda>v. vo_base v = LEGACY_BASE) (vouches r),
            pendings := filter (\<lambda>p. pe_base p = LEGACY_BASE) (pendings r),
            removals := filter (\<lambda>m. rm_base m = LEGACY_BASE) (removals r)\<rparr>)"

definition sort_capped :: "roster \<Rightarrow> roster" where
  "sort_capped r =
     r\<lparr>phrase_admits := sort_cap (phrase_admits r) MAX_PHRASE_ADMITS, legacy := sort_cap (legacy r) MAX_LEGACY,
       pendings := sort_cap (pendings r) MAX_PENDING,
       consents := dedup_by (\<lambda>a b. c_device a = c_device b) (sort (consents r))\<rparr>"

fun best_first :: "(string \<Rightarrow> rank option) \<Rightarrow> string set \<Rightarrow> vouch list \<Rightarrow> vouch list \<times> vouch list" where
  "best_first st best [] = ([], [])"
| "best_first st best (v # vs) =
     (if st (vo_device v) \<noteq> None \<and> vo_device v \<notin> best
      then (let (tree, rest) = best_first st (insert (vo_device v) best) vs in (v # tree, rest))
      else (let (tree, rest) = best_first st best vs in (tree, v # rest)))"

definition compact_vouches :: "(string \<Rightarrow> rank option) \<Rightarrow> vouch list \<Rightarrow> vouch list" where
  "compact_vouches st vs =
     (let vs = remdups_adj (sort (filter (\<lambda>v. st (vo_by v) \<noteq> None) vs));
          vs = sort_key (\<lambda>v. (st (vo_by v), v)) vs;
          (tree, rest) = best_first st {} vs
      in sort (take MAX_VOUCHES (tree @ rest)))"

definition compact_removals :: "(string \<Rightarrow> rank option) \<Rightarrow> removal list \<Rightarrow> removal list" where
  "compact_removals st rms =
     (let rms = remdups_adj (sort (filter (\<lambda>m. st (rm_by m) \<noteq> None) rms));
          rms = sort_key (\<lambda>m. (st (rm_by m), m)) rms
      in sort (take MAX_REMOVALS rms))"

definition mentioned :: "roster \<Rightarrow> string set" where
  "mentioned r =
     \<Union> ((set \<circ> rc_keep) ` set (recoveries r)) \<union> pa_device ` set (phrase_admits r)
     \<union> pe_device ` set (pendings r) \<union> lc_device ` set (legacy r) \<union> vo_device ` set (vouches r)
     \<union> rm_device ` set (removals r)"

definition consent_class :: "(string \<Rightarrow> rank option) \<Rightarrow> string set \<Rightarrow> consent \<Rightarrow> nat \<times> rank option" where
  "consent_class st named c =
     (case st (c_device c) of
        Some k \<Rightarrow> (0, Some k)
      | None \<Rightarrow> if c_device c \<in> named then (1, None) else (2, None))"

fun retain_unnamed :: "(consent \<Rightarrow> bool) \<Rightarrow> nat \<Rightarrow> consent list \<Rightarrow> consent list" where
  "retain_unnamed named unnamed [] = []"
| "retain_unnamed named unnamed (c # cs) =
     (if named c then c # retain_unnamed named unnamed cs
      else if unnamed + 1 \<le> MAX_UNNAMED_CONSENTS then c # retain_unnamed named (unnamed + 1) cs
      else retain_unnamed named (unnamed + 1) cs)"

definition compact_consents :: "(string \<Rightarrow> rank option) \<Rightarrow> string set \<Rightarrow> consent list \<Rightarrow> consent list" where
  "compact_consents st named cs =
     (let cls = consent_class st named;
          cs = sort_key (\<lambda>c. (cls c, c)) cs;
          cs = retain_unnamed (\<lambda>c. fst (cls c) < 2) 0 cs
      in sort (take MAX_CONSENTS cs))"

definition narrowed :: "('a) crypto_scheme \<Rightarrow> roster \<Rightarrow> roster" where
  "narrowed C r =
     (let r = newest_only r;
          r = r\<lparr>recoveries := sort_cap (recoveries r) MAX_RECOVERY_TIES\<rparr>
      in sort_capped (current_only C r))"

definition compacted :: "('a) crypto_scheme \<Rightarrow> roster \<Rightarrow> roster" where
  "compacted C r =
     (let r = narrowed C r;
          st = standing C r;
          r = r\<lparr>vouches := compact_vouches st (vouches r), removals := compact_removals st (removals r)\<rparr>
      in r\<lparr>consents := compact_consents st (mentioned r) (consents r)\<rparr>)"

section \<open>Checking and merging\<close>

definition recovery_checks :: "('a) crypto_scheme \<Rightarrow> string \<Rightarrow> string \<Rightarrow> bytes \<Rightarrow> bytes \<Rightarrow> (int \<Rightarrow> bool) \<Rightarrow> recovery \<Rightarrow> bool" where
  "recovery_checks C m rp rk mk fresh rc =
     (let keep = sorted_ids (rc_keep rc) in
      fresh (rc_at_ms rc) \<and> keep = rc_keep rc \<and> keep \<noteq> [] \<and> length keep \<le> MAX_KEEP \<and> list_all (id_ok C) keep
      \<and> (let p = recovery_payload m rp (rc_at_ms rc) keep (rc_no_wait rc)
         in verify_text C rk p (rc_sig_r rc) \<and> verify_text C mk p (rc_sig_m rc)))"

definition phrase_admit_checks :: "('a) crypto_scheme \<Rightarrow> string \<Rightarrow> string \<Rightarrow> bytes \<Rightarrow> bytes \<Rightarrow> (int \<Rightarrow> bool) \<Rightarrow> phrase_admit \<Rightarrow> bool" where
  "phrase_admit_checks C m rp rk mk fresh pa \<longleftrightarrow>
     fresh (pa_at_ms pa) \<and> id_ok C (pa_device pa)
     \<and> (let p = phrase_admit_payload m rp (pa_at_ms pa) (pa_device pa)
        in verify_text C rk p (pa_sig_r pa) \<and> verify_text C mk p (pa_sig_m pa))"

definition consent_checks :: "('a) crypto_scheme \<Rightarrow> string \<Rightarrow> consent \<Rightarrow> bool" where
  "consent_checks C m c = verify_by C (c_device c) (consent_payload m (c_device c)) (c_sig c)"

definition vouch_checks :: "('a) crypto_scheme \<Rightarrow> string \<Rightarrow> vouch \<Rightarrow> bool" where
  "vouch_checks C m v \<longleftrightarrow>
     is_base_shape (vo_base v) \<and> id_ok C (vo_device v) \<and> vo_device v \<noteq> vo_by v
     \<and> verify_by C (vo_by v) (vouch_payload m (vo_base v) (vo_device v)) (vo_sig v)"

definition pending_checks :: "('a) crypto_scheme \<Rightarrow> string \<Rightarrow> bytes \<Rightarrow> pending \<Rightarrow> bool" where
  "pending_checks C m mk p \<longleftrightarrow>
     is_base_shape (pe_base p) \<and> id_ok C (pe_device p)
     \<and> verify_text C mk (pending_payload m (pe_base p) (pe_device p)) (pe_sig_m p)"

definition legacy_checks :: "('a) crypto_scheme \<Rightarrow> string \<Rightarrow> bytes \<Rightarrow> legacy_claim \<Rightarrow> bool" where
  "legacy_checks C m mk l \<longleftrightarrow> id_ok C (lc_device l) \<and> verify_text C mk (legacy_payload m (lc_device l)) (lc_sig_m l)"

definition checked :: "('a) crypto_scheme \<Rightarrow> int option \<Rightarrow> roster \<Rightarrow> roster" where
  "checked C now_ms r =
     (case key_of C (master r) of
        None \<Rightarrow> new_roster []
      | Some mk \<Rightarrow>
          (let m = master r;
               fresh = (\<lambda>at_ms. is_none_or (\<lambda>now. at_ms \<le> saturating_add_i64 now MAX_FUTURE_SKEW_MS) now_ms);
               out = new_roster m;
               out = (case r_key C r of
                        None \<Rightarrow> out
                      | Some rk \<Rightarrow>
                          (let out = out\<lparr>recoveries := filter (recovery_checks C m (r_pub r) rk mk fresh) (recoveries r),
                                 phrase_admits := filter (phrase_admit_checks C m (r_pub r) rk mk fresh) (phrase_admits r)\<rparr>
                           in if recoveries out \<noteq> [] \<or> phrase_admits out \<noteq> [] then out\<lparr>r_pub := r_pub r\<rparr> else out));
               out = (if now_ms = None then out\<lparr>r_pub := r_pub r\<rparr> else out)
           in compacted C
                (out\<lparr>consents := filter (consent_checks C m) (consents r),
                     vouches := filter (vouch_checks C m) (vouches r),
                     pendings := filter (pending_checks C m mk) (pendings r),
                     legacy := filter (legacy_checks C m mk) (legacy r),
                     removals := filter (removal_verifies C m) (removals r)\<rparr>)))"

definition verified :: "('a) crypto_scheme \<Rightarrow> int \<Rightarrow> roster \<Rightarrow> roster" where
  "verified C now_ms r = checked C (Some now_ms) r"

definition reverified :: "('a) crypto_scheme \<Rightarrow> roster \<Rightarrow> roster" where
  "reverified C r = checked C None r"

definition merged :: "('a) crypto_scheme \<Rightarrow> roster \<Rightarrow> roster \<Rightarrow> roster" where
  "merged C r incoming =
     (if master r \<noteq> [] \<and> master incoming \<noteq> master r then r
      else
        (let out = r\<lparr>master := master incoming\<rparr>;
             same_key = (r_pub out = [] \<or> r_pub out = r_pub incoming);
             out = (if same_key \<and> r_pub incoming \<noteq> []
                    then out\<lparr>r_pub := r_pub incoming, recoveries := push_unique (recoveries out) (recoveries incoming),
                             phrase_admits := push_unique (phrase_admits out) (phrase_admits incoming)\<rparr>
                    else out)
         in compacted C
              (out\<lparr>consents := push_unique (consents out) (consents incoming),
                   vouches := push_unique (vouches out) (vouches incoming),
                   pendings := push_unique (pendings out) (pendings incoming),
                   legacy := push_unique (legacy out) (legacy incoming),
                   removals := push_unique (removals out) (removals incoming)\<rparr>)))"

definition trim_asks :: "string \<Rightarrow> pending list \<Rightarrow> roster \<Rightarrow> roster" where
  "trim_asks base kept_asks r =
     r\<lparr>pendings := filter (\<lambda>p. pe_base p \<noteq> base \<or> p \<in> set kept_asks) (pendings r)\<rparr>"

definition merged_by_first_sight ::
  "('a) crypto_scheme \<Rightarrow> (string \<Rightarrow> string \<Rightarrow> int option) \<Rightarrow> roster \<Rightarrow> roster \<Rightarrow> roster" where
  "merged_by_first_sight C first_seen r incoming =
     (let both = merged C r incoming in
      if master r \<noteq> [] \<and> master incoming \<noteq> master r then both
      else
        (let base = roster_base C both;
             asks = remdups_adj (sort (filter (\<lambda>p. pe_base p = base) (pendings r @ pendings incoming)))
         in if length asks \<le> MAX_PENDING then both
            else
              (let asks = sort_key (\<lambda>p. (unwrap_or i64_MAX (first_seen (pe_base p) (pe_device p)), p)) asks;
                   kept_asks = take MAX_PENDING asks
               in merged C (trim_asks base kept_asks r) (trim_asks base kept_asks incoming))))"

section \<open>The fold\<close>

record scope =
  sc_base :: string
  sc_no_wait :: bool
  sc_roots :: "string set"
  sc_matured :: "string set"
  sc_vouches :: "vouch list"
  sc_pendings :: "pending list"
  sc_rooted :: "string set"

definition roster_scope :: "('a) crypto_scheme \<Rightarrow> (string \<Rightarrow> int option) \<Rightarrow> int \<Rightarrow> roster \<Rightarrow> scope" where
  "roster_scope C first_seen now_ms r =
     (let (cur, roots) = base_roots C r;
          base = (case cur of None \<Rightarrow> LEGACY_BASE | Some c \<Rightarrow> cu_base c);
          no_wait = is_some_and cu_no_wait cur;
          roots = {d \<in> roots. d \<in> consented r};
          vs = filter (\<lambda>v. vo_base v = base \<and> vo_device v \<in> consented r) (vouches r);
          ps = filter (\<lambda>p. pe_base p = base \<and> pe_device p \<in> consented r) (pendings r);
          founded = vouch_closure roots vs;
          refused = rm_device ` set (filter (\<lambda>m. rm_base m = base \<and> rm_by m \<in> founded) (removals r));
          matured = pe_device ` set (filter (\<lambda>p.
            \<not> no_wait \<and> pe_device p \<notin> refused
            \<and> is_some_and (\<lambda>seen. saturating_add_i64 seen PENDING_MATURITY_MS \<le> now_ms) (first_seen (pe_device p))) ps);
          rooted = vouch_closure (roots \<union> matured) vs
      in \<lparr>sc_base = base, sc_no_wait = no_wait, sc_roots = roots, sc_matured = matured, sc_vouches = vs,
          sc_pendings = ps, sc_rooted = rooted\<rparr>)"

definition asked_in :: "scope \<Rightarrow> string set" where
  "asked_in sc = pe_device ` set (sc_pendings sc)"

definition counting_removals_in :: "scope \<Rightarrow> roster \<Rightarrow> removal list" where
  "counting_removals_in sc r =
     filter (\<lambda>m. rm_base m = sc_base sc \<and> rm_by m \<in> sc_rooted sc
                 \<and> (rm_device m \<in> sc_rooted sc \<or> rm_device m \<in> asked_in sc)) (removals r)"

definition counting_removals :: "('a) crypto_scheme \<Rightarrow> (string \<Rightarrow> int option) \<Rightarrow> int \<Rightarrow> roster \<Rightarrow> removal list" where
  "counting_removals C first_seen now_ms r = counting_removals_in (roster_scope C first_seen now_ms r) r"

definition removed_by :: "removal list \<Rightarrow> string hmap" where
  "removed_by rms =
     foldl (\<lambda>m r. if hm_has m (rm_device r) then m else bt_insert (rm_device r) (rm_by r) m) [] rms"

definition kept_by :: "removal list \<Rightarrow> string set hmap" where
  "kept_by rms =
     foldl (\<lambda>m r. let keep = set (rm_keep_vouched r)
                  in bt_insert (rm_device r)
                       (case hm_get m (rm_device r) of Some k \<Rightarrow> {d \<in> k. d \<in> keep} | None \<Rightarrow> keep) m) [] rms"

definition voucher_ok :: "removal list \<Rightarrow> vouch \<Rightarrow> bool" where
  "voucher_ok rms v \<longleftrightarrow>
     \<not> hm_has (removed_by rms) (vo_by v)
     \<or> is_some_and (\<lambda>k. vo_device v \<in> k) (hm_get (kept_by rms) (vo_by v))"

definition roster_fold :: "('a) crypto_scheme \<Rightarrow> (string \<Rightarrow> int option) \<Rightarrow> int \<Rightarrow> roster \<Rightarrow> roster_state" where
  "roster_fold C first_seen now_ms r =
     (let sc = roster_scope C first_seen now_ms r;
          rms = counting_removals_in sc r;
          removed = removed_by rms;
          valid = vouch_grow (voucher_ok rms) (sc_vouches sc) (sc_roots sc \<union> sc_matured sc)
      in \<lparr>rs_base = sc_base sc, rs_protected = (current_recovery C r \<noteq> None), rs_no_wait = sc_no_wait sc,
          rs_members = {d \<in> valid. \<not> hm_has removed d}, rs_removed = removed,
          rs_pending = {d \<in> asked_in sc. d \<notin> valid \<and> \<not> hm_has removed d}\<rparr>)"

definition vouched_members_of :: "string \<Rightarrow> roster_state \<Rightarrow> roster \<Rightarrow> string list" where
  "vouched_members_of device state r =
     take MAX_REMOVAL_KEEP
       (map vo_device (filter (\<lambda>v. vo_base v = rs_base state \<and> vo_by v = device \<and> vo_device v \<in> rs_members state)
          (vouches r)))"

definition has_consent :: "string \<Rightarrow> roster \<Rightarrow> bool" where
  "has_consent device r \<longleftrightarrow> list_ex (\<lambda>c. c_device c = device) (consents r)"

section \<open>Adding a statement\<close>

definition add_consent :: "consent \<Rightarrow> roster \<Rightarrow> roster" where
  "add_consent c r = r\<lparr>consents := push_unique (consents r) [c]\<rparr>"

definition add_vouch :: "vouch \<Rightarrow> roster \<Rightarrow> roster" where
  "add_vouch v r = r\<lparr>vouches := push_unique (vouches r) [v]\<rparr>"

definition add_pending :: "pending \<Rightarrow> roster \<Rightarrow> roster" where
  "add_pending p r = r\<lparr>pendings := push_unique (pendings r) [p]\<rparr>"

definition add_legacy :: "legacy_claim \<Rightarrow> roster \<Rightarrow> roster" where
  "add_legacy l r = r\<lparr>legacy := push_unique (legacy r) [l]\<rparr>"

definition add_removal :: "removal \<Rightarrow> roster \<Rightarrow> roster" where
  "add_removal m r = r\<lparr>removals := push_unique (removals r) [m]\<rparr>"

definition add_phrase_statement ::
  "('a) crypto_scheme \<Rightarrow> string \<Rightarrow> recovery option \<Rightarrow> phrase_admit option \<Rightarrow> roster \<Rightarrow> string + roster" where
  "add_phrase_statement C rp rc admit r =
     (if r_pub r \<noteq> [] \<and> r_pub r \<noteq> rp then Inl ''This identity already has a different recovery phrase.''
      else
        (let r = r\<lparr>r_pub := rp\<rparr>;
             r = (case rc of Some x \<Rightarrow> r\<lparr>recoveries := push_unique (recoveries r) [x]\<rparr> | None \<Rightarrow> r);
             r = (case admit of Some a \<Rightarrow> r\<lparr>phrase_admits := push_unique (phrase_admits r) [a]\<rparr> | None \<Rightarrow> r)
         in Inr (compacted C r)))"

section \<open>The digest\<close>

definition DIGEST_HEX_LEN :: nat where "DIGEST_HEX_LEN = 32"

definition sorted_all :: "'a::linorder list \<Rightarrow> 'a list" where
  "sorted_all v = remdups_adj (sort v)"

definition digest_vouches :: "('a) crypto_scheme \<Rightarrow> roster \<Rightarrow> vouch list" where
  "digest_vouches C r = filter (\<lambda>v. ranked C False r (vo_by v) \<noteq> None) (sorted_all (vouches r))"

definition digest_removals :: "('a) crypto_scheme \<Rightarrow> roster \<Rightarrow> removal list" where
  "digest_removals C r = filter (\<lambda>m. ranked C False r (rm_by m) \<noteq> None) (sorted_all (removals r))"

definition digest_named :: "('a) crypto_scheme \<Rightarrow> roster \<Rightarrow> string set" where
  "digest_named C r =
     (\<Union> ((set \<circ> rc_keep) ` set (recoveries r))) \<union> pa_device ` set (phrase_admits r)
     \<union> vo_device ` set (digest_vouches C r) \<union> vo_by ` set (digest_vouches C r) \<union> lc_device ` set (legacy r)
     \<union> rm_device ` set (digest_removals C r) \<union> rm_by ` set (digest_removals C r)"

definition digest_consents :: "('a) crypto_scheme \<Rightarrow> roster \<Rightarrow> consent list" where
  "digest_consents C r = filter (\<lambda>c. c_device c \<in> digest_named C r) (sorted_all (consents r))"

definition digest_text :: "('a) roster_env_scheme \<Rightarrow> roster \<Rightarrow> string" where
  "digest_text E r =
     digest_json E (master r) (r_pub r) (sorted_all (recoveries r)) (sorted_all (phrase_admits r))
       (digest_consents E r) (digest_vouches E r) (sorted_all (legacy r)) (digest_removals E r)"

definition roster_digest :: "('a) roster_env_scheme \<Rightarrow> roster \<Rightarrow> string" where
  "roster_digest E r = hex_encode E (take (DIGEST_HEX_LEN div 2) (sha256 E (digest_text E r)))"

definition is_digest_shape :: "string \<Rightarrow> bool" where
  "is_digest_shape s \<longleftrightarrow>
     length s = DIGEST_HEX_LEN \<and> list_all (\<lambda>b. is_ascii_digit b \<or> 97 \<le> code_of b \<and> code_of b \<le> 102) s"

end
