(* ===== verification/RosterProps.thy ===== *)
theory RosterProps
  imports Roster
begin

text \<open>
  What the roster promises: the fold is the least set the statements admit, a removal by a device that
  belongs without waiting sticks, and whoever holds only the master key changes nothing before seven days
  have passed.
\<close>

section \<open>Growth is reachability\<close>

inductive_set vouch_reach :: "(vouch \<Rightarrow> bool) \<Rightarrow> vouch set \<Rightarrow> string set \<Rightarrow> string set"
  for ok :: "vouch \<Rightarrow> bool" and vs :: "vouch set" and seed :: "string set"
where
  seeded: "d \<in> seed \<Longrightarrow> d \<in> vouch_reach ok vs seed"
| vouched: "v \<in> vs \<Longrightarrow> ok v \<Longrightarrow> vo_by v \<in> vouch_reach ok vs seed \<Longrightarrow> vo_device v \<in> vouch_reach ok vs seed"

lemma vouch_reach_least:
  assumes "seed \<subseteq> S" and "\<And>v. v \<in> vs \<Longrightarrow> ok v \<Longrightarrow> vo_by v \<in> S \<Longrightarrow> vo_device v \<in> S"
  shows "vouch_reach ok vs seed \<subseteq> S"
proof
  fix d assume "d \<in> vouch_reach ok vs seed"
  then show "d \<in> S" by induction (use assms in auto)
qed

lemma vouch_reach_mono:
  assumes "seed \<subseteq> seed'" and "\<And>v. v \<in> vs \<Longrightarrow> ok v \<Longrightarrow> vo_by v \<in> vouch_reach ok' vs' seed' \<Longrightarrow> v \<in> vs' \<and> ok' v"
  shows "vouch_reach ok vs seed \<subseteq> vouch_reach ok' vs' seed'"
  by (rule vouch_reach_least) (use assms in \<open>auto intro: vouch_reach.intros\<close>)

lemma vouch_reach_bound: "vouch_reach ok vs seed \<subseteq> seed \<union> vo_device ` vs"
  by (rule vouch_reach_least) auto

lemma vouch_pass_reach: "vouch_pass ok vs seed \<subseteq> vouch_reach ok (set vs) seed"
proof -
  have "vouch_pass ok ws S \<subseteq> vouch_reach ok (set vs) seed"
    if "set ws \<subseteq> set vs" "S \<subseteq> vouch_reach ok (set vs) seed" for ws S
    using that
  proof (induction ws arbitrary: S)
    case (Cons w ws)
    then have "(if vo_by w \<in> S \<and> ok w then insert (vo_device w) S else S) \<subseteq> vouch_reach ok (set vs) seed"
      by (auto intro: vouch_reach.vouched)
    with Cons show ?case by simp
  qed simp
  from this [of vs seed] show ?thesis by (auto intro: vouch_reach.seeded)
qed

lemma vouch_pass_stable:
  assumes "vouch_pass ok vs seed = seed" and "v \<in> set vs" and "ok v" and "vo_by v \<in> seed"
  shows "vo_device v \<in> seed"
proof -
  have "vo_device v \<in> vouch_pass ok ws S" if "v \<in> set ws" "vo_by v \<in> S" for ws S
    using that
  proof (induction ws arbitrary: S)
    case (Cons w ws)
    show ?case
    proof (cases "v = w")
      case True
      with Cons.prems assms(3) have "vo_device v \<in> (if vo_by w \<in> S \<and> ok w then insert (vo_device w) S else S)" by simp
      with vouch_pass_bounds [of "if vo_by w \<in> S \<and> ok w then insert (vo_device w) S else S" ok ws]
      show ?thesis by auto
    next
      case False
      with Cons show ?thesis by simp
    qed
  qed simp
  with assms show ?thesis by metis
qed

lemma vouch_grow_reach:
  assumes "finite seed"
  shows "vouch_grow ok vs seed = vouch_reach ok (set vs) seed"
  using assms
proof (induction ok vs seed rule: vouch_grow.induct)
  case (1 ok vs seed)
  let ?s = "vouch_pass ok vs seed"
  have sub: "seed \<subseteq> ?s" and up: "?s \<subseteq> seed \<union> vo_device ` set vs" using vouch_pass_bounds [of seed ok vs] by auto
  have fin: "finite ?s" by (rule finite_subset [OF up]) (use "1.prems" in simp)
  show ?case
  proof (cases "card ?s = card seed")
    case True
    with fin sub have "seed = ?s" by (intro card_subset_eq) auto
    then have "vouch_reach ok (set vs) seed \<subseteq> ?s"
      by (intro vouch_reach_least) (auto intro: vouch_pass_stable)
    with True show ?thesis using vouch_pass_reach [of ok vs seed] by (simp add: vouch_grow.simps)
  next
    case False
    have "vouch_reach ok (set vs) ?s = vouch_reach ok (set vs) seed"
    proof
      show "vouch_reach ok (set vs) ?s \<subseteq> vouch_reach ok (set vs) seed"
        by (rule vouch_reach_least) (use vouch_pass_reach in \<open>auto intro: vouch_reach.vouched\<close>)
      show "vouch_reach ok (set vs) seed \<subseteq> vouch_reach ok (set vs) ?s"
        by (rule vouch_reach_mono) (use sub in auto)
    qed
    with "1.IH" [OF refl False fin] False show ?thesis by (simp add: vouch_grow.simps [of ok vs seed])
  qed
qed

section \<open>Removals\<close>

lemma removed_by_has: "hm_has (removed_by rms) d \<longleftrightarrow> (\<exists>m \<in> set rms. rm_device m = d)"
proof -
  have "hm_has (foldl (\<lambda>m r. if hm_has m (rm_device r) then m else bt_insert (rm_device r) (rm_by r) m) m rms) d
      \<longleftrightarrow> hm_has m d \<or> (\<exists>m \<in> set rms. rm_device m = d)" for m :: "string hmap"
    by (induction rms arbitrary: m) (auto simp: hm_has_def)
  from this [of "[]"] show ?thesis by (simp add: removed_by_def hm_has_def)
qed

lemma kept_by_get:
  "hm_get (kept_by rms) d =
     (if (\<exists>m \<in> set rms. rm_device m = d) then Some {x. \<forall>m \<in> set rms. rm_device m = d \<longrightarrow> x \<in> set (rm_keep_vouched m)} else None)"
proof (induction rms rule: rev_induct)
  case (snoc m rms)
  then show ?case
    by (auto simp: kept_by_def Let_def split: if_splits)
qed (simp add: kept_by_def)

lemma voucher_ok_iff:
  "voucher_ok rms v \<longleftrightarrow> (\<forall>m \<in> set rms. rm_device m = vo_by v \<longrightarrow> vo_device v \<in> set (rm_keep_vouched m))"
proof (cases "\<exists>m \<in> set rms. rm_device m = vo_by v")
  case True
  then show ?thesis by (simp add: voucher_ok_def removed_by_has kept_by_get)
next
  case False
  then show ?thesis by (auto simp: voucher_ok_def removed_by_has)
qed

section \<open>What a fold works from\<close>

text \<open>The devices the roots reach by vouches, removals ignored: who belongs without anyone waiting.\<close>

definition base_seed :: "('a) crypto_scheme \<Rightarrow> roster \<Rightarrow> string set" where
  "base_seed C r = {d \<in> snd (base_roots C r). d \<in> consented r}"

definition base_vouches :: "('a) crypto_scheme \<Rightarrow> roster \<Rightarrow> vouch set" where
  "base_vouches C r = {v \<in> set (vouches r). vo_base v = roster_base C r \<and> vo_device v \<in> consented r}"

definition founded :: "('a) crypto_scheme \<Rightarrow> roster \<Rightarrow> string set" where
  "founded C r = vouch_reach (\<lambda>_. True) (base_vouches C r) (base_seed C r)"

definition base_no_wait :: "('a) crypto_scheme \<Rightarrow> roster \<Rightarrow> bool" where
  "base_no_wait C r = is_some_and cu_no_wait (current_recovery C r)"

definition refused_in :: "('a) crypto_scheme \<Rightarrow> roster \<Rightarrow> string set" where
  "refused_in C r = rm_device ` {m \<in> set (removals r). rm_base m = roster_base C r \<and> rm_by m \<in> founded C r}"

definition seven_days :: "(string \<Rightarrow> int option) \<Rightarrow> int \<Rightarrow> string \<Rightarrow> bool" where
  "seven_days first_seen now_ms d =
     is_some_and (\<lambda>seen. saturating_add_i64 seen PENDING_MATURITY_MS \<le> now_ms) (first_seen d)"

definition waited :: "('a) crypto_scheme \<Rightarrow> (string \<Rightarrow> int option) \<Rightarrow> int \<Rightarrow> roster \<Rightarrow> string set" where
  "waited C first_seen now_ms r =
     pe_device ` {p \<in> set (pendings r). pe_base p = roster_base C r \<and> pe_device p \<in> consented r
       \<and> \<not> base_no_wait C r \<and> pe_device p \<notin> refused_in C r \<and> seven_days first_seen now_ms (pe_device p)}"

definition rooted_in :: "('a) crypto_scheme \<Rightarrow> (string \<Rightarrow> int option) \<Rightarrow> int \<Rightarrow> roster \<Rightarrow> string set" where
  "rooted_in C first_seen now_ms r =
     vouch_reach (\<lambda>_. True) (base_vouches C r) (base_seed C r \<union> waited C first_seen now_ms r)"

lemma fst_base_roots [simp]: "fst (base_roots C r) = current_recovery C r"
  by (simp add: base_roots_def split: option.splits)

lemma finite_base_roots: "finite (snd (base_roots C r))"
  by (auto simp: base_roots_def current_recovery_def Let_def split: option.splits)

lemma finite_base_seed: "finite (base_seed C r)"
  using finite_base_roots [of C r] by (simp add: base_seed_def)

lemma finite_waited: "finite (waited C fs now r)"
  by (simp add: waited_def)

lemma roster_base_case: "(case current_recovery C r of None \<Rightarrow> LEGACY_BASE | Some c \<Rightarrow> cu_base c) = roster_base C r"
  by (simp add: roster_base_def split: option.splits)

lemma scope_facts:
  fixes C fs now r
  defines "sc \<equiv> roster_scope C fs now r"
  shows "sc_base sc = roster_base C r" "sc_no_wait sc = base_no_wait C r" "sc_roots sc = base_seed C r"
    "set (sc_vouches sc) = base_vouches C r"
    "asked_in sc = pe_device ` {p \<in> set (pendings r). pe_base p = roster_base C r \<and> pe_device p \<in> consented r}"
    "sc_matured sc = waited C fs now r" "sc_rooted sc = rooted_in C fs now r"
proof -
  obtain cur roots where br: "base_roots C r = (cur, roots)" by fastforce
  then have cur: "cur = current_recovery C r" and roots: "roots = snd (base_roots C r)"
    using fst_base_roots [of C r] by simp_all
  let ?vs = "filter (\<lambda>v. vo_base v = roster_base C r \<and> vo_device v \<in> consented r) (vouches r)"
  have vs: "set ?vs = base_vouches C r" by (auto simp: base_vouches_def)
  have seed: "{d \<in> roots. d \<in> consented r} = base_seed C r" by (simp add: base_seed_def roots)
  have found: "vouch_closure (base_seed C r) ?vs = founded C r"
    by (simp only: vouch_closure_def vouch_grow_reach [OF finite_base_seed] vs founded_def)
  have refused: "rm_device ` set (filter (\<lambda>m. rm_base m = roster_base C r \<and> rm_by m \<in> founded C r) (removals r))
      = refused_in C r"
    by (simp add: refused_in_def)
  note sc = sc_def roster_scope_def br Let_def cur roster_base_case seed found refused
  show "sc_base sc = roster_base C r" "sc_no_wait sc = base_no_wait C r" "sc_roots sc = base_seed C r"
    "set (sc_vouches sc) = base_vouches C r"
    by (simp_all add: sc base_no_wait_def vs) (auto simp: base_vouches_def)
  show "asked_in sc = pe_device ` {p \<in> set (pendings r). pe_base p = roster_base C r \<and> pe_device p \<in> consented r}"
    by (simp add: sc asked_in_def)
  show mat: "sc_matured sc = waited C fs now r"
    by (simp add: sc waited_def seven_days_def base_no_wait_def refused_in_def conj_assoc)
  have "sc_rooted sc = vouch_closure (sc_roots sc \<union> sc_matured sc) (sc_vouches sc)"
    by (simp add: sc)
  also have "\<dots> = vouch_reach (\<lambda>_. True) (set (sc_vouches sc)) (sc_roots sc \<union> sc_matured sc)"
    unfolding vouch_closure_def
    by (rule vouch_grow_reach)
      (simp add: mat finite_waited \<open>sc_roots sc = base_seed C r\<close> finite_base_seed)
  finally show "sc_rooted sc = rooted_in C fs now r"
    by (simp add: rooted_in_def mat \<open>sc_roots sc = base_seed C r\<close> \<open>set (sc_vouches sc) = base_vouches C r\<close>)
qed

lemma founded_rooted: "founded C r \<subseteq> rooted_in C fs now r"
  unfolding founded_def rooted_in_def by (rule vouch_reach_mono) auto

lemma refused_not_waited: "d \<in> refused_in C r \<Longrightarrow> d \<notin> waited C fs now r"
  by (auto simp: waited_def)

lemma counting_iff:
  "m \<in> set (counting_removals C fs now r) \<longleftrightarrow>
     m \<in> set (removals r) \<and> rm_base m = roster_base C r \<and> rm_by m \<in> rooted_in C fs now r
     \<and> (rm_device m \<in> rooted_in C fs now r
        \<or> (\<exists>p \<in> set (pendings r). pe_base p = roster_base C r \<and> pe_device p \<in> consented r \<and> pe_device p = rm_device m))"
  by (auto simp: counting_removals_def counting_removals_in_def scope_facts image_iff)

lemma members_iff:
  "rs_members (roster_fold C fs now r) =
     {d \<in> vouch_reach (voucher_ok (counting_removals C fs now r)) (base_vouches C r)
            (base_seed C r \<union> waited C fs now r).
       \<forall>m \<in> set (counting_removals C fs now r). rm_device m \<noteq> d}"
  by (auto simp: roster_fold_def Let_def counting_removals_def removed_by_has scope_facts
      vouch_grow_reach finite_base_seed finite_waited)

lemma valid_rooted: "vouch_reach ok (base_vouches C r) (base_seed C r \<union> waited C fs now r) \<subseteq> rooted_in C fs now r"
  unfolding rooted_in_def by (rule vouch_reach_mono) auto

lemma base_vouches_consented: "vo_device ` base_vouches C r \<subseteq> consented r"
  by (auto simp: base_vouches_def)

lemma rooted_consented: "rooted_in C fs now r \<subseteq> consented r"
  unfolding rooted_in_def
  by (rule vouch_reach_least) (auto simp: base_seed_def waited_def base_vouches_def)

section \<open>More statements\<close>

text \<open>A roster with more statements under the same recoveries.\<close>

definition more_statements :: "roster \<Rightarrow> roster \<Rightarrow> bool" where
  "more_statements r r' \<longleftrightarrow>
     master r' = master r \<and> r_pub r' = r_pub r \<and> recoveries r' = recoveries r
     \<and> set (phrase_admits r) \<subseteq> set (phrase_admits r') \<and> set (consents r) \<subseteq> set (consents r')
     \<and> set (vouches r) \<subseteq> set (vouches r') \<and> set (pendings r) \<subseteq> set (pendings r')
     \<and> set (legacy r) \<subseteq> set (legacy r') \<and> set (removals r) \<subseteq> set (removals r')"

lemma list_max_set:
  assumes "set xs = set (ys :: 'a::linorder list)"
  shows "list_max xs = list_max ys"
proof (cases "list_max xs")
  case None
  with assms show ?thesis by (cases ys) simp_all
next
  case (Some a)
  with assms obtain b where b: "list_max ys = Some b" by (cases "list_max ys") auto
  have "a \<le> b" by (rule list_max_ge [OF b]) (use list_max_in [OF Some] assms in simp)
  moreover have "b \<le> a" by (rule list_max_ge [OF Some]) (use list_max_in [OF b] assms in simp)
  ultimately show ?thesis using Some b by simp
qed

lemma list_min_Min: "list_min xs = (if xs = [] then None else Some (Min (set xs)))"
proof (cases xs)
  case (Cons x ys)
  have "Min (set (x # ys)) = fold min ys x" by (rule Min.set_eq_fold)
  also have "\<dots> = foldl min x ys" by (simp add: foldl_conv_fold min.commute)
  finally show ?thesis by (simp only: Cons list_min_def list.case list.distinct if_False simp_thms)
qed (simp add: list_min_def)

lemma current_recovery_cong:
  assumes "master r' = master r" and "r_pub r' = r_pub r" and "set (recoveries r') = set (recoveries r)"
  shows "current_recovery C r' = current_recovery C r"
proof -
  have max: "list_max (map rc_at_ms (recoveries r')) = list_max (map rc_at_ms (recoveries r))"
    by (rule list_max_set) (simp add: assms(3))
  let ?t = "\<lambda>r at_ms. filter (\<lambda>rc. rc_at_ms rc = at_ms) (recoveries r)"
  have ties: "set (?t r' at_ms) = set (?t r at_ms)" for at_ms
    using assms(3) by auto
  then have empty: "?t r' at_ms = [] \<longleftrightarrow> ?t r at_ms = []" for at_ms
    by (metis set_empty)
  have ex: "list_ex rc_no_wait (?t r' at_ms) = list_ex rc_no_wait (?t r at_ms)" for at_ms
    unfolding list_ex_iff by (simp only: ties)
  show ?thesis
    unfolding current_recovery_def max Let_def list_min_Min list.map_disc_iff empty list.set_map ties ex assms(1,2)
    by (rule refl)
qed

lemma more_statements_current: "more_statements r r' \<Longrightarrow> current_recovery C r' = current_recovery C r"
  by (rule current_recovery_cong) (simp_all add: more_statements_def)

lemma more_statements_base: "more_statements r r' \<Longrightarrow> roster_base C r' = roster_base C r"
  by (simp add: roster_base_def more_statements_current)

lemma more_statements_seed: "more_statements r r' \<Longrightarrow> base_seed C r \<subseteq> base_seed C r'"
  using more_statements_current [of r r' C]
  by (auto simp: base_seed_def base_roots_def more_statements_def consented_def split: option.splits)

lemma more_statements_founded:
  assumes "more_statements r r'"
  shows "founded C r \<subseteq> founded C r'"
  unfolding founded_def
proof (rule vouch_reach_mono)
  show "base_seed C r \<subseteq> base_seed C r'" by (rule more_statements_seed [OF assms])
  fix v assume "v \<in> base_vouches C r"
  then show "v \<in> base_vouches C r' \<and> True"
    using assms more_statements_base [OF assms, of C] by (auto simp: base_vouches_def more_statements_def consented_def)
qed

lemma founded_removal_counts:
  assumes "m \<in> set (removals r)" and "rm_base m = roster_base C r" and "rm_by m \<in> founded C r"
  shows "rm_device m \<notin> rs_members (roster_fold C fs now r)"
proof
  assume mem: "rm_device m \<in> rs_members (roster_fold C fs now r)"
  then have "rm_device m \<in> rooted_in C fs now r"
    by (auto simp: members_iff dest: subsetD [OF valid_rooted])
  with assms founded_rooted [of C r fs now] have "m \<in> set (counting_removals C fs now r)"
    by (auto simp: counting_iff)
  with mem show False by (auto simp: members_iff)
qed

section \<open>Which statements matter\<close>

text \<open>Two rosters agree on the members when they have the same base and start, and the same vouches and
  removals by the rooted devices about rooted ones.\<close>

definition same_where_rooted ::
  "('a) crypto_scheme \<Rightarrow> (string \<Rightarrow> int option) \<Rightarrow> int \<Rightarrow> roster \<Rightarrow> (string \<Rightarrow> int option) \<Rightarrow> int \<Rightarrow> roster \<Rightarrow> bool" where
  "same_where_rooted C fs now a fs' now' b \<longleftrightarrow>
     roster_base C b = roster_base C a
     \<and> base_seed C a \<union> waited C fs now a = base_seed C b \<union> waited C fs' now' b
     \<and> (\<forall>v. vo_by v \<in> rooted_in C fs now a \<longrightarrow> (v \<in> base_vouches C a \<longleftrightarrow> v \<in> base_vouches C b))
     \<and> (\<forall>m. rm_base m = roster_base C a \<longrightarrow> rm_by m \<in> rooted_in C fs now a \<longrightarrow> rm_device m \<in> rooted_in C fs now a
           \<longrightarrow> (m \<in> set (removals a) \<longleftrightarrow> m \<in> set (removals b)))"

lemma same_rooted:
  assumes "same_where_rooted C fs now a fs' now' b"
  shows "rooted_in C fs' now' b = rooted_in C fs now a"
proof
  show back_in: "rooted_in C fs' now' b \<subseteq> rooted_in C fs now a"
    unfolding rooted_in_def [of C fs' now' b]
  proof (rule vouch_reach_least)
    show "base_seed C b \<union> waited C fs' now' b \<subseteq> rooted_in C fs now a"
      using assms by (auto simp: same_where_rooted_def rooted_in_def [of C fs now a] intro: vouch_reach.seeded)
    fix v assume "v \<in> base_vouches C b" "vo_by v \<in> rooted_in C fs now a"
    then have "v \<in> base_vouches C a" using assms by (simp add: same_where_rooted_def)
    with \<open>vo_by v \<in> _\<close> show "vo_device v \<in> rooted_in C fs now a"
      by (simp add: rooted_in_def vouch_reach.vouched)
  qed
  show "rooted_in C fs now a \<subseteq> rooted_in C fs' now' b"
    unfolding rooted_in_def [of C fs now a]
  proof (rule vouch_reach_least)
    show "base_seed C a \<union> waited C fs now a \<subseteq> rooted_in C fs' now' b"
      using assms by (auto simp: same_where_rooted_def rooted_in_def [of C fs' now' b] intro: vouch_reach.seeded)
    fix v assume "v \<in> base_vouches C a" "vo_by v \<in> rooted_in C fs' now' b"
    then have "v \<in> base_vouches C b" using assms back_in by (auto simp: same_where_rooted_def)
    with \<open>vo_by v \<in> _\<close> show "vo_device v \<in> rooted_in C fs' now' b"
      by (simp add: rooted_in_def vouch_reach.vouched)
  qed
qed

lemma same_where_rooted_sym:
  assumes "same_where_rooted C fs now a fs' now' b"
  shows "same_where_rooted C fs' now' b fs now a"
  using assms same_rooted [OF assms] by (simp add: same_where_rooted_def)

lemma same_counting:
  assumes "same_where_rooted C fs now a fs' now' b" and "m \<in> set (counting_removals C fs' now' b)"
    and "rm_device m \<in> rooted_in C fs now a"
  shows "m \<in> set (counting_removals C fs now a)"
  using assms same_rooted [OF assms(1)] by (auto simp: counting_iff same_where_rooted_def)

lemma members_sub:
  assumes same: "same_where_rooted C fs now a fs' now' b"
  shows "rs_members (roster_fold C fs now a) \<subseteq> rs_members (roster_fold C fs' now' b)"
proof -
  let ?S = "base_seed C a \<union> waited C fs now a"
  let ?ok = "voucher_ok (counting_removals C fs now a)" and ?ok' = "voucher_ok (counting_removals C fs' now' b)"
  have start: "base_seed C b \<union> waited C fs' now' b = ?S" using same by (simp add: same_where_rooted_def)
  have root': "vouch_reach ok (base_vouches C b) ?S \<subseteq> rooted_in C fs now a" for ok
    using valid_rooted [of ok C b fs' now'] by (simp add: start same_rooted [OF same])
  have "vouch_reach ?ok (base_vouches C a) ?S \<subseteq> vouch_reach ?ok' (base_vouches C b) ?S"
  proof (rule vouch_reach_mono)
    fix v assume v: "v \<in> base_vouches C a" "?ok v" and "vo_by v \<in> vouch_reach ?ok' (base_vouches C b) ?S"
    then have r: "vo_by v \<in> rooted_in C fs now a" using root' by blast
    then have "v \<in> base_vouches C b" using same v(1) by (simp add: same_where_rooted_def)
    moreover have "?ok' v"
      unfolding voucher_ok_iff
    proof (intro ballI impI)
      fix m assume m: "m \<in> set (counting_removals C fs' now' b)" "rm_device m = vo_by v"
      with r same_counting [OF same] have "m \<in> set (counting_removals C fs now a)" by simp
      with v(2) m(2) show "vo_device v \<in> set (rm_keep_vouched m)" by (simp add: voucher_ok_iff)
    qed
    ultimately show "v \<in> base_vouches C b \<and> ?ok' v" by simp
  qed simp
  moreover have "\<forall>m \<in> set (counting_removals C fs' now' b). rm_device m \<noteq> d"
    if "d \<in> rooted_in C fs now a" "\<forall>m \<in> set (counting_removals C fs now a). rm_device m \<noteq> d" for d
    using that same_counting [OF same] by metis
  ultimately show ?thesis
    unfolding members_iff start using valid_rooted [of ?ok C a fs now] by blast
qed

lemma members_cong:
  assumes "same_where_rooted C fs now a fs' now' b"
  shows "rs_members (roster_fold C fs' now' b) = rs_members (roster_fold C fs now a)"
  using members_sub [OF assms] members_sub [OF same_where_rooted_sym [OF assms]] by (rule equalityI [rotated])

section \<open>Outsiders\<close>

text \<open>What someone can add who holds neither the phrase nor a device the roster names: consents, vouches and
  removals signed by devices in \<open>A\<close>, and with the master key any asks and legacy claims.\<close>

definition outsider_adds :: "string set \<Rightarrow> roster \<Rightarrow> roster \<Rightarrow> bool" where
  "outsider_adds A r r' \<longleftrightarrow>
     more_statements r r' \<and> set (phrase_admits r') = set (phrase_admits r)
     \<and> c_device ` (set (consents r') - set (consents r)) \<subseteq> A
     \<and> vo_by ` (set (vouches r') - set (vouches r)) \<subseteq> A
     \<and> rm_by ` (set (removals r') - set (removals r)) \<subseteq> A"

definition devices_named :: "('a) crypto_scheme \<Rightarrow> roster \<Rightarrow> string set" where
  "devices_named C r = snd (base_roots C r) \<union> vo_device ` set (vouches r) \<union> pe_device ` set (pendings r)"

lemma rooted_named: "rooted_in C fs now r \<subseteq> devices_named C r"
  unfolding rooted_in_def
  by (rule order_trans [OF vouch_reach_bound])
    (auto simp: devices_named_def base_seed_def waited_def base_vouches_def)

lemma outsider_consents:
  assumes "outsider_adds A r r'" and "A \<inter> devices_named C r = {}" and "d \<in> devices_named C r"
  shows "d \<in> consented r' \<longleftrightarrow> d \<in> consented r"
proof -
  have "d \<notin> A" using assms(2,3) by blast
  moreover have "set (consents r) \<subseteq> set (consents r')" "c_device ` (set (consents r') - set (consents r)) \<subseteq> A"
    using assms(1) by (simp_all add: outsider_adds_def more_statements_def)
  ultimately show ?thesis unfolding consented_def by blast
qed

lemma outsider_roots:
  assumes "outsider_adds A r r'" and "current_recovery C r \<noteq> None"
  shows "snd (base_roots C r') = snd (base_roots C r)"
proof -
  from assms(2) obtain c where c: "current_recovery C r = Some c" by blast
  moreover have "current_recovery C r' = Some c"
    using assms(1) more_statements_current [of r r' C] c by (simp add: outsider_adds_def)
  moreover have "set (phrase_admits r') = set (phrase_admits r)" using assms(1) by (simp add: outsider_adds_def)
  ultimately show ?thesis by (simp add: base_roots_def)
qed

lemma outsider_vouches:
  assumes "outsider_adds A r r'" and "A \<inter> devices_named C r = {}" and "vo_by v \<notin> A"
  shows "v \<in> base_vouches C r' \<longleftrightarrow> v \<in> base_vouches C r"
proof -
  have "v \<in> set (vouches r') \<longleftrightarrow> v \<in> set (vouches r)"
    using assms(1,3) by (auto simp: outsider_adds_def more_statements_def)
  moreover have "vo_device v \<in> consented r' \<longleftrightarrow> vo_device v \<in> consented r" if "v \<in> set (vouches r)"
    by (rule outsider_consents [OF assms(1,2)]) (use that in \<open>simp add: devices_named_def\<close>)
  moreover have "roster_base C r' = roster_base C r"
    using assms(1) by (simp add: outsider_adds_def more_statements_base)
  ultimately show ?thesis by (auto simp: base_vouches_def)
qed

lemma outsider_same:
  assumes adds: "outsider_adds A r r'" and rc: "current_recovery C r \<noteq> None" and apart: "A \<inter> devices_named C r = {}"
    and early: "\<forall>p \<in> set (pendings r') - set (pendings r). \<not> seven_days fs now (pe_device p)"
  shows "same_where_rooted C fs now r fs now r'"
proof -
  have more: "more_statements r r'" using adds by (simp add: outsider_adds_def)
  note base = more_statements_base [OF more, of C]
  have notA: "d \<notin> A" if "d \<in> rooted_in C fs now r" for d using that rooted_named apart by blast
  have seed: "base_seed C r' = base_seed C r"
    unfolding base_seed_def outsider_roots [OF adds rc]
    by (rule Collect_cong) (use outsider_consents [OF adds apart] in \<open>auto simp: devices_named_def\<close>)
  have fnotA: "d \<notin> A" if "d \<in> founded C r" for d using that founded_rooted notA by blast
  have "founded C r' \<subseteq> founded C r"
    unfolding founded_def [of C r']
  proof (rule vouch_reach_least)
    show "base_seed C r' \<subseteq> founded C r" by (auto simp: seed founded_def intro: vouch_reach.seeded)
    fix v assume v: "v \<in> base_vouches C r'" "vo_by v \<in> founded C r"
    with outsider_vouches [OF adds apart fnotA] have "v \<in> base_vouches C r" by simp
    with v(2) show "vo_device v \<in> founded C r" by (simp add: founded_def vouch_reach.vouched)
  qed
  with more_statements_founded [OF more, of C] have found: "founded C r' = founded C r" by blast
  have "set (removals r) \<subseteq> set (removals r')" "rm_by ` (set (removals r') - set (removals r)) \<subseteq> A"
    using adds by (simp_all add: outsider_adds_def more_statements_def)
  then have old: "m \<in> set (removals r') \<longleftrightarrow> m \<in> set (removals r)" if "rm_by m \<notin> A" for m
    using that by blast
  have refused: "refused_in C r' = refused_in C r"
    unfolding refused_in_def base found
  proof (intro arg_cong [where f = "image rm_device"] Collect_cong)
    fix m
    show "m \<in> set (removals r') \<and> rm_base m = roster_base C r \<and> rm_by m \<in> founded C r
        \<longleftrightarrow> m \<in> set (removals r) \<and> rm_base m = roster_base C r \<and> rm_by m \<in> founded C r"
      using old [of m] fnotA [of "rm_by m"] by blast
  qed
  have no_wait: "base_no_wait C r' = base_no_wait C r"
    by (simp add: base_no_wait_def more_statements_current [OF more])
  have asked: "p \<in> set (pendings r') \<and> pe_device p \<in> consented r' \<and> seven_days fs now (pe_device p)
      \<longleftrightarrow> p \<in> set (pendings r) \<and> pe_device p \<in> consented r \<and> seven_days fs now (pe_device p)" for p
  proof (cases "p \<in> set (pendings r)")
    case True
    then have "pe_device p \<in> devices_named C r" by (simp add: devices_named_def)
    with True more outsider_consents [OF adds apart] show ?thesis by (auto simp: more_statements_def)
  next
    case False
    with early show ?thesis by blast
  qed
  have wait: "waited C fs now r' = waited C fs now r"
    unfolding waited_def base no_wait refused
  proof (intro arg_cong [where f = "image pe_device"] Collect_cong)
    fix p
    show "p \<in> set (pendings r') \<and> pe_base p = roster_base C r \<and> pe_device p \<in> consented r' \<and> \<not> base_no_wait C r
          \<and> pe_device p \<notin> refused_in C r \<and> seven_days fs now (pe_device p)
        \<longleftrightarrow> p \<in> set (pendings r) \<and> pe_base p = roster_base C r \<and> pe_device p \<in> consented r \<and> \<not> base_no_wait C r
          \<and> pe_device p \<notin> refused_in C r \<and> seven_days fs now (pe_device p)"
      using asked [of p] by blast
  qed
  show ?thesis
    unfolding same_where_rooted_def
  proof (intro conjI allI impI)
    show "roster_base C r' = roster_base C r" by (rule base)
    show "base_seed C r \<union> waited C fs now r = base_seed C r' \<union> waited C fs now r'" by (simp only: seed wait)
    show "v \<in> base_vouches C r \<longleftrightarrow> v \<in> base_vouches C r'" if "vo_by v \<in> rooted_in C fs now r" for v
      using outsider_vouches [OF adds apart notA [OF that]] by (rule sym)
    show "m \<in> set (removals r) \<longleftrightarrow> m \<in> set (removals r')" if "rm_by m \<in> rooted_in C fs now r" for m
      using old [OF notA [OF that]] by (rule sym)
  qed
qed

section \<open>A sample roster\<close>

definition sample_recovery :: recovery where
  "sample_recovery = Recovery 5 [''a''] False [] []"

definition sample_recovery_base :: string where
  "sample_recovery_base = base_id sample_crypto ''m'' ''k'' sample_recovery"

definition sample_roster :: roster where
  "sample_roster = (new_roster ''m'')\<lparr>r_pub := ''k'', recoveries := [sample_recovery],
     consents := [Consent ''a'' [], Consent ''b'' []], vouches := [Vouch sample_recovery_base ''b'' ''a'' []]\<rparr>"

lemma sample_current:
  assumes "master r = ''m''" and "r_pub r = ''k''" and "recoveries r = [sample_recovery]"
  shows "current_recovery sample_crypto r = Some \<lparr>cu_base = sample_recovery_base, cu_at = 5, cu_keep = {''a''}, cu_no_wait = False\<rparr>"
  using assms by (simp add: current_recovery_def list_max_def list_min_def sample_recovery_base_def) (simp add: sample_recovery_def)

lemma sample_fields:
  "master sample_roster = ''m''" "r_pub sample_roster = ''k''" "recoveries sample_roster = [sample_recovery]"
  "phrase_admits sample_roster = []" "consents sample_roster = [Consent ''a'' [], Consent ''b'' []]"
  "vouches sample_roster = [Vouch sample_recovery_base ''b'' ''a'' []]" "pendings sample_roster = []"
  "legacy sample_roster = []" "removals sample_roster = []"
  by (simp_all add: sample_roster_def new_roster_def)

section \<open>Properties of the fold\<close>

text \<open>C11: Who belongs. The members of a roster's fold are exactly the devices reached from the consented
  roots of the current base and from the asks that waited out seven days, along vouches of the base for
  consented devices whose voucher was not removed by anyone who did not keep the vouched device, without
  the devices a counting removal names. The loops of \<open>fold\<close> compute that least set for every roster.\<close>

theorem roster_members_exact:
  "rs_members (roster_fold C fs now r) =
     vouch_reach (\<lambda>v. \<not> (\<exists>m \<in> set (counting_removals C fs now r).
                          rm_device m = vo_by v \<and> vo_device v \<notin> set (rm_keep_vouched m)))
       (base_vouches C r) (base_seed C r \<union> waited C fs now r)
     - rm_device ` set (counting_removals C fs now r)"
proof -
  have ok: "voucher_ok (counting_removals C fs now r)
      = (\<lambda>v. \<not> (\<exists>m \<in> set (counting_removals C fs now r).
             rm_device m = vo_by v \<and> vo_device v \<notin> set (rm_keep_vouched m)))"
    by (rule ext) (auto simp: voucher_ok_iff)
  show ?thesis
    unfolding members_iff ok by (auto simp: image_iff)
qed





end
