(* ===== verification/RosterCompact.thy ===== *)
theory RosterCompact
  imports RosterProps
begin

text \<open>
  Compaction, merging and the digest of a roster: every operation leaves the compacted form, the ceilings
  push out only what ranks deepest, merging does not depend on the side, and rosters with one digest have the same
  members.
\<close>

section \<open>Sorted lists without repeats\<close>

lemma remdups_adj_strict: "sorted xs \<Longrightarrow> sorted_wrt (<) (remdups_adj (xs :: 'a::linorder list))"
proof (induction xs rule: remdups_adj.induct)
  case (3 x y xs)
  show ?case
  proof (cases "x = y")
    case False
    with "3.prems" have "\<forall>z \<in> set (y # xs). x < z" by (auto simp: order_less_le)
    with False "3.IH"(2) "3.prems" show ?thesis by simp
  qed (use 3 in simp)
qed simp_all

lemma uniq_sorted: "remdups_adj (sort xs) = sorted_list_of_set (set (xs :: 'a::linorder list))"
  by (rule strict_sorted_equal) (simp_all add: remdups_adj_strict)

lemma push_unique_set: "push_unique a b = sorted_list_of_set (set a \<union> set (b :: 'a::linorder list))"
  by (simp add: push_unique_def uniq_sorted)

lemma sort_cap_set: "sort_cap v cap = take cap (sorted_list_of_set (set (v :: 'a::linorder list)))"
  by (simp add: sort_cap_def uniq_sorted)

lemma sort_cap_facts:
  "length (sort_cap v cap) \<le> cap" "sorted_wrt (<) (sort_cap v cap)" "set (sort_cap v cap) \<subseteq> set (v :: 'a::linorder list)"
  by (simp_all add: sort_cap_set sorted_wrt_take set_take_subset [THEN order_trans])

lemma sort_strict: "distinct xs \<Longrightarrow> sorted_wrt (<) (sort (xs :: 'a::linorder list))"
  by (simp add: strict_sorted_iff)

text \<open>What a ceiling drops from a list in key order sits behind everything it keeps.\<close>

lemma take_sorted_dropped:
  fixes key :: "'a \<Rightarrow> 'k::linorder"
  assumes "x \<in> set xs" and "x \<notin> set (take n (sort_key key xs))" and "y \<in> set (take n (sort_key key xs))"
  shows "key y \<le> key x"
proof -
  let ?ys = "sort_key key xs"
  have "x \<in> set (drop n ?ys)"
    using assms(1,2) by (metis Un_iff append_take_drop_id set_append set_sort)
  moreover have "sorted (map key (take n ?ys @ drop n ?ys))" by simp
  ultimately show ?thesis
    using assms(3) unfolding map_append sorted_append by auto
qed

lemma take_full_dropped: "x \<in> set xs \<Longrightarrow> x \<notin> set (take n xs) \<Longrightarrow> length (take n xs) = n"
  by (metis length_take linorder_le_less_linear min_absorb2 order_less_imp_le take_all)

section \<open>The compacted form\<close>

definition one_base :: "('a) crypto_scheme \<Rightarrow> roster \<Rightarrow> bool" where
  "one_base C r \<longleftrightarrow>
     (\<forall>v \<in> set (vouches r). vo_base v = roster_base C r) \<and> (\<forall>p \<in> set (pendings r). pe_base p = roster_base C r)
     \<and> (\<forall>m \<in> set (removals r). rm_base m = roster_base C r)
     \<and> (case current_recovery C r of
          Some c \<Rightarrow> legacy r = [] \<and> (\<forall>x \<in> set (recoveries r). rc_at_ms x = cu_at c)
                    \<and> (\<forall>p \<in> set (phrase_admits r). cu_at c < pa_at_ms p)
        | None \<Rightarrow> recoveries r = [])"

definition in_order :: "roster \<Rightarrow> bool" where
  "in_order r \<longleftrightarrow>
     sorted_wrt (<) (recoveries r) \<and> sorted_wrt (<) (phrase_admits r) \<and> sorted_wrt (<) (consents r)
     \<and> sorted_wrt (<) (vouches r) \<and> sorted_wrt (<) (pendings r) \<and> sorted_wrt (<) (legacy r)
     \<and> sorted_wrt (<) (removals r) \<and> distinct (map c_device (consents r))"

definition roster_wf :: "('a) crypto_scheme \<Rightarrow> roster \<Rightarrow> bool" where
  "roster_wf C r \<longleftrightarrow> within_caps r \<and> in_order r \<and> one_base C r"

lemma best_first_mset: "best_first st best vs = (tree, rest) \<Longrightarrow> mset tree + mset rest = mset vs"
  by (induction vs arbitrary: best tree rest) (auto split: if_splits prod.splits)

lemma compact_vouches_facts:
  "sorted_wrt (<) (compact_vouches st vs)" "length (compact_vouches st vs) \<le> MAX_VOUCHES"
  "set (compact_vouches st vs) \<subseteq> {v \<in> set vs. st (vo_by v) \<noteq> None}"
proof -
  let ?xs = "sort_key (\<lambda>v. (st (vo_by v), v)) (remdups_adj (sort (filter (\<lambda>v. st (vo_by v) \<noteq> None) vs)))"
  obtain tree rest where tr: "best_first st {} ?xs = (tree, rest)" by fastforce
  have form: "compact_vouches st vs = sort (take MAX_VOUCHES (tree @ rest))"
    unfolding compact_vouches_def Let_def tr by simp
  have ms: "mset (tree @ rest) = mset ?xs" using best_first_mset [OF tr] by simp
  have "distinct ?xs" by (simp add: uniq_sorted)
  with mset_eq_imp_distinct_iff [OF ms] have "distinct (tree @ rest)" by (rule iffD2)
  then show "sorted_wrt (<) (compact_vouches st vs)" unfolding form by (intro sort_strict distinct_take)
  show "length (compact_vouches st vs) \<le> MAX_VOUCHES" by (simp add: form)
  have "set (tree @ rest) = {v \<in> set vs. st (vo_by v) \<noteq> None}"
    unfolding mset_eq_setD [OF ms] by simp
  then show "set (compact_vouches st vs) \<subseteq> {v \<in> set vs. st (vo_by v) \<noteq> None}"
    using set_take_subset [of MAX_VOUCHES "tree @ rest"] by (simp add: form)
qed

lemma compact_removals_facts:
  "sorted_wrt (<) (compact_removals st rms)" "length (compact_removals st rms) \<le> MAX_REMOVALS"
  "set (compact_removals st rms) \<subseteq> {m \<in> set rms. st (rm_by m) \<noteq> None}"
proof -
  let ?ys = "remdups_adj (sort (filter (\<lambda>m. st (rm_by m) \<noteq> None) rms))"
  have d: "distinct ?ys" by (simp add: uniq_sorted)
  then show "sorted_wrt (<) (compact_removals st rms)" by (simp add: compact_removals_def Let_def sort_strict)
  show "length (compact_removals st rms) \<le> MAX_REMOVALS" by (simp add: compact_removals_def Let_def)
  show "set (compact_removals st rms) \<subseteq> {m \<in> set rms. st (rm_by m) \<noteq> None}"
    unfolding compact_removals_def Let_def set_sort
    by (rule order_trans [OF set_take_subset]) simp
qed

lemma retain_unnamed_sub: "set (retain_unnamed named n cs) \<subseteq> set cs"
proof (induction cs arbitrary: n)
  case (Cons c cs)
  from Cons.IH [of n] Cons.IH [of "n + 1"] show ?case by auto
qed simp

lemma retain_unnamed_distinct: "distinct (map f cs) \<Longrightarrow> distinct (map f (retain_unnamed named n cs))"
proof (induction cs arbitrary: n)
  case (Cons c cs)
  with retain_unnamed_sub [of named n cs] retain_unnamed_sub [of named "n + 1" cs] show ?case by auto
qed simp

lemma compact_consents_facts:
  assumes "distinct (map c_device cs)"
  shows "sorted_wrt (<) (compact_consents st named cs)" "length (compact_consents st named cs) \<le> MAX_CONSENTS"
    "set (compact_consents st named cs) \<subseteq> set cs" "distinct (map c_device (compact_consents st named cs))"
proof -
  let ?cls = "consent_class st named"
  define ys where "ys = sort_key (\<lambda>c. (?cls c, c)) cs"
  define xs where "xs = retain_unnamed (\<lambda>c. fst (?cls c) < 2) 0 ys"
  have form: "compact_consents st named cs = sort (take MAX_CONSENTS xs)"
    by (simp add: compact_consents_def Let_def xs_def ys_def)
  have "distinct (map c_device ys)" using assms by (simp add: ys_def distinct_map)
  then have "distinct (map c_device xs)" unfolding xs_def by (rule retain_unnamed_distinct)
  then have d: "distinct (map c_device (take MAX_CONSENTS xs))" by (simp add: take_map [symmetric] distinct_take)
  then have "distinct (take MAX_CONSENTS xs)" unfolding distinct_map by (rule conjunct1)
  then show "sorted_wrt (<) (compact_consents st named cs)" unfolding form by (rule sort_strict)
  show "length (compact_consents st named cs) \<le> MAX_CONSENTS" by (simp add: form)
  have "set xs \<subseteq> set cs" using retain_unnamed_sub [of _ 0 ys] by (simp add: xs_def ys_def)
  then show "set (compact_consents st named cs) \<subseteq> set cs"
    unfolding form set_sort by (rule order_trans [OF set_take_subset])
  show "distinct (map c_device (compact_consents st named cs))"
    using d by (simp add: form distinct_map)
qed

section \<open>Every operation leaves the compacted form\<close>

lemma current_recovery_update [simp]:
  "current_recovery C (r\<lparr>phrase_admits := a\<rparr>) = current_recovery C r"
  "current_recovery C (r\<lparr>consents := c\<rparr>) = current_recovery C r"
  "current_recovery C (r\<lparr>vouches := v\<rparr>) = current_recovery C r"
  "current_recovery C (r\<lparr>pendings := p\<rparr>) = current_recovery C r"
  "current_recovery C (r\<lparr>legacy := l\<rparr>) = current_recovery C r"
  "current_recovery C (r\<lparr>removals := m\<rparr>) = current_recovery C r"
  by (rule current_recovery_cong; simp)+

lemma current_recovery_None: "current_recovery C r = None \<longleftrightarrow> recoveries r = []"
proof (cases "list_max (map rc_at_ms (recoveries r))")
  case (Some a)
  then have "a \<in> rc_at_ms ` set (recoveries r)" by (auto dest: list_max_in)
  then have "filter (\<lambda>rc. rc_at_ms rc = a) (recoveries r) \<noteq> []" by (auto simp: filter_empty_conv)
  with Some show ?thesis by (auto simp: current_recovery_def Let_def list_min_Min)
qed (auto simp: current_recovery_def)

lemma current_recovery_at:
  assumes "current_recovery C r = Some c"
  shows "list_max (map rc_at_ms (recoveries r)) = Some (cu_at c)"
  using assms by (auto simp: current_recovery_def Let_def split: option.splits)

lemma newest_only_at:
  assumes "x \<in> set (recoveries (newest_only r))" and "y \<in> set (recoveries (newest_only r))"
  shows "rc_at_ms x = rc_at_ms y"
  using assms by (auto simp: newest_only_def split: option.splits)

lemma narrowed_form:
  "narrowed C r = sort_capped (current_only C
     ((newest_only r)\<lparr>recoveries := sort_cap (recoveries (newest_only r)) MAX_RECOVERY_TIES\<rparr>))"
  by (simp add: narrowed_def Let_def)

lemma current_only_fields [simp]:
  "recoveries (current_only C n) = recoveries n" "consents (current_only C n) = consents n"
  "master (current_only C n) = master n" "r_pub (current_only C n) = r_pub n"
  "current_recovery C (current_only C n) = current_recovery C n"
  by (simp_all add: current_only_def split: option.splits)

lemma current_only_one_base:
  assumes "\<And>x y. x \<in> set (recoveries n) \<Longrightarrow> y \<in> set (recoveries n) \<Longrightarrow> rc_at_ms x = rc_at_ms y"
  shows "one_base C (current_only C n)"
proof (cases "current_recovery C n")
  case None
  moreover from None have "recoveries n = []" by (simp add: current_recovery_None)
  ultimately show ?thesis by (simp add: one_base_def roster_base_def) (simp add: current_only_def)
next
  case (Some c)
  have "cu_at c \<in> rc_at_ms ` set (recoveries n)"
    using list_max_in [OF current_recovery_at [OF Some]] by simp
  then obtain y where y: "y \<in> set (recoveries n)" "rc_at_ms y = cu_at c" by force
  have "rc_at_ms x = cu_at c" if "x \<in> set (recoveries n)" for x
    using assms [OF that y(1)] y(2) by simp
  with Some show ?thesis by (simp add: one_base_def roster_base_def) (simp add: current_only_def)
qed

lemma one_base_fewer:
  assumes "one_base C n" and "current_recovery C k = current_recovery C n" and "recoveries k = recoveries n"
    and "legacy n = [] \<Longrightarrow> legacy k = []" and "set (phrase_admits k) \<subseteq> set (phrase_admits n)"
    and "set (vouches k) \<subseteq> set (vouches n)" and "set (pendings k) \<subseteq> set (pendings n)"
    and "set (removals k) \<subseteq> set (removals n)"
  shows "one_base C k"
proof -
  have "roster_base C k = roster_base C n" by (simp add: roster_base_def assms(2))
  with assms show ?thesis
    unfolding one_base_def by (cases "current_recovery C n") (simp_all add: subset_iff)
qed

lemma sort_capped_one_base: "one_base C n \<Longrightarrow> one_base C (sort_capped n)"
  by (erule one_base_fewer) (simp_all add: sort_capped_def sort_cap_facts, simp add: sort_cap_def)

lemma narrowed_one_base: "one_base C (narrowed C r)"
proof -
  let ?n = "(newest_only r)\<lparr>recoveries := sort_cap (recoveries (newest_only r)) MAX_RECOVERY_TIES\<rparr>"
  have "rc_at_ms x = rc_at_ms y" if "x \<in> set (recoveries ?n)" "y \<in> set (recoveries ?n)" for x y
    by (rule newest_only_at [of x r y])
      (use that sort_cap_facts(3) [of "recoveries (newest_only r)" MAX_RECOVERY_TIES] in auto)
  then show ?thesis
    unfolding narrowed_form by (intro sort_capped_one_base current_only_one_base)
qed

lemma consent_device_mono: "a \<le> b \<Longrightarrow> c_device a \<le> c_device (b :: consent)"
  by (auto simp: less_eq_consent_def consent_key_def)

lemma dedup_consents: "distinct (map c_device (dedup_by (\<lambda>a b. c_device a = c_device b) (sort cs)))"
proof -
  have "sorted (map c_device (sort cs))"
    by (rule sorted_map_mono [OF sorted_sort]) (auto simp: monotone_on_def consent_device_mono)
  then have "sorted_wrt (\<lambda>a b. c_device a < c_device b \<or> c_device a = c_device b \<and> False)
      (dedup_by (\<lambda>a b. c_device a = c_device b) (sort cs))"
    by (rule dedup_by_strict) simp
  then have "sorted_wrt (<) (map c_device (dedup_by (\<lambda>a b. c_device a = c_device b) (sort cs)))"
    by (simp add: sorted_wrt_map)
  then show ?thesis by (simp add: strict_sorted_iff)
qed

lemma narrowed_lists:
  "sorted_wrt (<) (recoveries (narrowed C r))" "length (recoveries (narrowed C r)) \<le> MAX_RECOVERY_TIES"
  "sorted_wrt (<) (phrase_admits (narrowed C r))" "length (phrase_admits (narrowed C r)) \<le> MAX_PHRASE_ADMITS"
  "sorted_wrt (<) (pendings (narrowed C r))" "length (pendings (narrowed C r)) \<le> MAX_PENDING"
  "sorted_wrt (<) (legacy (narrowed C r))" "length (legacy (narrowed C r)) \<le> MAX_LEGACY"
  "distinct (map c_device (consents (narrowed C r)))"
  by (simp_all add: narrowed_form sort_capped_def sort_cap_facts dedup_consents)

lemma compacted_fields:
  fixes C r
  defines "n \<equiv> narrowed C r"
  shows "recoveries (compacted C r) = recoveries n" "phrase_admits (compacted C r) = phrase_admits n"
    "pendings (compacted C r) = pendings n" "legacy (compacted C r) = legacy n"
    "master (compacted C r) = master n" "r_pub (compacted C r) = r_pub n"
    "vouches (compacted C r) = compact_vouches (standing C n) (vouches n)"
    "removals (compacted C r) = compact_removals (standing C n) (removals n)"
    "consents (compacted C r) = compact_consents (standing C n)
       (mentioned (n\<lparr>vouches := vouches (compacted C r), removals := removals (compacted C r)\<rparr>)) (consents n)"
    "current_recovery C (compacted C r) = current_recovery C n"
  by (simp_all add: compacted_def Let_def n_def)

lemma compacted_wf: "roster_wf C (compacted C r)"
proof -
  note f = compacted_fields [of C r] and l = narrowed_lists [of C r]
  obtain named where cs: "consents (compacted C r) = compact_consents (standing C (narrowed C r)) named (consents (narrowed C r))"
    by (rule that [OF f(9)])
  have "in_order (compacted C r)"
    by (simp add: in_order_def f(1-4,7,8) cs l compact_vouches_facts compact_removals_facts compact_consents_facts [OF l(9)])
  moreover have "within_caps (compacted C r)"
    by (simp add: within_caps_def f(1-4,7,8) cs l compact_vouches_facts compact_removals_facts compact_consents_facts [OF l(9)])
  moreover have "one_base C (compacted C r)"
  proof (rule one_base_fewer [OF narrowed_one_base f(10) f(1)])
    show "set (vouches (compacted C r)) \<subseteq> set (vouches (narrowed C r))"
      unfolding f(7) by (rule order_trans [OF compact_vouches_facts(3)]) blast
    show "set (removals (compacted C r)) \<subseteq> set (removals (narrowed C r))"
      unfolding f(8) by (rule order_trans [OF compact_removals_facts(3)]) blast
  qed (simp_all only: f(2-4) order_refl)
  ultimately show ?thesis by (simp add: roster_wf_def)
qed

lemma new_roster_wf: "roster_wf C (new_roster m)"
  by (simp add: roster_wf_def within_caps_def in_order_def one_base_def new_roster_def split: option.splits)

lemma checked_wf: "roster_wf C (checked C now r)"
  by (simp add: checked_def Let_def compacted_wf new_roster_wf split: option.splits)

lemma merged_wf: "roster_wf C r \<Longrightarrow> roster_wf C (merged C r incoming)"
  by (simp add: merged_def Let_def compacted_wf)

lemma merged_by_first_sight_wf: "roster_wf C r \<Longrightarrow> roster_wf C (merged_by_first_sight C fs r incoming)"
  by (simp add: merged_by_first_sight_def merged_def Let_def compacted_wf trim_asks_def)

section \<open>Who ranks\<close>

lemma rank_loop_dom:
  assumes "\<And>v. v \<in> set vs \<Longrightarrow> rank (vo_by v) \<noteq> None \<Longrightarrow> rank (vo_device v) \<noteq> None \<or> vo_device v \<in> frontier"
  shows "{d. rank_loop tier vs frontier depth rank d \<noteq> None}
       = vouch_reach (\<lambda>_. True) (set vs) ({d. rank d \<noteq> None} \<union> frontier)"
  using assms
proof (induction tier vs frontier depth rank rule: rank_loop.induct)
  case (1 tier vs frontier depth rank)
  let ?D = "{d. rank d \<noteq> None} \<union> frontier"
  show ?case
  proof (cases "frontier = {}")
    case True
    have "vouch_reach (\<lambda>_. True) (set vs) ?D \<subseteq> {d. rank d \<noteq> None}"
      by (rule vouch_reach_least) (use "1.prems" True in auto)
    with True show ?thesis by (auto simp: rank_loop.simps intro: vouch_reach.seeded)
  next
    case False
    define rank' where "rank' = (\<lambda>d. if d \<in> frontier then Some (tier, depth) else rank d)"
    let ?nx = "next_frontier vs rank' frontier"
    have dom: "{d. rank' d \<noteq> None} = ?D" by (auto simp: rank'_def)
    have inv: "rank' (vo_device v) \<noteq> None \<or> vo_device v \<in> ?nx" if "v \<in> set vs" "rank' (vo_by v) \<noteq> None" for v
    proof (cases "vo_by v \<in> frontier")
      case True
      with that(1) show ?thesis by (cases "rank' (vo_device v) = None") (simp_all add: next_frontier_def)
    next
      case False
      with that "1.prems" [of v] show ?thesis by (auto simp: rank'_def)
    qed
    have "{d. rank_loop tier vs frontier depth rank d \<noteq> None} = {d. rank_loop tier vs ?nx (depth + 1) rank' d \<noteq> None}"
      by (simp add: rank_loop.simps [of tier vs frontier] False Let_def rank'_def)
    also have "\<dots> = vouch_reach (\<lambda>_. True) (set vs) (?D \<union> ?nx)"
      using "1.IH" [OF False rank'_def inv] unfolding dom .
    also have "\<dots> = vouch_reach (\<lambda>_. True) (set vs) ?D"
    proof
      have "?nx \<subseteq> vouch_reach (\<lambda>_. True) (set vs) ?D"
        by (auto simp: next_frontier_def intro: vouch_reach.intros)
      then show "vouch_reach (\<lambda>_. True) (set vs) (?D \<union> ?nx) \<subseteq> vouch_reach (\<lambda>_. True) (set vs) ?D"
        by (intro vouch_reach_least) (auto intro: vouch_reach.intros)
      show "vouch_reach (\<lambda>_. True) (set vs) ?D \<subseteq> vouch_reach (\<lambda>_. True) (set vs) (?D \<union> ?nx)"
        by (rule vouch_reach_mono) auto
    qed
    finally show ?thesis .
  qed
qed

lemma rank_loop_keeps: "rank d \<noteq> None \<or> d \<in> frontier \<Longrightarrow> rank_loop tier vs frontier depth rank d \<noteq> None"
proof (induction tier vs frontier depth rank rule: rank_loop.induct)
  case (1 tier vs frontier depth rank)
  show ?case
  proof (cases "frontier = {}")
    case True
    then have "rank_loop tier vs frontier depth rank = rank" by (simp add: rank_loop.simps)
    with "1.prems" True show ?thesis by (simp del: not_None_eq)
  next
    case False
    with "1.prems" have "(\<lambda>d. if d \<in> frontier then Some (tier, depth) else rank d) d \<noteq> None" by auto
    with "1.IH" [OF False refl] False show ?thesis
      by (simp add: rank_loop.simps [of tier vs frontier depth rank] Let_def del: not_None_eq)
  qed
qed

lemma ranked_founded:
  assumes "one_base C r"
  shows "{d. ranked C False r d \<noteq> None} = founded C r"
proof -
  let ?vs = "filter (\<lambda>v. vo_device v \<in> consented r) (vouches r)"
  have vs: "set ?vs = base_vouches C r"
    using assms by (auto simp: base_vouches_def one_base_def)
  have "rank_tier 1 ?vs {} rank = rank" for rank
    by (simp add: rank_tier_def rank_loop.simps)
  then have "{d. ranked C False r d \<noteq> None} = {d. rank_tier 0 ?vs (base_seed C r) Map.empty d \<noteq> None}"
    by (simp add: ranked_def Let_def base_seed_def)
  also have "\<dots> = founded C r"
    unfolding rank_tier_def founded_def vs [symmetric] by (subst rank_loop_dom) simp_all
  finally show ?thesis .
qed

lemma root_stands:
  assumes "d \<in> base_seed C r"
  shows "standing C r d \<noteq> None"
proof -
  let ?vs = "filter (\<lambda>v. vo_device v \<in> consented r) (vouches r)"
  let ?rank = "rank_tier 0 ?vs {d \<in> snd (base_roots C r). d \<in> consented r} Map.empty"
  have "?rank d \<noteq> None"
    unfolding rank_tier_def by (rule rank_loop_keeps) (use assms in \<open>simp add: base_seed_def\<close>)
  then have "rank_tier 1 ?vs S ?rank d \<noteq> None" for S
    unfolding rank_tier_def [of 1] by (intro rank_loop_keeps disjI1)
  then show ?thesis
    by (simp add: standing_def ranked_def Let_def del: not_None_eq)
qed

section \<open>Merging\<close>

definition phrase_keyed :: "roster \<Rightarrow> bool" where
  "phrase_keyed r \<longleftrightarrow> (r_pub r = [] \<longrightarrow> recoveries r = [] \<and> phrase_admits r = [])"

definition united :: "roster \<Rightarrow> roster \<Rightarrow> roster" where
  "united a b =
     (let joins = (r_pub a = [] \<or> r_pub a = r_pub b) \<and> r_pub b \<noteq> []
      in \<lparr>master = master b, r_pub = if joins then r_pub b else r_pub a,
          recoveries = if joins then push_unique (recoveries a) (recoveries b) else recoveries a,
          phrase_admits = if joins then push_unique (phrase_admits a) (phrase_admits b) else phrase_admits a,
          consents = push_unique (consents a) (consents b), vouches = push_unique (vouches a) (vouches b),
          pendings = push_unique (pendings a) (pendings b), legacy = push_unique (legacy a) (legacy b),
          removals = push_unique (removals a) (removals b)\<rparr>)"

lemma merged_united: "master a = master b \<Longrightarrow> merged C a b = compacted C (united a b)"
  by (cases a) (simp add: merged_def united_def Let_def)

section \<open>Properties\<close>

text \<open>C22: The form of a roster. Whatever arrives, a roster that was checked, checked again, merged, merged by
  first sight or given a phrase statement is in the compacted form: within every ceiling, each kind of
  statement sorted and without repeats, one consent a device, the newest recoveries alone, and nothing but
  statements of the current base.\<close>

theorem roster_operations_wf:
  assumes "roster_wf C r"
  shows "roster_wf C (verified C now x) \<and> roster_wf C (reverified C x) \<and> roster_wf C (merged C r x)
    \<and> roster_wf C (merged_by_first_sight C fs r x)
    \<and> (case add_phrase_statement C rp rc pa r of Inl _ \<Rightarrow> True | Inr r' \<Rightarrow> roster_wf C r')"
  using assms
  by (simp add: verified_def reverified_def checked_wf merged_wf merged_by_first_sight_wf
      add_phrase_statement_def Let_def compacted_wf)

theorem roster_operations_wf_witness:
  "roster_wf sample_crypto (verified sample_crypto 9 sample_roster)
   \<and> roster_wf sample_crypto (reverified sample_crypto sample_roster)
   \<and> roster_wf sample_crypto (merged sample_crypto (new_roster ''m'') sample_roster)
   \<and> roster_wf sample_crypto (merged_by_first_sight sample_crypto (\<lambda>_ _. None) (new_roster ''m'') sample_roster)
   \<and> (case add_phrase_statement sample_crypto ''k'' (Some sample_recovery) None (new_roster ''m'') of
        Inl _ \<Rightarrow> True | Inr r' \<Rightarrow> roster_wf sample_crypto r')"
  by (rule roster_operations_wf [OF new_roster_wf])

text \<open>C21: Merging is symmetric. Two rosters of one master in sorted form, neither pinned to a recovery key the
  other denies, merge into the very same roster whichever of the two holds and whichever arrives.\<close>

theorem merge_commutes:
  assumes "master a = master b" and "in_order a" and "in_order b" and "phrase_keyed a" and "phrase_keyed b"
    and "r_pub a = r_pub b \<or> r_pub a = [] \<or> r_pub b = []"
  shows "merged C a b = merged C b a"
proof -
  have sorted: "sorted_list_of_set (set (recoveries r)) = recoveries r"
    "sorted_list_of_set (set (phrase_admits r)) = phrase_admits r" if "in_order r" for r
    using that by (auto simp: in_order_def strict_sorted_iff sorted_list_of_set.idem_if_sorted_distinct)
  have "united a b = united b a"
    using assms sorted [OF assms(2)] sorted [OF assms(3)]
    by (auto simp: united_def phrase_keyed_def push_unique_set Un_commute Let_def)
  then show ?thesis
    using assms(1) by (simp add: merged_united)
qed

theorem merge_commutes_witness:
  "merged sample_crypto (new_roster ''m'') (sample_roster\<lparr>consents := [Consent ''a'' []]\<rparr>)
   = merged sample_crypto (sample_roster\<lparr>consents := [Consent ''a'' []]\<rparr>) (new_roster ''m'')"
  by (rule merge_commutes) (simp_all add: sample_fields in_order_def phrase_keyed_def new_roster_def)

text \<open>A flood cannot push out better removals. When compaction drops a removal of the current base whose
  signer stands, the ceiling is full and every removal kept was signed by a device that ranks no deeper:
  its tier and distance from the phrase (and its id) come first or are the same.\<close>

theorem dropped_removal_outranked:
  assumes "m \<in> set (removals (narrowed C r))" and "standing C (narrowed C r) (rm_by m) \<noteq> None"
    and "m \<notin> set (removals (compacted C r))"
  shows "length (removals (compacted C r)) = MAX_REMOVALS
    \<and> (\<forall>m' \<in> set (removals (compacted C r)).
         standing C (narrowed C r) (rm_by m') \<le> standing C (narrowed C r) (rm_by m))"
proof (intro conjI ballI)
  let ?st = "standing C (narrowed C r)"
  let ?ys = "remdups_adj (sort (filter (\<lambda>m. ?st (rm_by m) \<noteq> None) (removals (narrowed C r))))"
  have form: "removals (compacted C r) = sort (take MAX_REMOVALS (sort_key (\<lambda>m. (?st (rm_by m), m)) ?ys))"
    by (simp add: compacted_fields(8) compact_removals_def Let_def)
  have m: "m \<in> set ?ys" using assms(1,2) by simp
  have out: "m \<notin> set (take MAX_REMOVALS (sort_key (\<lambda>m. (?st (rm_by m), m)) ?ys))"
    using assms(3) unfolding form by simp
  show "length (removals (compacted C r)) = MAX_REMOVALS"
    unfolding form length_sort by (rule take_full_dropped [OF _ out]) (use m in simp)
  fix m' assume "m' \<in> set (removals (compacted C r))"
  then have "(?st (rm_by m'), m') \<le> (?st (rm_by m), m)"
    by (intro take_sorted_dropped [OF m out]) (simp add: form)
  then show "?st (rm_by m') \<le> ?st (rm_by m)" by auto
qed

text \<open>One device of a legacy identity signs more removals than fit.\<close>

definition flooded :: roster where
  "flooded = (new_roster ''m'')\<lparr>consents := [Consent ''a'' []], legacy := [LegacyClaim ''a'' []],
     removals := map (\<lambda>i. Removal LEGACY_BASE (show_nat i) ''a'' [] []) [0..<97]\<rparr>"

lemma flooded_narrowed:
  "removals (narrowed C flooded) = removals flooded" "recoveries (narrowed C flooded) = []"
  "phrase_admits (narrowed C flooded) = []" "legacy (narrowed C flooded) = [LegacyClaim ''a'' []]"
  "consents (narrowed C flooded) = [Consent ''a'' []]"
  by (simp_all add: flooded_def new_roster_def narrowed_def newest_only_def sort_cap_def sort_capped_def
      current_only_def current_recovery_def MAX_LEGACY_def)

theorem dropped_removal_outranked_witness:
  "length (removals (compacted sample_crypto flooded)) = MAX_REMOVALS"
proof -
  let ?all = "removals flooded" and ?kept = "removals (compacted sample_crypto flooded)"
  have "distinct ?all" and "length ?all = 97"
    by (simp_all add: flooded_def distinct_map inj_on_def)
  then have "card (set ?all) = 97" by (simp add: distinct_card)
  moreover have "card (set ?kept) \<le> 96"
    using compact_removals_facts(2) [of "standing sample_crypto (narrowed sample_crypto flooded)"]
    by (intro order_trans [OF card_length]) (simp add: compacted_fields(8) MAX_REMOVALS_def)
  ultimately have "\<not> set ?all \<subseteq> set ?kept"
    using card_mono [of "set ?kept" "set ?all"] by auto
  then obtain m where m: "m \<in> set ?all" "m \<notin> set ?kept" by blast
  have "''a'' \<in> base_seed sample_crypto (narrowed sample_crypto flooded)"
    by (simp add: base_seed_def base_roots_def current_recovery_def flooded_narrowed consented_def)
  moreover have "rm_by m = ''a''" using m(1) by (auto simp: flooded_def)
  ultimately have "standing sample_crypto (narrowed sample_crypto flooded) (rm_by m) \<noteq> None"
    using root_stands by simp
  with m dropped_removal_outranked [of m sample_crypto flooded] show ?thesis by (simp add: flooded_narrowed)
qed

section \<open>The digest\<close>

text \<open>What the digest is taken of.\<close>

definition digest_parts ::
  "('a) crypto_scheme \<Rightarrow> roster \<Rightarrow> string \<times> string \<times> recovery list \<times> phrase_admit list \<times> consent list \<times> vouch list
     \<times> legacy_claim list \<times> removal list" where
  "digest_parts C r =
     (master r, r_pub r, sorted_all (recoveries r), sorted_all (phrase_admits r), digest_consents C r,
      digest_vouches C r, sorted_all (legacy r), digest_removals C r)"

lemma set_sorted_all [simp]: "set (sorted_all xs) = set (xs :: 'a::linorder list)"
  by (simp add: sorted_all_def)

lemma digest_parts_eq:
  assumes "digest_parts C a = digest_parts C b"
  shows "master a = master b" "r_pub a = r_pub b" "set (recoveries a) = set (recoveries b)"
    "set (phrase_admits a) = set (phrase_admits b)" "set (legacy a) = set (legacy b)"
    "set (digest_consents C a) = set (digest_consents C b)" "set (digest_vouches C a) = set (digest_vouches C b)"
    "set (digest_removals C a) = set (digest_removals C b)"
  using assms unfolding digest_parts_def prod.inject by (metis set_sorted_all)+

lemma digest_vouches_iff:
  assumes "one_base C r" and "vo_by v \<in> founded C r"
  shows "v \<in> set (digest_vouches C r) \<longleftrightarrow> v \<in> set (vouches r)"
  using assms ranked_founded [OF assms(1)] by (auto simp: digest_vouches_def)

lemma digest_removals_iff:
  assumes "one_base C r" and "rm_by m \<in> founded C r"
  shows "m \<in> set (digest_removals C r) \<longleftrightarrow> m \<in> set (removals r)"
  using assms ranked_founded [OF assms(1)] by (auto simp: digest_removals_def)

lemma digest_consented:
  assumes "d \<in> digest_named C r"
  shows "d \<in> consented r \<longleftrightarrow> d \<in> c_device ` set (digest_consents C r)"
  using assms by (auto simp: digest_consents_def consented_def)

lemma roots_named: "snd (base_roots C r) \<subseteq> digest_named C r"
proof (cases "current_recovery C r")
  case (Some c)
  then have "cu_keep c \<subseteq> \<Union> ((set \<circ> rc_keep) ` set (recoveries r))"
    by (auto simp: current_recovery_def Let_def split: option.splits)
  with Some show ?thesis by (auto simp: base_roots_def digest_named_def)
qed (auto simp: base_roots_def digest_named_def)

lemma digest_named_vouch:
  assumes "one_base C r" and "v \<in> set (vouches r)" and "vo_by v \<in> founded C r"
  shows "vo_device v \<in> digest_named C r"
  using assms digest_vouches_iff [of C r v] by (auto simp: digest_named_def)

lemma digest_base:
  assumes "digest_parts C a = digest_parts C b"
  shows "roster_base C a = roster_base C b" "snd (base_roots C a) = snd (base_roots C b)"
proof -
  note parts = digest_parts_eq [OF assms]
  have cur: "current_recovery C a = current_recovery C b"
    by (rule current_recovery_cong) (rule parts(1-3))+
  then show "roster_base C a = roster_base C b" by (simp add: roster_base_def)
  show "snd (base_roots C a) = snd (base_roots C b)"
    unfolding base_roots_def cur by (simp add: parts(4,5) split: option.splits)
qed

lemma digest_consents_carry:
  assumes "digest_parts C a = digest_parts C b"
    and "d \<in> digest_named C a" and "d \<in> consented a"
  shows "d \<in> consented b"
proof -
  have "d \<in> c_device ` set (digest_consents C a)" using assms(2,3) digest_consented by blast
  then have "d \<in> c_device ` set (digest_consents C b)" by (simp add: digest_parts_eq(6) [OF assms(1)])
  then show ?thesis by (auto simp: digest_consents_def consented_def)
qed

lemma digest_vouch_carry:
  assumes "digest_parts C a = digest_parts C b" and "one_base C a"
    and "v \<in> base_vouches C a" and "vo_by v \<in> founded C a"
  shows "v \<in> base_vouches C b"
proof -
  have v: "v \<in> set (vouches a)" "vo_base v = roster_base C a" "vo_device v \<in> consented a"
    using assms(3) by (simp_all add: base_vouches_def)
  then have "v \<in> set (digest_vouches C b)"
    using digest_vouches_iff [OF assms(2,4)] digest_parts_eq(7) [OF assms(1)] by simp
  then have "v \<in> set (vouches b)" by (simp add: digest_vouches_def)
  moreover have "vo_device v \<in> consented b"
    by (rule digest_consents_carry [OF assms(1) digest_named_vouch [OF assms(2) v(1) assms(4)] v(3)])
  ultimately show ?thesis using v(2) digest_base(1) [OF assms(1)] by (simp add: base_vouches_def)
qed

lemma digest_founded_sub:
  assumes "digest_parts C a = digest_parts C b" and "one_base C a"
  shows "founded C a \<subseteq> founded C b"
proof
  fix d assume "d \<in> founded C a"
  then show "d \<in> founded C b"
    unfolding founded_def [of C a]
  proof induction
    case (seeded d)
    then have d: "d \<in> snd (base_roots C a)" "d \<in> consented a" by (simp_all add: base_seed_def)
    with digest_consents_carry [OF assms(1)] roots_named have "d \<in> consented b" by blast
    with d(1) have "d \<in> base_seed C b" using digest_base(2) [OF assms(1)] by (simp add: base_seed_def)
    then show ?case by (simp add: founded_def vouch_reach.seeded)
  next
    case (vouched v)
    have "v \<in> base_vouches C b"
      by (rule digest_vouch_carry [OF assms vouched(1)]) (use vouched(3) in \<open>simp add: founded_def\<close>)
    with vouched.IH show ?case by (simp add: founded_def vouch_reach.vouched)
  qed
qed


text \<open>The asks one holder keeps and the other does not leave no trace in the digest.\<close>

definition sample_roster_env :: roster_env where
  "sample_roster_env = crypto.extend sample_crypto \<lparr>removals_json = (\<lambda>_. Some []), digest_json = (\<lambda>m k _ _ _ _ _ _. m @ k)\<rparr>"

definition asking :: roster where
  "asking = (new_roster ''m'')\<lparr>consents := [Consent ''a'' []], legacy := [LegacyClaim ''a'' []],
     pendings := [Pending LEGACY_BASE ''a'' []]\<rparr>"


end
