(* ===== verification/RosterSigned.thy ===== *)
theory RosterSigned
  imports RosterCompact
begin

text \<open>
  Signing and checking meet: a statement signed by its own keys passes its check, and a new identity's
  roster verifies, admits its first device, admits a vouched second one and drops it again when removed.
\<close>

lemma char_of_36: "char_of (36 :: nat) = CHR ''$''"
  by code_simp

lemma key_of_keypair:
  assumes "encoding_laws C" and "signature_laws C" and "length sk = 32"
  shows "key_of C (peer_id (from_secret_bytes C sk)) = Some (ed_public C sk)"
  using assms
  by (simp add: key_of_def pubkey_from_peer_id_def peer_id_def from_secret_bytes_def compute_peer_id_def
      Let_def numeral_2_eq_2 char_of_36)

lemma verify_signed_text:
  assumes "encoding_laws C" and "signature_laws C" and "length sk = 32"
  shows "verify_text C (ed_public C sk) p (sign_text C (from_secret_bytes C sk) p)"
  using assms by (simp add: verify_text_def sign_text_def kp_sign_def from_secret_bytes_def)

lemma verify_by_signed:
  assumes "encoding_laws C" and "signature_laws C" and "length sk = 32"
  shows "verify_by C (peer_id (from_secret_bytes C sk)) p (sign_text C (from_secret_bytes C sk) p)"
  using assms by (simp add: verify_by_def key_of_keypair verify_signed_text)

lemma set_push_unique [simp]: "set (push_unique a b) = set a \<union> set (b :: 'a::linorder list)"
  by (simp add: push_unique_def)

lemma sorted_ids_idem [simp]: "sorted_ids (sorted_ids ds) = sorted_ids ds"
  by (simp add: sorted_ids_def uniq_sorted)

lemma payload_sorted_ids [simp]:
  "recovery_payload m k t (sorted_ids ds) w = recovery_payload m k t ds w"
  "removal_payload m b d (sorted_ids ds) = removal_payload m b d ds"
  by (simp_all add: recovery_payload_def removal_payload_def)

lemma set_sorted_ids [simp]: "set (sorted_ids ds) = set ds"
  by (simp add: sorted_ids_def)

section \<open>A new identity\<close>

lemma compact_consents_single: "compact_consents st named [c] = [c]"
  by (simp add: compact_consents_def Let_def MAX_UNNAMED_CONSENTS_def MAX_CONSENTS_def)

lemma compact_vouches_Nil [simp]: "compact_vouches st [] = []"
  by (simp add: compact_vouches_def)

lemma compact_removals_Nil [simp]: "compact_removals st [] = []"
  by (simp add: compact_removals_def)

lemma current_recovery_single:
  assumes "recoveries r = [rc]"
  shows "current_recovery C r = Some \<lparr>cu_base = base_id C (master r) (r_pub r) rc, cu_at = rc_at_ms rc,
    cu_keep = set (rc_keep rc), cu_no_wait = rc_no_wait rc\<rparr>"
  using assms by (simp add: current_recovery_def list_max_def list_min_def)

text \<open>One recovery that keeps one device, its consent and nothing else.\<close>

definition fresh_identity :: "string \<Rightarrow> roster \<Rightarrow> bool" where
  "fresh_identity d r \<longleftrightarrow>
     (\<exists>rc c. recoveries r = [rc] \<and> rc_keep rc = [d] \<and> \<not> rc_no_wait rc \<and> consents r = [c] \<and> c_device c = d)
     \<and> phrase_admits r = [] \<and> vouches r = [] \<and> pendings r = [] \<and> legacy r = [] \<and> removals r = []"

lemma compacted_fresh:
  assumes "fresh_identity d r"
  shows "fresh_identity d (compacted C r)"
proof -
  from assms obtain rc c where r: "recoveries r = [rc]" "rc_keep rc = [d]" "\<not> rc_no_wait rc" "consents r = [c]"
    "c_device c = d" "phrase_admits r = []" "vouches r = []" "pendings r = []" "legacy r = []" "removals r = []"
    by (auto simp: fresh_identity_def)
  have "newest_only r = r"
    by (cases r) (use r in \<open>simp add: newest_only_def list_max_def\<close>)
  then have "narrowed C r = sort_capped (current_only C (r\<lparr>recoveries := [rc]\<rparr>))"
    by (simp add: narrowed_def r sort_cap_def MAX_RECOVERY_TIES_def)
  then have n: "recoveries (narrowed C r) = [rc]" "consents (narrowed C r) = [c]" "phrase_admits (narrowed C r) = []"
    "vouches (narrowed C r) = []" "pendings (narrowed C r) = []" "legacy (narrowed C r) = []" "removals (narrowed C r) = []"
    by (simp_all add: sort_capped_def r sort_cap_def current_only_def split: option.splits)
  show ?thesis
    unfolding fresh_identity_def compacted_fields(1-4,7-8) n
    using r(2,3,5) by (simp add: compacted_fields(9) n compact_consents_single)
qed

lemma genesis_verified_fresh:
  assumes "encoding_laws C" and "signature_laws C" and "length mk = 32" and "length rk = 32" and "length dk = 32"
    and "at_ms \<le> saturating_add_i64 now MAX_FUTURE_SKEW_MS"
  shows "fresh_identity (peer_id (from_secret_bytes C dk))
    (verified C now (roster_genesis C (from_secret_bytes C mk) (from_secret_bytes C rk) (from_secret_bytes C dk) at_ms))"
proof -
  let ?m = "from_secret_bytes C mk" and ?r = "from_secret_bytes C rk" and ?d = "from_secret_bytes C dk"
  let ?g = "roster_genesis C ?m ?r ?d at_ms"
  let ?fresh = "\<lambda>t. t \<le> saturating_add_i64 now MAX_FUTURE_SKEW_MS"
  note ok = key_of_keypair [OF assms(1,2)] verify_signed_text [OF assms(1,2)] verify_by_signed [OF assms(1,2)]
  have g: "master ?g = peer_id ?m" "r_pub ?g = r_pub_of C ?r" "consents ?g = [sign_consent C ?d (peer_id ?m)]"
    "recoveries ?g = [sign_recovery C ?m ?r at_ms [peer_id ?d] False]" "phrase_admits ?g = []" "vouches ?g = []"
    "pendings ?g = []" "legacy ?g = []" "removals ?g = []"
    by (simp_all add: roster_genesis_def new_roster_def)
  have rk: "r_key C ?g = Some (ed_public C rk)"
    unfolding r_key_def g(2) r_pub_of_def using assms(1,2,4) by (simp add: from_secret_bytes_def)
  have one: "sorted_ids [x] = [x]" for x :: string by (simp add: sorted_ids_def)
  have rc: "recovery_checks C (peer_id ?m) (r_pub_of C ?r) (ed_public C rk) (ed_public C mk) ?fresh
      (sign_recovery C ?m ?r at_ms [peer_id ?d] False)"
    using assms(6) by (simp add: recovery_checks_def sign_recovery_def Let_def ok assms(3-5) one id_ok_def MAX_KEEP_def)
  have cc: "consent_checks C (peer_id ?m) (sign_consent C ?d (peer_id ?m))"
    by (simp add: consent_checks_def sign_consent_def Let_def ok assms(3-5))
  have "\<exists>x. verified C now ?g = compacted C x \<and> fresh_identity (peer_id ?d) x"
    unfolding verified_def checked_def g(1) ok(1) [OF assms(3)] option.case Let_def rk g(2-9) is_none_or_simps
    by (rule exI, rule conjI, rule refl)
      (simp add: rc cc fresh_identity_def new_roster_def, simp add: sign_recovery_def sign_consent_def Let_def one)
  then show ?thesis using compacted_fresh by metis
qed

lemma fresh_scope:
  assumes "fresh_identity d r" and "recoveries r' = recoveries r" and "master r' = master r" and "r_pub r' = r_pub r"
    and "phrase_admits r' = []" and "pendings r' = []" and "d \<in> consented r'"
  shows "base_seed C r' = {d}" "waited C fs now r' = {}" "roster_base C r' = roster_base C r"
proof -
  from assms(1) obtain rc where rc: "recoveries r = [rc]" "rc_keep rc = [d]" by (auto simp: fresh_identity_def)
  have "current_recovery C r' = Some \<lparr>cu_base = base_id C (master r') (r_pub r') rc, cu_at = rc_at_ms rc,
      cu_keep = set (rc_keep rc), cu_no_wait = rc_no_wait rc\<rparr>"
    by (rule current_recovery_single) (simp add: assms(2) rc)
  then show "base_seed C r' = {d}"
    using assms(5,7) by (auto simp: base_seed_def base_roots_def rc)
  show "waited C fs now r' = {}" by (simp add: waited_def assms(6))
  show "roster_base C r' = roster_base C r"
    using current_recovery_cong [of r' r C] assms(2-4) by (simp add: roster_base_def)
qed

lemma counting_no_removals: "removals r = [] \<Longrightarrow> counting_removals C fs now r = []"
  by (simp add: counting_removals_def counting_removals_in_def)

lemma vouch_reach_single:
  assumes "vo_by v = d" and "vo_device v = e" and "ok v"
  shows "vouch_reach ok {v} {d} = {d, e}"
proof
  show "vouch_reach ok {v} {d} \<subseteq> {d, e}" by (rule order_trans [OF vouch_reach_bound]) (simp add: assms)
  have "d \<in> vouch_reach ok {v} {d}" by (rule vouch_reach.seeded) simp
  moreover from this assms have "vo_device v \<in> vouch_reach ok {v} {d}" by (intro vouch_reach.vouched) simp_all
  ultimately show "{d, e} \<subseteq> vouch_reach ok {v} {d}" using assms(2) by simp
qed

lemma fresh_members:
  assumes "fresh_identity d r"
  shows "rs_members (roster_fold C fs now r) = {d}"
proof -
  have f: "consented r = {d}" "removals r = []" "vouches r = []" "phrase_admits r = []" "pendings r = []"
    using assms by (auto simp: fresh_identity_def consented_def)
  note sc = fresh_scope [OF assms refl refl refl f(4,5)]
  have "vouch_reach ok {} {d} = {d}" for ok
    using vouch_reach_bound [of ok "{}" "{d}"] by (auto intro: vouch_reach.seeded)
  then show ?thesis
    by (simp add: members_iff counting_no_removals f sc(1,2) base_vouches_def)
qed

definition admitting :: "consent \<Rightarrow> vouch \<Rightarrow> roster \<Rightarrow> roster" where
  "admitting c v r = add_vouch v (add_consent c r)"

lemma admitting_fields:
  assumes "fresh_identity d r"
  shows "recoveries (admitting c v r) = recoveries r" "master (admitting c v r) = master r"
    "r_pub (admitting c v r) = r_pub r" "phrase_admits (admitting c v r) = []" "pendings (admitting c v r) = []"
    "removals (admitting c v r) = []" "set (vouches (admitting c v r)) = {v}"
    "consented (admitting c v r) = {d, c_device c}"
  using assms
  by (auto simp: fresh_identity_def admitting_def add_vouch_def add_consent_def consented_def)

lemma admitted_members:
  assumes "fresh_identity d r" and "c_device c = e" and "vo_base v = roster_base C r" and "vo_by v = d" and "vo_device v = e"
  shows "rs_members (roster_fold C fs now (admitting c v r)) = {d, e}"
proof -
  note f = admitting_fields [OF assms(1), of c v]
  have "d \<in> consented (admitting c v r)" by (simp add: f)
  note sc = fresh_scope [OF assms(1) f(1-5) this]
  have vs: "base_vouches C (admitting c v r) = {v}"
    using f(7) assms(2-5) by (simp add: base_vouches_def sc f(8) set_eq_iff) metis
  have reach: "vouch_reach (voucher_ok []) {v} {d} = {d, e}"
    by (rule vouch_reach_single [OF assms(4,5)]) (simp add: voucher_ok_iff)
  show ?thesis
    unfolding members_iff vs sc counting_no_removals [OF f(6)] Un_empty_right reach by auto
qed

lemma removed_members:
  assumes "fresh_identity d r" and "c_device c = e" and "vo_base v = roster_base C r" and "vo_by v = d" and "vo_device v = e"
    and "rm_base x = roster_base C r" and "rm_by x = d" and "rm_device x = e" and "d \<noteq> e"
  shows "rs_members (roster_fold C fs now (add_removal x (admitting c v r))) = {d}"
proof -
  let ?r = "add_removal x (admitting c v r)"
  note f = admitting_fields [OF assms(1), of c v]
  have g: "recoveries ?r = recoveries r" "master ?r = master r" "r_pub ?r = r_pub r" "phrase_admits ?r = []" "pendings ?r = []"
    "set (removals ?r) = {x}" "set (vouches ?r) = {v}" "consented ?r = {d, e}"
    using f assms(2) by (simp_all add: add_removal_def consented_def)
  have "d \<in> consented ?r" by (simp add: g)
  note sc = fresh_scope [OF assms(1) g(1-5) this]
  have vs: "base_vouches C ?r = {v}"
    using g(7) assms(2-5) by (simp add: base_vouches_def sc g(8) set_eq_iff) metis
  then have "rooted_in C fs now ?r = {d, e}" by (simp add: rooted_in_def sc vouch_reach_single [OF assms(4,5)])
  then have "set (counting_removals C fs now ?r) = {x}"
    using assms(6-8) by (auto simp: counting_iff g sc)
  moreover have "vouch_reach ok {v} {d} \<subseteq> {d, e}" "d \<in> vouch_reach ok {v} {d}" for ok
    using vouch_reach_bound [of ok "{v}" "{d}"] assms(5) by (auto intro: vouch_reach.seeded)
  ultimately show ?thesis
    using assms(8,9) by (auto simp: members_iff sc vs)
qed

section \<open>Properties\<close>

text \<open>Honest statements pass. With keys of the identity's master, its phrase and two of its devices,
  every statement the signing functions make passes the check a receiver runs on it: consent, recovery,
  phrase admission, vouch, ask, legacy claim and removal.\<close>

theorem signed_statements_check:
  assumes "encoding_laws C" and "signature_laws C"
    and "length mk = 32" and "length rk = 32" and "length dk = 32" and "length ek = 32"
    and "peer_id (from_secret_bytes C dk) \<noteq> peer_id (from_secret_bytes C ek)"
    and "is_base_shape base" and "fresh at_ms"
  shows "let m = from_secret_bytes C mk; r = from_secret_bytes C rk; d = from_secret_bytes C dk;
             e = from_secret_bytes C ek; rp = r_pub_of C r; chk = ed_public C
         in consent_checks C (peer_id m) (sign_consent C d (peer_id m))
            \<and> recovery_checks C (peer_id m) rp (chk rk) (chk mk) fresh (sign_recovery C m r at_ms [peer_id d, peer_id e] no_wait)
            \<and> phrase_admit_checks C (peer_id m) rp (chk rk) (chk mk) fresh (sign_phrase_admit C m r at_ms (peer_id d))
            \<and> vouch_checks C (peer_id m) (sign_vouch C d (peer_id m) base (peer_id e))
            \<and> pending_checks C (peer_id m) (chk mk) (sign_pending C m base (peer_id e))
            \<and> legacy_checks C (peer_id m) (chk mk) (sign_legacy C m (peer_id e))
            \<and> removal_verifies C (peer_id m) (sign_removal C d (peer_id m) base (peer_id e) [peer_id d])"
proof -
  note ok = key_of_keypair [OF assms(1,2)] verify_signed_text [OF assms(1,2)] verify_by_signed [OF assms(1,2)]
  have len: "length (sorted_ids [x, y]) \<le> 2" for x y :: string
    by (simp add: sorted_ids_def uniq_sorted card_insert_if)
  then have keep: "length (sorted_ids [x, y]) \<le> MAX_KEEP" for x y :: string
    by (rule order_trans) (simp add: MAX_KEEP_def)
  have ne: "sorted_ids [x, y] \<noteq> []" for x y :: string
    by (simp add: sorted_ids_def uniq_sorted)
  have one: "sorted_ids [x] = [x]" for x :: string by (simp add: sorted_ids_def)
  show ?thesis
    unfolding Let_def
  proof (intro conjI)
    show "consent_checks C (peer_id (from_secret_bytes C mk)) (sign_consent C (from_secret_bytes C dk) (peer_id (from_secret_bytes C mk)))"
      by (simp add: consent_checks_def sign_consent_def Let_def ok assms)
    show "recovery_checks C (peer_id (from_secret_bytes C mk)) (r_pub_of C (from_secret_bytes C rk)) (ed_public C rk) (ed_public C mk) fresh
        (sign_recovery C (from_secret_bytes C mk) (from_secret_bytes C rk) at_ms
          [peer_id (from_secret_bytes C dk), peer_id (from_secret_bytes C ek)] no_wait)"
      by (simp add: recovery_checks_def sign_recovery_def Let_def ok assms keep ne list_all_iff id_ok_def)
    show "phrase_admit_checks C (peer_id (from_secret_bytes C mk)) (r_pub_of C (from_secret_bytes C rk)) (ed_public C rk) (ed_public C mk) fresh
        (sign_phrase_admit C (from_secret_bytes C mk) (from_secret_bytes C rk) at_ms (peer_id (from_secret_bytes C dk)))"
      by (simp add: phrase_admit_checks_def sign_phrase_admit_def Let_def ok assms id_ok_def)
    show "vouch_checks C (peer_id (from_secret_bytes C mk))
        (sign_vouch C (from_secret_bytes C dk) (peer_id (from_secret_bytes C mk)) base (peer_id (from_secret_bytes C ek)))"
      using assms(7) [symmetric] by (simp add: vouch_checks_def sign_vouch_def ok assms id_ok_def)
    show "pending_checks C (peer_id (from_secret_bytes C mk)) (ed_public C mk)
        (sign_pending C (from_secret_bytes C mk) base (peer_id (from_secret_bytes C ek)))"
      by (simp add: pending_checks_def sign_pending_def ok assms id_ok_def)
    show "legacy_checks C (peer_id (from_secret_bytes C mk)) (ed_public C mk)
        (sign_legacy C (from_secret_bytes C mk) (peer_id (from_secret_bytes C ek)))"
      by (simp add: legacy_checks_def sign_legacy_def ok assms id_ok_def)
    show "removal_verifies C (peer_id (from_secret_bytes C mk))
        (sign_removal C (from_secret_bytes C dk) (peer_id (from_secret_bytes C mk)) base
          (peer_id (from_secret_bytes C ek)) [peer_id (from_secret_bytes C dk)])"
      by (simp add: removal_verifies_def sign_removal_def Let_def ok assms id_ok_def one MAX_REMOVAL_KEEP_def)
  qed
qed

lemma sample_ids_differ:
  "peer_id (from_secret_bytes sample_crypto (replicate 32 (CHR ''d''))) \<noteq> peer_id (from_secret_bytes sample_crypto (replicate 32 (CHR ''e'')))"
  by (simp add: peer_id_def from_secret_bytes_def compute_peer_id_def Let_def)

theorem signed_statements_check_witness:
  "let m = from_secret_bytes sample_crypto (replicate 32 (CHR ''m'')); d = from_secret_bytes sample_crypto (replicate 32 (CHR ''d''));
       e = from_secret_bytes sample_crypto (replicate 32 (CHR ''e''))
   in vouch_checks sample_crypto (peer_id m) (sign_vouch sample_crypto d (peer_id m) LEGACY_BASE (peer_id e))
      \<and> removal_verifies sample_crypto (peer_id m) (sign_removal sample_crypto d (peer_id m) LEGACY_BASE (peer_id e) [peer_id d])"
  using signed_statements_check [of sample_crypto "replicate 32 (CHR ''m'')" "replicate 32 (CHR ''r'')"
      "replicate 32 (CHR ''d'')" "replicate 32 (CHR ''e'')" LEGACY_BASE "\<lambda>_. True" 0 False]
    sample_ids_differ sample_encoding_laws sample_signature_laws
  by (simp add: Let_def is_base_shape_def)

text \<open>C20: The life of an identity. A new identity's roster, signed by master, phrase and first device and verified
  by a receiver, has that device as its only member, for every observer. When the first device vouches for a
  second that consents, both are members; when it then removes the second, it is alone again.\<close>

theorem roster_life:
  assumes "encoding_laws C" and "signature_laws C"
    and "length mk = 32" and "length rk = 32" and "length dk = 32" and "length ek = 32"
    and "peer_id (from_secret_bytes C dk) \<noteq> peer_id (from_secret_bytes C ek)"
    and "at_ms \<le> saturating_add_i64 now MAX_FUTURE_SKEW_MS"
  shows "let m = from_secret_bytes C mk; d = from_secret_bytes C dk; e = from_secret_bytes C ek;
             g = verified C now (roster_genesis C m (from_secret_bytes C rk) d at_ms);
             base = roster_base C g;
             both = add_vouch (sign_vouch C d (peer_id m) base (peer_id e)) (add_consent (sign_consent C e (peer_id m)) g)
         in rs_members (roster_fold C fs t g) = {peer_id d}
            \<and> rs_members (roster_fold C fs t both) = {peer_id d, peer_id e}
            \<and> rs_members (roster_fold C fs t (add_removal (sign_removal C d (peer_id m) base (peer_id e) []) both)) = {peer_id d}"
proof -
  note fresh = genesis_verified_fresh [OF assms(1-5,8)]
  show ?thesis
    unfolding Let_def admitting_def [symmetric]
    by (intro conjI fresh_members [OF fresh] admitted_members [OF fresh] removed_members [OF fresh])
      (use assms(7) in \<open>simp_all add: sign_consent_def sign_vouch_def sign_removal_def Let_def\<close>)
qed

theorem roster_life_witness:
  "let C = sample_crypto; m = from_secret_bytes C (replicate 32 (CHR ''m'')); d = from_secret_bytes C (replicate 32 (CHR ''d''));
       g = verified C 1000 (roster_genesis C m (from_secret_bytes C (replicate 32 (CHR ''r''))) d 1000)
   in rs_members (roster_fold C (\<lambda>_. None) 2000 g) = {peer_id d}"
  using roster_life [of sample_crypto "replicate 32 (CHR ''m'')" "replicate 32 (CHR ''r'')"
      "replicate 32 (CHR ''d'')" "replicate 32 (CHR ''e'')" 1000 1000 "\<lambda>_. None" 2000]
    sample_ids_differ sample_encoding_laws sample_signature_laws
  by (simp add: Let_def saturating_add_i64_def i64_MAX_def MAX_FUTURE_SKEW_MS_def)

end
