(* ===== verification/SafetyNumber.thy ===== *)
theory SafetyNumber
  imports JoinLock
begin

text \<open>
  Safety numbers (\<open>crypto/safety_number.rs\<close>): the sixty digits two people compare, and the comparison. The
  hash is the field \<open>sha512\<close> of \<open>crypto\<close>.
\<close>

unbundle bit_operations_syntax

definition VERSION :: bytes where "VERSION = [CHR 0x00, CHR 0x01]"

definition CONTEXT :: bytes where "CONTEXT = ''hollow-safety-number''"

definition ITERATIONS :: nat where "ITERATIONS = 5200"

definition DIGITS_PER_IDENTITY :: nat where "DIGITS_PER_IDENTITY = 30"

definition pad5 :: "string \<Rightarrow> string" where
  "pad5 s = replicate (5 - length s) (CHR ''0'') @ s"

definition chunk_value :: "bytes \<Rightarrow> u64" where
  "chunk_value bs = foldl (\<lambda>v b. push_bit 8 v OR of_nat (code_of b)) 0 bs"

fun chunk_digits :: "nat \<Rightarrow> bytes \<Rightarrow> string" where
  "chunk_digits 0 bs = []"
| "chunk_digits (Suc n) bs = pad5 (show_word (chunk_value (take 5 bs) mod 100000)) @ chunk_digits n (drop 5 bs)"

definition fingerprint_digits :: "('a) crypto_scheme \<Rightarrow> bytes \<Rightarrow> string" where
  "fingerprint_digits C pubkey =
     (let h = sha512 C (VERSION @ CONTEXT @ pubkey);
          h = ((\<lambda>h. sha512 C (h @ pubkey)) ^^ ITERATIONS) h
      in chunk_digits 6 (take 30 h))"

definition safety_number :: "('a) crypto_scheme \<Rightarrow> string \<Rightarrow> string \<Rightarrow> string + string" where
  "safety_number C peer_a peer_b =
     (case pubkey_from_peer_id C peer_a of
        None \<Rightarrow> Inl (''Not a valid Ed25519 peer_id: '' @ peer_a)
      | Some key_a \<Rightarrow>
          (case pubkey_from_peer_id C peer_b of
             None \<Rightarrow> Inl (''Not a valid Ed25519 peer_id: '' @ peer_b)
           | Some key_b \<Rightarrow>
               (let a = fingerprint_digits C key_a; b = fingerprint_digits C key_b
                in Inr (if a \<le> b then a @ b else b @ a))))"

definition normalize_safety_number :: "string \<Rightarrow> string" where
  "normalize_safety_number input = filter is_ascii_digit input"

definition safety_numbers_match :: "string \<Rightarrow> string \<Rightarrow> bool" where
  "safety_numbers_match x y =
     (let a = normalize_safety_number x; b = normalize_safety_number y in
      if length a \<noteq> length b \<or> length a \<noteq> DIGITS_PER_IDENTITY * 2 then False
      else foldl (\<lambda>diff (p, q). diff OR (of_nat (code_of p) XOR of_nat (code_of q))) (0 :: u8) (zip a b) = 0)"

section \<open>Digits\<close>

lemma show_nat_length: "n < 10 ^ k \<Longrightarrow> 0 < k \<Longrightarrow> length (show_nat n) \<le> k"
proof (induction k arbitrary: n)
  case (Suc k)
  show ?case
  proof (cases "n < 10")
    case True
    then show ?thesis by (simp add: show_nat.simps [of n])
  next
    case False
    with Suc.prems(1) have "n div 10 < 10 ^ k" by (simp add: div_less_iff_less_mult mult.commute)
    moreover from this False have "0 < k" by (cases k) auto
    ultimately have "length (show_nat (n div 10)) \<le> k" by (rule Suc.IH)
    with False show ?thesis by (simp add: show_nat.simps [of n])
  qed
qed simp

lemma pad5_length: "n < 100000 \<Longrightarrow> length (pad5 (show_nat n)) = 5"
  using show_nat_length [of n 5] by (simp add: pad5_def)

lemma pad5_digits: "list_all is_ascii_digit s \<Longrightarrow> list_all is_ascii_digit (pad5 s)"
  by (auto simp: pad5_def list_all_iff is_ascii_digit_def)

lemma unat_mod_100000: "unat (w mod 100000 :: u64) < 100000"
  by (simp add: unat_mod_distrib)

lemma chunk_digits_facts: "length (chunk_digits n bs) = 5 * n \<and> list_all is_ascii_digit (chunk_digits n bs)"
  by (induction n arbitrary: bs) (simp_all add: pad5_length unat_mod_100000 pad5_digits show_nat_digits)

lemma fingerprint_facts:
  "length (fingerprint_digits C pk) = 30" "list_all is_ascii_digit (fingerprint_digits C pk)"
  using chunk_digits_facts [of 6] by (simp_all add: fingerprint_digits_def Let_def)

lemma xor_zero: "(x XOR y = 0) = (x = (y :: u8))"
  by (auto simp: bit_eq_iff bit_xor_iff)

lemma byte_inject: "(of_nat (code_of p) :: u8) = of_nat (code_of q) \<longleftrightarrow> p = q"
proof -
  have "(of_nat (code_of p) :: u8) = of_nat (code_of q) \<longleftrightarrow> code_of p = code_of q"
    by (simp add: word_unat_eq_iff unsigned_of_nat take_bit_eq_mod)
  then show ?thesis by simp
qed

lemma diff_zero:
  "length a = length b \<Longrightarrow>
   foldl (\<lambda>diff (p, q). diff OR (of_nat (code_of p) XOR of_nat (code_of q))) (d :: u8) (zip a b) = 0 \<longleftrightarrow> d = 0 \<and> a = b"
proof (induction a b arbitrary: d rule: list_induct2)
  case (Cons x xs y ys)
  then show ?case by (simp add: xor_zero byte_inject or_eq_0_iff conj_assoc)
qed simp

section \<open>Properties\<close>

text \<open>C40: Safety numbers. Both sides get the same answer, whichever of the two ids comes first; a number that
  is produced has exactly sixty digits; and two texts match exactly when they spell the same sixty digits,
  whatever spacing they were pasted with.\<close>

theorem safety_number_correct:
  "(case (safety_number C a b, safety_number C b a) of (Inr x, Inr y) \<Rightarrow> x = y | (Inl _, Inl _) \<Rightarrow> True | _ \<Rightarrow> False)
   \<and> (case safety_number C a b of Inl _ \<Rightarrow> True | Inr x \<Rightarrow> length x = 60 \<and> list_all is_ascii_digit x)
   \<and> (safety_numbers_match s t
        \<longleftrightarrow> normalize_safety_number s = normalize_safety_number t \<and> length (normalize_safety_number s) = 60)"
proof (intro conjI)
  show "case (safety_number C a b, safety_number C b a) of (Inr x, Inr y) \<Rightarrow> x = y | (Inl _, Inl _) \<Rightarrow> True | _ \<Rightarrow> False"
    by (auto simp: safety_number_def Let_def split: option.splits)
  show "case safety_number C a b of Inl _ \<Rightarrow> True | Inr x \<Rightarrow> length x = 60 \<and> list_all is_ascii_digit x"
    by (simp add: safety_number_def Let_def fingerprint_facts split: option.splits)
  show "safety_numbers_match s t
      \<longleftrightarrow> normalize_safety_number s = normalize_safety_number t \<and> length (normalize_safety_number s) = 60"
    using diff_zero [of "normalize_safety_number s" "normalize_safety_number t" 0]
    by (auto simp: safety_numbers_match_def Let_def DIGITS_PER_IDENTITY_def)
qed

end
