(* ===== verification/Vault.thy ===== *)
theory Vault
  imports Authority
begin

text \<open>
  Where a server's files live (\<open>vault/adaptive.rs\<close>, \<open>vault/placement.rs\<close>, \<open>vault/rebalancer.rs\<close>): the
  erasure parameters of a server's size, the placement of shards on members by XOR distance under
  weighted caps, the scan for content at risk and the repair and migration plans. \<open>None\<close> is a panic
  of the placement (an \<open>expect\<close>, or a division by a total of zero); sums of pledges wrap, as in the
  release profile, which leaves overflow checks off. Files, the store and Reed-Solomon coding are
  outside.
\<close>

section \<open>Parameters of a server's size\<close>

type_synonym u16 = "16 word"

datatype vault_mode = FullReplication | ErasureCoding nat nat

datatype storage_tier = TierStandard | TierLow

definition compute_adaptive_params :: "nat \<Rightarrow> vault_mode" where
  "compute_adaptive_params member_count =
     (if member_count < 6 then FullReplication
      else if member_count \<le> 8 then ErasureCoding 3 2
      else if member_count \<le> 15 then ErasureCoding 5 3
      else if member_count \<le> 30 then ErasureCoding 8 4
      else if member_count \<le> 60 then ErasureCoding 10 5
      else if member_count \<le> 150 then ErasureCoding 12 6
      else if member_count \<le> 500 then ErasureCoding 16 8
      else ErasureCoding 20 10)"

definition apply_tier_multiplier :: "nat \<Rightarrow> nat \<Rightarrow> storage_tier \<Rightarrow> nat \<times> nat" where
  "apply_tier_multiplier k m tier = (k, m)"

definition determine_tier :: "string \<Rightarrow> storage_tier" where
  "determine_tier mime_type = TierStandard"

definition parse_retention_days :: "string \<Rightarrow> u32 option" where
  "parse_retention_days policy =
     (if policy = ''365d'' then Some 365
      else if policy = ''180d'' then Some 180
      else if policy = ''90d'' then Some 90
      else if policy = ''30d'' then Some 30
      else None)"

definition retention_for_tier :: "storage_tier \<Rightarrow> string admin_lww_reg hmap \<Rightarrow> string" where
  "retention_for_tier tier settings_map = unwrap_or ''365d'' (reg_get settings_map ''retention_files'')"

section \<open>Placement\<close>

record shard_placement =
  sp_shard_index :: u16
  sp_target_peer :: string
  sp_shard_key :: string

definition be16 :: "u16 \<Rightarrow> bytes" where
  "be16 w = [char_of (unat w div 256), char_of (unat w mod 256)]"

definition shard_key :: "('a) crypto_scheme \<Rightarrow> string \<Rightarrow> u16 \<Rightarrow> string" where
  "shard_key C content_id shard_index = hex_encode C (sha256 C (content_id @ be16 shard_index))"

text \<open>\<open>hex::decode(&sk).expect(..).try_into().expect(..)\<close>.\<close>

definition shard_bytes :: "('a) crypto_scheme \<Rightarrow> string \<Rightarrow> bytes option" where
  "shard_bytes C sk =
     (case hex_decode C sk of None \<Rightarrow> None | Some bs \<Rightarrow> if length bs = 32 then Some bs else None)"

definition xor_distance :: "bytes \<Rightarrow> bytes \<Rightarrow> bytes" where
  "xor_distance a b = map (\<lambda>(x, y). char_of (unat ((of_char x :: u8) XOR of_char y))) (zip a b)"

definition pledge_of :: "u64 hmap \<Rightarrow> string \<Rightarrow> u64" where
  "pledge_of pledges m = unwrap_or 0 (hm_get pledges m)"

definition eligible :: "string list \<Rightarrow> u64 hmap \<Rightarrow> string list" where
  "eligible mems pledges = sort (filter (\<lambda>m. 0 < pledge_of pledges m) mems)"

definition total_pledge :: "string list \<Rightarrow> u64 hmap \<Rightarrow> u64" where
  "total_pledge els pledges = sum_list (map (pledge_of pledges) els)"

text \<open>\<open>((n as u128 * pledge as u128 + total as u128 - 1) / total as u128) as usize\<close>, at least one; the
  caller has ruled out a total of zero.\<close>

definition shard_cap :: "nat \<Rightarrow> u64 \<Rightarrow> u64 \<Rightarrow> nat" where
  "shard_cap n tot pledge =
     max ((n * unat pledge + unat tot - 1) div unat tot mod 2 ^ 64) 1"

definition scored :: "('a) crypto_scheme \<Rightarrow> bytes \<Rightarrow> string list \<Rightarrow> (string \<times> bytes) list" where
  "scored C sb els = sort_key snd (map (\<lambda>m. (m, xor_distance sb (sha256 C m))) els)"

text \<open>The member one shard goes to: the closest below its cap, or the closest when all are at it.\<close>

definition shard_target ::
  "('a) crypto_scheme \<Rightarrow> bytes \<Rightarrow> string list \<Rightarrow> (string \<Rightarrow> nat) \<Rightarrow> nat hmap \<Rightarrow> string option" where
  "shard_target C sb els cap asg =
     (let sc = scored C sb els in
      case find (\<lambda>(peer, _). unwrap_or 0 (hm_get asg peer) < cap peer) sc of
        Some (peer, _) \<Rightarrow> Some peer
      | None \<Rightarrow> (case sc of [] \<Rightarrow> None | (peer, _) # _ \<Rightarrow> Some peer))"

definition place_shard ::
  "('a) crypto_scheme \<Rightarrow> string \<Rightarrow> string list \<Rightarrow> (string \<Rightarrow> nat) \<Rightarrow> nat hmap \<times> shard_placement list \<Rightarrow> nat
     \<Rightarrow> (nat hmap \<times> shard_placement list) option" where
  "place_shard C content_id els cap x idx =
     (let (asg, out) = x; shard_idx = of_nat idx; sk = shard_key C content_id shard_idx in
      case shard_bytes C sk of
        None \<Rightarrow> None
      | Some sb \<Rightarrow>
          (case shard_target C sb els cap asg of
             None \<Rightarrow> Some (asg, out)
           | Some peer \<Rightarrow>
               Some (hm_insert peer (unwrap_or 0 (hm_get asg peer) + 1) asg,
                     out @ [\<lparr>sp_shard_index = shard_idx, sp_target_peer = peer, sp_shard_key = sk\<rparr>])))"

fun place_loop ::
  "('a) crypto_scheme \<Rightarrow> string \<Rightarrow> string list \<Rightarrow> (string \<Rightarrow> nat) \<Rightarrow> nat hmap \<times> shard_placement list \<Rightarrow> nat list
     \<Rightarrow> shard_placement list option" where
  "place_loop C content_id els cap x [] = Some (snd x)"
| "place_loop C content_id els cap x (idx # rest) =
     (case place_shard C content_id els cap x idx of
        None \<Rightarrow> None
      | Some x' \<Rightarrow> place_loop C content_id els cap x' rest)"

definition compute_shard_placements ::
  "('a) crypto_scheme \<Rightarrow> string \<Rightarrow> nat \<Rightarrow> string list \<Rightarrow> u64 hmap \<Rightarrow> shard_placement list option" where
  "compute_shard_placements C content_id n mems pledges =
     (if n = 0 then Some []
      else (let els = eligible mems pledges in
            if els = [] then Some []
            else (let tot = total_pledge els pledges in
                  if tot = 0 then None
                  else place_loop C content_id els (\<lambda>m. shard_cap n tot (pledge_of pledges m)) ([], []) [0..<n])))"

definition compute_full_replication_placements ::
  "('a) crypto_scheme \<Rightarrow> string \<Rightarrow> string list \<Rightarrow> u64 hmap \<Rightarrow> shard_placement list" where
  "compute_full_replication_placements C content_id mems pledges =
     (let sk = shard_key C content_id 0 in
      map (\<lambda>m. \<lparr>sp_shard_index = 0, sp_target_peer = m, sp_shard_key = sk\<rparr>)
        (sort (filter (\<lambda>m. 0 < pledge_of pledges m) mems)))"

definition place ::
  "('a) crypto_scheme \<Rightarrow> string \<Rightarrow> vault_mode \<Rightarrow> string list \<Rightarrow> u64 hmap \<Rightarrow> shard_placement list option" where
  "place C content_id mode mems pledges =
     (case mode of
        FullReplication \<Rightarrow> Some (compute_full_replication_placements C content_id mems pledges)
      | ErasureCoding k m \<Rightarrow> compute_shard_placements C content_id (k + m) mems pledges)"

section \<open>Content at risk, repair and migration\<close>

record placement_record =
  pr_content_id :: string
  pr_shard_index :: u16
  pr_target_peer :: string
  pr_server_id :: string
  pr_shard_key :: string
  pr_stored_at :: int
  pr_confirmed :: bool

record vault_manifest =
  mf_content_id :: string
  mf_encryption_key :: string
  mf_nonce :: string
  mf_original_size :: u64
  mf_k :: u16
  mf_m :: u16
  mf_shard_count :: u16
  mf_file_name :: string
  mf_mime_type :: string
  mf_storage_tier :: string
  mf_created_at :: int
  mf_creator_peer_id :: string
  mf_channel_id :: string
  mf_message_id :: string
  mf_shard_hashes :: "string list"

record under_replicated =
  ur_content_id :: string
  ur_server_id :: string
  ur_k :: u16
  ur_available_count :: u32
  ur_total_count :: u16
  ur_missing_indices :: "u16 list"

record repair_plan =
  rp_content_id :: string
  rp_server_id :: string
  rp_missing_indices :: "u16 list"
  rp_available_shards :: "(u16 \<times> string) list"
  rp_new_targets :: "(u16 \<times> string) list"

record shard_migration =
  mg_content_id :: string
  mg_shard_index :: u16
  mg_from_peer :: string
  mg_to_peer :: string
  mg_shard_key :: string

definition on_hand :: "string set \<Rightarrow> placement_record \<Rightarrow> bool" where
  "on_hand online r \<longleftrightarrow> pr_confirmed r \<and> pr_target_peer r \<in> online"

definition server_of :: "placement_record list \<Rightarrow> string" where
  "server_of records = (case records of [] \<Rightarrow> [] | r # _ \<Rightarrow> pr_server_id r)"

text \<open>The body of the loop of \<open>scan_under_replicated\<close>.\<close>

definition scan_manifest ::
  "placement_record list hmap \<Rightarrow> string set \<Rightarrow> vault_manifest \<Rightarrow> under_replicated option" where
  "scan_manifest placements online mf =
     (case hm_get placements (mf_content_id mf) of
        None \<Rightarrow> None
      | Some records \<Rightarrow>
          (let available = of_nat (length (filter (on_hand online) records)) :: u32 in
           if mf_k mf = 0 \<and> mf_m mf = 0 then
             (if available < 2 \<and> 2 \<le> length records
              then Some \<lparr>ur_content_id = mf_content_id mf, ur_server_id = server_of records, ur_k = 0,
                         ur_available_count = available, ur_total_count = of_nat (length records),
                         ur_missing_indices =
                           map pr_shard_index (filter (\<lambda>r. \<not> pr_confirmed r \<or> pr_target_peer r \<notin> online) records)\<rparr>
              else None)
           else
             (let n = mf_k mf + mf_m mf in
              if available < of_nat (unat (mf_k mf))
              then Some \<lparr>ur_content_id = mf_content_id mf, ur_server_id = server_of records, ur_k = mf_k mf,
                         ur_available_count = available, ur_total_count = n,
                         ur_missing_indices =
                           filter (\<lambda>i. \<not> list_ex (\<lambda>r. pr_shard_index r = i \<and> on_hand online r) records)
                             (map of_nat [0..<unat n])\<rparr>
              else None)))"

definition scan_under_replicated ::
  "vault_manifest list \<Rightarrow> placement_record list hmap \<Rightarrow> string set \<Rightarrow> under_replicated list" where
  "scan_under_replicated manifests placements online =
     List.map_filter (scan_manifest placements online) manifests"

definition compute_repair_plan ::
  "('a) crypto_scheme \<Rightarrow> vault_manifest \<Rightarrow> placement_record list \<Rightarrow> string set \<Rightarrow> string list \<Rightarrow> u64 hmap
     \<Rightarrow> repair_plan option option" where
  "compute_repair_plan C mf placements online mems pledges =
     (let k = unat (mf_k mf);
          m = unat (mf_m mf);
          available = map (\<lambda>r. (pr_shard_index r, pr_target_peer r)) (filter (on_hand online) placements) in
      if 0 < mf_k mf \<and> length available < k then Some None
      else
        (let n = (if 0 < mf_k mf then k + m else length placements);
             missing = filter (\<lambda>i. i \<notin> fst ` set available) (map of_nat [0..<n mod 2 ^ 16]) in
         if missing = [] then Some None
         else
           (case compute_shard_placements C (mf_content_id mf) n mems pledges of
              None \<Rightarrow> None
            | Some new_placements \<Rightarrow>
                Some (Some \<lparr>rp_content_id = mf_content_id mf, rp_server_id = server_of placements,
                            rp_missing_indices = missing, rp_available_shards = available,
                            rp_new_targets =
                              List.map_filter (\<lambda>idx. map_option (\<lambda>p. (idx, sp_target_peer p))
                                (find (\<lambda>p. sp_shard_index p = idx) new_placements)) missing\<rparr>))))"

definition compute_migration_plan ::
  "string \<Rightarrow> placement_record list \<Rightarrow> shard_placement list \<Rightarrow> shard_migration list" where
  "compute_migration_plan content_id old_placements new_placements =
     List.map_filter (\<lambda>new_p.
       case find (\<lambda>q. pr_shard_index q = sp_shard_index new_p) old_placements of
         None \<Rightarrow> None
       | Some old_p \<Rightarrow>
           if pr_target_peer old_p \<noteq> sp_target_peer new_p
           then Some \<lparr>mg_content_id = content_id, mg_shard_index = sp_shard_index new_p,
                      mg_from_peer = pr_target_peer old_p, mg_to_peer = sp_target_peer new_p,
                      mg_shard_key = sp_shard_key new_p\<rparr>
           else None) new_placements"

text \<open>The repair pass of the event loop (\<open>node/swarm.rs\<close>, on its timer and after a change): every item the
  scan reports, with its manifest and placements, gets the plan whose shards are then asked for.\<close>

definition repair_pass ::
  "('a) crypto_scheme \<Rightarrow> vault_manifest list \<Rightarrow> placement_record list hmap \<Rightarrow> string set \<Rightarrow> string list \<Rightarrow> u64 hmap
     \<Rightarrow> (under_replicated \<times> repair_plan option option) list" where
  "repair_pass C manifests placements online mems pledges =
     List.map_filter (\<lambda>item.
       case (find (\<lambda>mf. mf_content_id mf = ur_content_id item) manifests, hm_get placements (ur_content_id item)) of
         (Some mf, Some records) \<Rightarrow> Some (item, compute_repair_plan C mf records online mems pledges)
       | _ \<Rightarrow> None)
     (scan_under_replicated manifests placements online)"

text \<open>What the pass hands the placement: the member ids and the pledges a state carries.\<close>

definition placement_members :: "server_state \<Rightarrow> string list" where
  "placement_members s = map fst (members s)"

definition placement_pledges :: "server_state \<Rightarrow> u64 hmap" where
  "placement_pledges s = map (\<lambda>(k, v). (k, lww_read v)) (storage_pledges s)"

end
