(* ===== verification/VaultProps.thy ===== *)
theory VaultProps
  imports Vault Founding
begin

text \<open>
  What the vault promises and where it does not hold. Placement never panics while the pledges fit 64
  bits, places every shard once, on the nearest member below its share, the same for members in any
  order. Erasure-coded content the scan reports is never given a repair plan, and one member's pledge
  can make the placement panic for everyone.
\<close>

section \<open>Sums\<close>

lemma sum_count_targets:
  assumes "finite S" "\<forall>x\<in>set xs. f x \<in> S"
  shows "(\<Sum>p\<in>S. length (filter (\<lambda>x. f x = p) xs)) = length xs"
  using assms(2)
proof (induction xs)
  case (Cons x xs)
  have "(\<Sum>p\<in>S. length (filter (\<lambda>y. f y = p) (x # xs)))
        = (\<Sum>p\<in>S. (if f x = p then 1 else 0) + length (filter (\<lambda>y. f y = p) xs))"
    by (rule sum.cong) simp_all
  then show ?case
    using Cons assms(1) by (simp add: sum.distrib)
qed simp

lemma unat_sum_list:
  "sum_list (map unat ws) < 2 ^ LENGTH('a) \<Longrightarrow> unat (sum_list (ws :: 'a::len word list)) = sum_list (map unat ws)"
  by (induction ws) (simp_all add: unat_add_no_wrap)

lemma sum_list_map_mset: "mset xs = mset ys \<Longrightarrow> sum_list (map f xs) = sum_list (map f ys :: 'b::comm_monoid_add list)"
  by (metis mset_map sum_mset_sum_list)

section \<open>One shard\<close>

definition hex_laws :: "('a) crypto_scheme \<Rightarrow> bool" where
  "hex_laws C \<longleftrightarrow> encoding_laws C \<and> (\<forall>bs. hex_decode C (hex_encode C bs) = Some bs)"

definition shard_distance :: "('a) crypto_scheme \<Rightarrow> string \<Rightarrow> u16 \<Rightarrow> string \<Rightarrow> bytes" where
  "shard_distance C content_id i m = xor_distance (sha256 C (content_id @ be16 i)) (sha256 C m)"

lemma shard_bytes_key:
  "hex_laws C \<Longrightarrow> shard_bytes C (shard_key C content_id i) = Some (sha256 C (content_id @ be16 i))"
  by (simp add: hex_laws_def shard_bytes_def shard_key_def)

lemma find_sorted:
  "sorted (map f xs) \<Longrightarrow> find P xs = Some x \<Longrightarrow> y \<in> set xs \<Longrightarrow> P y \<Longrightarrow> f x \<le> f y"
  by (induction xs) (auto split: if_splits)

lemma shard_target_nearest:
  assumes "m \<in> set els" "unwrap_or 0 (hm_get asg m) < cap m"
  obtains p where "shard_target C sb els cap asg = Some p" "p \<in> set els" "unwrap_or 0 (hm_get asg p) < cap p"
    "\<And>q. q \<in> set els \<Longrightarrow> unwrap_or 0 (hm_get asg q) < cap q
       \<Longrightarrow> xor_distance sb (sha256 C p) \<le> xor_distance sb (sha256 C q)"
proof -
  let ?P = "\<lambda>(peer, d :: bytes). unwrap_or 0 (hm_get asg peer) < cap peer"
  have set_sc: "set (scored C sb els) = (\<lambda>m. (m, xor_distance sb (sha256 C m))) ` set els"
    by (simp add: scored_def)
  then obtain p d where found: "find ?P (scored C sb els) = Some (p, d)"
    using assms by (cases "find ?P (scored C sb els)") (fastforce simp: find_None_iff)+
  then have pd: "(p, d) \<in> set (scored C sb els)" "?P (p, d)"
    by (force simp: find_Some_iff in_set_conv_nth)+
  show ?thesis
  proof (rule that [of p])
    show "shard_target C sb els cap asg = Some p"
      using found by (simp add: shard_target_def)
    show "p \<in> set els" "unwrap_or 0 (hm_get asg p) < cap p"
      using pd set_sc by auto
    fix q assume q: "q \<in> set els" "unwrap_or 0 (hm_get asg q) < cap q"
    have "sorted (map snd (scored C sb els))"
      by (simp add: scored_def)
    then have "snd (p, d) \<le> snd (q, xor_distance sb (sha256 C q))"
      by (rule find_sorted [OF _ found]) (use q set_sc in auto)
    then show "xor_distance sb (sha256 C p) \<le> xor_distance sb (sha256 C q)"
      using pd set_sc by auto
  qed
qed

section \<open>The loop\<close>

definition held_by :: "string \<Rightarrow> shard_placement list \<Rightarrow> nat" where
  "held_by m ps = length (filter (\<lambda>p. sp_target_peer p = m) ps)"

lemma held_by_simps [simp]: "held_by m [] = 0" "held_by m (ps @ qs) = held_by m ps + held_by m qs"
  by (simp_all add: held_by_def)

definition placing :: "string list \<Rightarrow> (string \<Rightarrow> nat) \<Rightarrow> nat hmap \<times> shard_placement list \<Rightarrow> bool" where
  "placing els cap x \<longleftrightarrow>
     (\<forall>m\<in>set els. unwrap_or 0 (hm_get (fst x) m) = held_by m (snd x) \<and> held_by m (snd x) \<le> cap m)
     \<and> (\<forall>p\<in>set (snd x). sp_target_peer p \<in> set els)"

lemma placing_room:
  assumes "placing els cap x" "length (snd x) < (\<Sum>m\<in>set els. cap m)"
  obtains m where "m \<in> set els" "unwrap_or 0 (hm_get (fst x) m) < cap m"
proof -
  have "(\<Sum>m\<in>set els. held_by m (snd x)) = length (snd x)"
    using assms(1) unfolding held_by_def placing_def by (intro sum_count_targets) auto
  then have "\<exists>m\<in>set els. held_by m (snd x) < cap m"
    using assms(2) by (metis (no_types, lifting) linorder_not_less sum_mono)
  then show ?thesis
    using that assms(1) by (auto simp: placing_def)
qed

lemma place_shard_step:
  assumes "hex_laws C" "placing els cap (asg, out)" "length out < (\<Sum>m\<in>set els. cap m)"
  obtains asg' p where
    "place_shard C content_id els cap (asg, out) idx = Some (asg', out @ [p])" "placing els cap (asg', out @ [p])"
    "sp_shard_index p = of_nat idx" "sp_shard_key p = shard_key C content_id (of_nat idx)"
    "\<And>m. m \<in> set els \<Longrightarrow> held_by m out < cap m
       \<Longrightarrow> shard_distance C content_id (of_nat idx) (sp_target_peer p) \<le> shard_distance C content_id (of_nat idx) m"
proof -
  let ?sb = "sha256 C (content_id @ be16 (of_nat idx))"
  obtain m where m: "m \<in> set els" "unwrap_or 0 (hm_get asg m) < cap m"
    using placing_room [OF assms(2)] assms(3) by auto
  obtain t where t: "shard_target C ?sb els cap asg = Some t" "t \<in> set els" "unwrap_or 0 (hm_get asg t) < cap t"
    and near: "\<And>q. q \<in> set els \<Longrightarrow> unwrap_or 0 (hm_get asg q) < cap q
       \<Longrightarrow> xor_distance ?sb (sha256 C t) \<le> xor_distance ?sb (sha256 C q)"
    using shard_target_nearest [where m = m and els = els and asg = asg and cap = cap and C = C and sb = ?sb, OF m] by blast
  let ?p = "\<lparr>sp_shard_index = of_nat idx, sp_target_peer = t, sp_shard_key = shard_key C content_id (of_nat idx)\<rparr>"
  let ?asg = "hm_insert t (unwrap_or 0 (hm_get asg t) + 1) asg"
  show ?thesis
  proof (rule that [of ?asg ?p])
    show "place_shard C content_id els cap (asg, out) idx = Some (?asg, out @ [?p])"
      using assms(1) t by (simp add: place_shard_def shard_bytes_key Let_def)
    show "placing els cap (?asg, out @ [?p])"
      using assms(2) t by (auto simp: placing_def held_by_def)
    fix q assume "q \<in> set els" "held_by q out < cap q"
    then show "shard_distance C content_id (of_nat idx) (sp_target_peer ?p) \<le> shard_distance C content_id (of_nat idx) q"
      using near assms(2) by (auto simp: shard_distance_def placing_def)
  qed simp_all
qed

lemma place_loop_ok:
  assumes "hex_laws C" "placing els cap (asg, out)" "length out + length idxs \<le> (\<Sum>m\<in>set els. cap m)"
  shows "\<exists>ps. place_loop C content_id els cap (asg, out) idxs = Some (out @ ps)
    \<and> map sp_shard_index ps = map of_nat idxs
    \<and> (\<forall>p\<in>set ps. sp_target_peer p \<in> set els \<and> sp_shard_key p = shard_key C content_id (sp_shard_index p))
    \<and> (\<forall>m\<in>set els. held_by m (out @ ps) \<le> cap m)
    \<and> (\<forall>i<length ps. \<forall>m\<in>set els. held_by m (out @ take i ps) < cap m
         \<longrightarrow> shard_distance C content_id (of_nat (idxs ! i)) (sp_target_peer (ps ! i))
             \<le> shard_distance C content_id (of_nat (idxs ! i)) m)"
  using assms(2,3)
proof (induction idxs arbitrary: asg out)
  case Nil
  then show ?case
    by (simp add: placing_def held_by_def)
next
  case (Cons idx idxs)
  obtain asg' p where step: "place_shard C content_id els cap (asg, out) idx = Some (asg', out @ [p])"
      "placing els cap (asg', out @ [p])"
      "sp_shard_index p = of_nat idx" "sp_shard_key p = shard_key C content_id (of_nat idx)"
    and near: "\<And>m. m \<in> set els \<Longrightarrow> held_by m out < cap m
       \<Longrightarrow> shard_distance C content_id (of_nat idx) (sp_target_peer p) \<le> shard_distance C content_id (of_nat idx) m"
    using place_shard_step [OF assms(1) Cons.prems(1), of content_id idx] Cons.prems(2) by auto
  obtain ps where ps: "place_loop C content_id els cap (asg', out @ [p]) idxs = Some ((out @ [p]) @ ps)"
      "map sp_shard_index ps = map of_nat idxs"
      "\<forall>p\<in>set ps. sp_target_peer p \<in> set els \<and> sp_shard_key p = shard_key C content_id (sp_shard_index p)"
      "\<forall>m\<in>set els. held_by m ((out @ [p]) @ ps) \<le> cap m"
      "\<forall>i<length ps. \<forall>m\<in>set els. held_by m ((out @ [p]) @ take i ps) < cap m
         \<longrightarrow> shard_distance C content_id (of_nat (idxs ! i)) (sp_target_peer (ps ! i))
             \<le> shard_distance C content_id (of_nat (idxs ! i)) m"
    using Cons.IH [OF step(2)] Cons.prems(2) by auto
  have "sp_target_peer p \<in> set els"
    using step(2) by (simp add: placing_def)
  moreover have "shard_distance C content_id (of_nat ((idx # idxs) ! i)) (sp_target_peer ((p # ps) ! i))
      \<le> shard_distance C content_id (of_nat ((idx # idxs) ! i)) m"
    if "i < length (p # ps)" "m \<in> set els" "held_by m (out @ take i (p # ps)) < cap m" for i m
    using that near ps(5) by (cases i) simp_all
  ultimately show ?case
    using step ps(1-4) by (intro exI [of _ "p # ps"]) simp
qed

section \<open>Shares\<close>

lemma shard_cap_bounds:
  assumes "0 < n" "n < 2 ^ 64" "0 < pledge" "unat pledge \<le> unat tot"
  shows "n * unat pledge \<le> shard_cap n tot pledge * unat tot"
    and "shard_cap n tot pledge * unat tot < n * unat pledge + unat tot"
proof -
  let ?T = "unat tot" and ?q = "(n * unat pledge + unat tot - 1) div unat tot"
  have T: "0 < ?T" "0 < unat pledge"
    using assms(3,4) by (simp_all add: word_less_nat_alt)
  have "n * unat pledge \<le> n * ?T"
    using assms(4) by simp
  then have "?q \<le> (n * ?T + (?T - 1)) div ?T"
    using T by (intro div_le_mono) linarith
  also have "\<dots> = n"
    using T(1) by (subst div_mult_self3) simp_all
  finally have small: "?q < 2 ^ 64"
    using assms(2) by simp
  have "?T \<le> n * unat pledge + ?T - 1"
    using assms(1) T by (cases "n * unat pledge") simp_all
  then have "1 \<le> ?q"
    using T(1) by (simp add: div_greater_zero_iff Suc_le_eq)
  with small have cap: "shard_cap n tot pledge = ?q"
    by (simp add: shard_cap_def)
  have "?q * ?T \<le> n * unat pledge + ?T - 1"
    by (rule div_times_less_eq_dividend)
  moreover have "n * unat pledge + ?T - 1 < ?T + ?q * ?T"
    by (rule dividend_less_div_times) (rule T(1))
  ultimately show "n * unat pledge \<le> shard_cap n tot pledge * ?T"
    and "shard_cap n tot pledge * ?T < n * unat pledge + ?T"
    unfolding cap using T(1) by linarith+
qed

lemma eligible_facts [simp]:
  "set (eligible mems pledges) = {m \<in> set mems. 0 < pledge_of pledges m}"
  "distinct mems \<Longrightarrow> distinct (eligible mems pledges)"
  by (simp_all add: eligible_def)

lemma eligible_mset: "mset mems = mset mems' \<Longrightarrow> eligible mems pledges = eligible mems' pledges"
  unfolding eligible_def by (metis mset_filter properties_for_sort mset_sort sorted_sort)

lemma total_pledge_sum:
  assumes "distinct mems" "(\<Sum>m\<in>set mems. unat (pledge_of pledges m)) < 2 ^ 64"
  shows "unat (total_pledge (eligible mems pledges) pledges) = (\<Sum>m\<in>set mems. unat (pledge_of pledges m))"
proof -
  have "sum_list (map unat (map (pledge_of pledges) (eligible mems pledges)))
      = (\<Sum>m\<in>set (eligible mems pledges). unat (pledge_of pledges m))"
    using assms(1) by (simp add: sum_list_distinct_conv_sum_set o_def del: eligible_facts(1))
  also have "\<dots> = (\<Sum>m\<in>set mems. unat (pledge_of pledges m))"
    by (rule sum.mono_neutral_left) (auto simp: word_gt_0)
  finally show ?thesis
    using assms(2) unfolding total_pledge_def by (subst unat_sum_list) simp_all
qed

lemma caps_enough:
  assumes "distinct mems" "(\<Sum>m\<in>set mems. unat (pledge_of pledges m)) < 2 ^ 64" "0 < n" "n < 2 ^ 64"
    "eligible mems pledges \<noteq> []"
  defines "tot \<equiv> total_pledge (eligible mems pledges) pledges"
  shows "n \<le> (\<Sum>m\<in>set (eligible mems pledges). shard_cap n tot (pledge_of pledges m))" and "tot \<noteq> 0"
    and "\<And>m. m \<in> set (eligible mems pledges) \<Longrightarrow> unat (pledge_of pledges m) \<le> unat tot"
proof -
  let ?E = "set (eligible mems pledges)" and ?p = "\<lambda>m. unat (pledge_of pledges m)"
  have tot: "unat tot = (\<Sum>m\<in>set mems. ?p m)"
    using total_pledge_sum [OF assms(1,2)] by (simp add: tot_def)
  also have "\<dots> = (\<Sum>m\<in>?E. ?p m)"
    by (rule sum.mono_neutral_right) (auto simp: word_gt_0)
  finally have totE: "unat tot = (\<Sum>m\<in>?E. ?p m)" .
  show le: "?p m \<le> unat tot" if "m \<in> ?E" for m
    unfolding totE by (rule member_le_sum) (use that in auto)
  obtain m0 where "m0 \<in> ?E"
    using assms(5) by (cases "eligible mems pledges") auto
  then have pos: "0 < unat tot"
    using le [of m0] by (auto simp: word_less_nat_alt)
  then show "tot \<noteq> 0"
    by auto
  have "n * unat tot = (\<Sum>m\<in>?E. n * ?p m)"
    by (simp add: totE sum_distrib_left del: eligible_facts)
  also have "\<dots> \<le> (\<Sum>m\<in>?E. shard_cap n tot (pledge_of pledges m) * unat tot)"
    using le by (intro sum_mono shard_cap_bounds(1)) (use assms(3,4) in auto)
  also have "\<dots> = (\<Sum>m\<in>?E. shard_cap n tot (pledge_of pledges m)) * unat tot"
    by (simp add: sum_distrib_right del: eligible_facts)
  finally show "n \<le> (\<Sum>m\<in>?E. shard_cap n tot (pledge_of pledges m))"
    using pos by simp
qed

section \<open>Sample parameters\<close>

definition sample_unnibble :: "char \<Rightarrow> nat" where
  "sample_unnibble c = (if code_of c < 58 then code_of c - 48 else code_of c - 87)"

fun sample_unhex :: "string \<Rightarrow> bytes option" where
  "sample_unhex (a # b # s) =
     map_option (\<lambda>bs. char_of (16 * sample_unnibble a + sample_unnibble b) # bs) (sample_unhex s)"
| "sample_unhex [] = Some []"
| "sample_unhex [a] = None"

definition hex_crypto :: crypto where
  "hex_crypto = sample_crypto\<lparr>hex_decode := sample_unhex\<rparr>"

lemma sample_unnibble: "n < 16 \<Longrightarrow> sample_unnibble (nibble n) = n"
  by (auto simp: nibble_def sample_unnibble_def)

lemma sample_unhex_hex: "sample_unhex (sample_hex bs) = Some bs"
proof (induction bs)
  case (Cons b bs)
  have "code_of b < 256"
    using nat_of_char_less_256 [of b] by simp
  then have "code_of b div 16 < 16" "code_of b mod 16 < 16"
    by presburger+
  then show ?case
    using Cons by (simp add: sample_hex_def sample_unnibble)
qed (simp add: sample_hex_def)

lemma hex_crypto_laws: "hex_laws hex_crypto"
  using sample_encoding_laws by (simp add: hex_laws_def hex_crypto_def sample_unhex_hex encoding_laws_def)

section \<open>Placement\<close>

lemma distinct_of_nat_upt: "n \<le> 2 ^ LENGTH('a) \<Longrightarrow> distinct (map (of_nat :: nat \<Rightarrow> 'a::len word) [0..<n])"
  by (auto simp: distinct_map inj_on_def word_of_nat_eq_iff take_bit_nat_eq_self)

text \<open>C15: Placing shards. As long as the members' pledges sum up within 64 bits and somebody pledges, placing
  n shards does not panic: every shard is placed exactly once, under its own key, on a member with a
  pledge; shard after shard, the chosen member is the nearest by XOR distance among those below their
  share; nobody gets more than their share of the n shards, rounded up; and the order in which the
  members are listed does not matter.\<close>

theorem placement_correct:
  assumes "hex_laws C" "distinct mems" "eligible mems pledges \<noteq> []"
    and "(\<Sum>m\<in>set mems. unat (pledge_of pledges m)) < 2 ^ 64" and "0 < n" "n \<le> 2 ^ 16"
  defines "tot \<equiv> total_pledge (eligible mems pledges) pledges"
  shows "\<exists>ps. compute_shard_placements C content_id n mems pledges = Some ps
    \<and> map sp_shard_index ps = map of_nat [0..<n] \<and> distinct (map sp_shard_index ps)
    \<and> (\<forall>p\<in>set ps. sp_target_peer p \<in> set mems \<and> 0 < pledge_of pledges (sp_target_peer p)
         \<and> sp_shard_key p = shard_key C content_id (sp_shard_index p))
    \<and> (\<forall>i<n. \<forall>m\<in>set (eligible mems pledges). held_by m (take i ps) < shard_cap n tot (pledge_of pledges m)
         \<longrightarrow> shard_distance C content_id (of_nat i) (sp_target_peer (ps ! i)) \<le> shard_distance C content_id (of_nat i) m)
    \<and> (\<forall>m\<in>set mems. held_by m ps * (\<Sum>m\<in>set mems. unat (pledge_of pledges m))
         < n * unat (pledge_of pledges m) + (\<Sum>m\<in>set mems. unat (pledge_of pledges m)))
    \<and> (\<forall>mems'. mset mems' = mset mems \<longrightarrow> compute_shard_placements C content_id n mems' pledges = Some ps)"
proof -
  let ?E = "eligible mems pledges" and ?S = "\<Sum>m\<in>set mems. unat (pledge_of pledges m)"
  let ?cap = "\<lambda>m. shard_cap n tot (pledge_of pledges m)"
  have n64: "n < 2 ^ 64"
    using assms(6) by simp
  note caps = caps_enough [OF assms(2,4,5) n64 assms(3), folded tot_def]
  have tot: "unat tot = ?S"
    using total_pledge_sum [OF assms(2,4)] by (simp add: tot_def)
  have "placing ?E ?cap ([], [])"
    by (simp add: placing_def)
  then obtain ps where ps: "place_loop C content_id ?E ?cap ([], []) [0..<n] = Some ps"
      "map sp_shard_index ps = map of_nat [0..<n]"
      "\<forall>p\<in>set ps. sp_target_peer p \<in> set ?E \<and> sp_shard_key p = shard_key C content_id (sp_shard_index p)"
      "\<forall>m\<in>set ?E. held_by m ps \<le> ?cap m"
      "\<forall>i<length ps. \<forall>m\<in>set ?E. held_by m (take i ps) < ?cap m
         \<longrightarrow> shard_distance C content_id (of_nat ([0..<n] ! i)) (sp_target_peer (ps ! i))
             \<le> shard_distance C content_id (of_nat ([0..<n] ! i)) m"
    using place_loop_ok [OF assms(1), of ?E ?cap "[]" "[]" "[0..<n]" content_id] caps(1) by auto
  have len: "length ps = n"
    using arg_cong [OF ps(2), of length] by simp
  have result: "compute_shard_placements C content_id n mems pledges = Some ps"
    using ps(1) assms(3,5) caps(2) by (simp add: compute_shard_placements_def tot_def Let_def)
  have order: "compute_shard_placements C content_id n mems' pledges = Some ps" if "mset mems' = mset mems" for mems'
    using result unfolding compute_shard_placements_def eligible_mset [OF that] .
  have share: "held_by m ps * ?S < n * unat (pledge_of pledges m) + ?S" if "m \<in> set mems" for m
  proof (cases "m \<in> set ?E")
    case True
    then have "held_by m ps * ?S \<le> ?cap m * ?S"
      using ps(4) by (simp del: eligible_facts)
    also have "\<dots> < n * unat (pledge_of pledges m) + ?S"
      using shard_cap_bounds(2) [OF assms(5) n64 _ caps(3) [OF True]] True by (simp add: tot)
    finally show ?thesis .
  next
    case False
    then have "held_by m ps = 0"
      using ps(3) by (auto simp: held_by_def filter_empty_conv simp del: eligible_facts)
    moreover have "0 < ?S"
      using tot caps(2) by (metis gr0I unat_eq_zero)
    ultimately show ?thesis by simp
  qed
  have once: "distinct (map sp_shard_index ps)"
    unfolding ps(2) by (rule distinct_of_nat_upt) (use assms(6) in simp)
  show ?thesis
  proof (intro exI [of _ ps] conjI ballI allI impI)
    fix i m
    assume "i < n" "m \<in> set ?E" "held_by m (take i ps) < ?cap m"
    then show "shard_distance C content_id (of_nat i) (sp_target_peer (ps ! i)) \<le> shard_distance C content_id (of_nat i) m"
      using ps(5) len by (simp del: eligible_facts)
  next
    fix p
    assume "p \<in> set ps"
    then show "sp_target_peer p \<in> set mems" "0 < pledge_of pledges (sp_target_peer p)"
      "sp_shard_key p = shard_key C content_id (sp_shard_index p)"
      using ps(3) by simp_all
  qed (rule result, rule ps(2), rule once, erule share, erule order)
qed

theorem placement_correct_witness:
  "\<exists>ps. compute_shard_placements hex_crypto ''file'' 5 [''bob'', ''ann''] [(''ann'', 30), (''bob'', 10)] = Some ps
     \<and> map sp_shard_index ps = map of_nat [0..<5] \<and> held_by ''ann'' ps * 40 < 190"
proof -
  let ?m = "[''bob'', ''ann'']" and ?p = "[(''ann'', 30 :: u64), (''bob'', 10)]"
  have el: "eligible ?m ?p \<noteq> []"
    by (simp add: eligible_def pledge_of_def sort_key_def)
  have sum: "(\<Sum>m\<in>set ?m. unat (pledge_of ?p m)) = 40"
    by (simp add: pledge_of_def)
  obtain ps where ps: "compute_shard_placements hex_crypto ''file'' 5 ?m ?p = Some ps"
      "map sp_shard_index ps = map of_nat [0..<5]"
      "\<forall>m\<in>set ?m. held_by m ps * (\<Sum>m\<in>set ?m. unat (pledge_of ?p m))
         < 5 * unat (pledge_of ?p m) + (\<Sum>m\<in>set ?m. unat (pledge_of ?p m))"
    using placement_correct [OF hex_crypto_laws _ el, of 5 "''file''"] unfolding sum by auto
  from ps(3) have "held_by ''ann'' ps * 40 < 190"
    unfolding sum by (simp add: pledge_of_def)
  with ps(1,2) show ?thesis by blast
qed

section \<open>Content at risk\<close>

lemma set_map_filter: "y \<in> set (List.map_filter f xs) \<longleftrightarrow> (\<exists>x\<in>set xs. f x = Some y)"
  by (induction xs) (auto simp: List.map_filter_simps split: option.splits)

lemma of_nat_less_unat:
  "n < 2 ^ 32 \<Longrightarrow> (of_nat n :: u32) < ucast (k :: u16) \<longleftrightarrow> n < unat k"
proof -
  assume n: "n < 2 ^ 32"
  have "unat k < 2 ^ 32"
    using unat_bound [of k] by simp
  with n have "(of_nat n :: u32) < of_nat (unat k) \<longleftrightarrow> n < unat k"
    unfolding word_less_nat_alt unat_of_nat by simp
  then show ?thesis by simp
qed

lemma scan_coded_short:
  assumes "scan_manifest placements online mf = Some item" "ur_k item \<noteq> 0"
    and "\<forall>cid records. hm_get placements cid = Some records \<longrightarrow> length records < 2 ^ 32"
  obtains records where "hm_get placements (mf_content_id mf) = Some records" "ur_content_id item = mf_content_id mf"
    "mf_k mf = ur_k item" "length (filter (on_hand online) records) < unat (mf_k mf)"
proof -
  obtain records where rec: "hm_get placements (mf_content_id mf) = Some records"
    using assms(1) by (auto simp: scan_manifest_def split: option.splits)
  have "length (filter (on_hand online) records) < 2 ^ 32"
    using assms(3) rec length_filter_le [of "on_hand online" records] order_le_less_trans by blast
  then show ?thesis
    using that [OF rec] assms(1,2) rec
    by (auto simp: scan_manifest_def Let_def of_nat_less_unat split: if_splits)
qed

text \<open>C16: Repair and scan exclude each other. Whatever erasure-coded content the scan of the repair pass reports,
  it has fewer shards on hand than a rebuild takes, and the plan for it is always "nothing": content that
  still could be repaired is not reported, content that is reported cannot be repaired.\<close>

theorem coded_content_never_repaired:
  assumes "distinct (map mf_content_id manifests)"
    and "\<forall>cid records. hm_get placements cid = Some records \<longrightarrow> length records < 2 ^ 32"
    and "(item, plan) \<in> set (repair_pass C manifests placements online mems pledges)" "ur_k item \<noteq> 0"
  shows "plan = Some None"
proof -
  obtain mf records where pick: "find (\<lambda>mf. mf_content_id mf = ur_content_id item) manifests = Some mf"
      "hm_get placements (ur_content_id item) = Some records"
      "plan = compute_repair_plan C mf records online mems pledges"
    and reported: "item \<in> set (scan_under_replicated manifests placements online)"
    using assms(3) by (auto simp: repair_pass_def set_map_filter split: option.splits)
  obtain mf' where mf': "mf' \<in> set manifests" "scan_manifest placements online mf' = Some item"
    using reported by (auto simp: scan_under_replicated_def set_map_filter)
  obtain records' where short: "hm_get placements (mf_content_id mf') = Some records'"
      "ur_content_id item = mf_content_id mf'" "mf_k mf' = ur_k item"
      "length (filter (on_hand online) records') < unat (mf_k mf')"
    using scan_coded_short [OF mf'(2) assms(4,2)] by blast
  have "mf \<in> set manifests" "mf_content_id mf = mf_content_id mf'"
    using pick(1) short(2) by (auto simp: find_Some_iff)
  then have "mf = mf'"
    using assms(1) mf'(1) by (auto simp: distinct_map inj_on_def)
  moreover have "records = records'"
    using pick(2) short(1,2) by simp
  ultimately show ?thesis
    using pick(3) short(3,4) assms(4) by (simp add: compute_repair_plan_def word_gt_0)
qed

definition sample_manifest :: vault_manifest where
  "sample_manifest =
     \<lparr>mf_content_id = ''file'', mf_encryption_key = [], mf_nonce = [], mf_original_size = 9, mf_k = 3, mf_m = 2,
      mf_shard_count = 5, mf_file_name = ''a.txt'', mf_mime_type = ''text/plain'', mf_storage_tier = ''standard'',
      mf_created_at = 0, mf_creator_peer_id = ''ann'', mf_channel_id = ''c'', mf_message_id = ''m'',
      mf_shard_hashes = []\<rparr>"

definition sample_record :: placement_record where
  "sample_record =
     \<lparr>pr_content_id = ''file'', pr_shard_index = 0, pr_target_peer = ''ann'', pr_server_id = ''srv'',
      pr_shard_key = ''key'', pr_stored_at = 0, pr_confirmed = True\<rparr>"

theorem coded_content_never_repaired_witness:
  "\<exists>item plan. repair_pass hex_crypto [sample_manifest] [(''file'', [sample_record])] {''ann''} [''ann''] [(''ann'', 1)]
     = [(item, plan)] \<and> plan = Some None"
proof -
  let ?pass = "repair_pass hex_crypto [sample_manifest] [(''file'', [sample_record])] {''ann''} [''ann''] [(''ann'', 1)]"
  obtain item where scan: "scan_manifest [(''file'', [sample_record])] {''ann''} sample_manifest = Some item"
      "ur_k item = 3" "ur_content_id item = ''file''"
    by (simp add: scan_manifest_def sample_manifest_def sample_record_def on_hand_def Let_def word_less_nat_alt)
  then obtain plan where pass: "?pass = [(item, plan)]"
    by (simp add: repair_pass_def scan_under_replicated_def List.map_filter_simps sample_manifest_def)
  have "plan = Some None"
    by (rule coded_content_never_repaired [of "[sample_manifest]" "[(''file'', [sample_record])]" item plan
          hex_crypto "{''ann''}" "[''ann'']" "[(''ann'', 1)]"]) (use pass scan(2) in auto)
  with pass show ?thesis by blast
qed

section \<open>One pledge too many\<close>

lemma pledge_of_state: "pledge_of (placement_pledges s) m = get_storage_pledge s m"
proof -
  have "hm_get (map (\<lambda>(k, r). (k, lww_read r)) rs) m = map_option lww_read (hm_get rs m)" for rs :: "u64 admin_lww_reg hmap"
    by (induction rs) auto
  then show ?thesis
    by (simp add: pledge_of_def placement_pledges_def get_storage_pledge_def)
qed

lemma pledge_after:
  assumes "\<forall>reg. hm_get (storage_pledges s) who = Some reg \<longrightarrow> reg_hlc reg < op_hlc op"
    and "op_payload op = StoragePledgeChanged who v"
  shows "pledge_of (placement_pledges (apply_payload E op s)) m
    = (if m = who then v else pledge_of (placement_pledges s) m)"
proof (cases "hm_get (storage_pledges s) who")
  case None
  then show ?thesis
    using assms(2) unfolding pledge_of_state
    by (simp add: get_storage_pledge_def apply_payload_def apply_pledge_def lww_write_get lww_new_def lww_read_def)
next
  case (Some reg)
  then have "reg_hlc reg < op_hlc op"
    using assms(1) by simp
  with Some show ?thesis
    using assms(2) unfolding pledge_of_state
    by (simp add: get_storage_pledge_def apply_payload_def apply_pledge_def lww_write_get lww_merge_def lww_new_def lww_read_def)
qed

lemma members_after_pledge:
  "op_payload op = StoragePledgeChanged who v \<Longrightarrow> members (apply_payload E op s) = members s"
  by (simp add: apply_payload_def apply_pledge_def)

lemma total_pledge_members:
  "total_pledge (eligible mems pledges) pledges = sum_list (map (pledge_of pledges) mems)"
proof -
  have "sum_list (map (pledge_of pledges) (eligible mems pledges))
      = sum_list (map (pledge_of pledges) (filter (\<lambda>m. 0 < pledge_of pledges m) mems))"
    unfolding eligible_def by (rule sum_list_map_mset) simp
  also have "\<dots> = sum_list (map (pledge_of pledges) mems)"
    by (induction mems) (auto simp: word_gt_0)
  finally show ?thesis
    by (simp add: total_pledge_def)
qed

lemma sum_list_remove1:
  "who \<in> set mems \<Longrightarrow> distinct mems
     \<Longrightarrow> sum_list (map f mems) = f who + sum_list (map f (filter (\<lambda>m. m \<noteq> who) mems) :: 'b::comm_monoid_add list)"
proof (induction mems)
  case (Cons m mems)
  show ?case
  proof (cases "m = who")
    case True
    with Cons.prems have "filter (\<lambda>m. m \<noteq> who) mems = mems"
      by (intro filter_True) auto
    with True show ?thesis by simp
  qed (use Cons in \<open>simp add: ac_simps\<close>)
qed simp

text \<open>C17: One pledge stops the vault. Any member of a server in which somebody else pledges space can author a
  storage pledge that every replica admits and after which placing any number of shards among the members
  panics: the total of the pledges wraps to zero in 64 bits, and the shares divide by it.\<close>

theorem pledge_stops_placement:
  assumes "author_role s who = Some role" "hm_wf (members s)"
    and "sum_list (map (pledge_of (placement_pledges s)) (filter (\<lambda>m. m \<noteq> who) (placement_members s))) \<noteq> 0"
    and "\<forall>reg. hm_get (storage_pledges s) who = Some reg \<longrightarrow> reg_hlc reg < op_hlc op"
    and "op_author op = who" "0 < n"
  shows "\<exists>v. let pledge = op\<lparr>op_payload := StoragePledgeChanged who v\<rparr>; s' = apply_payload E pledge s in
    op_allowed E s pledge
    \<and> compute_shard_placements C content_id n (placement_members s') (placement_pledges s') = None"
proof -
  let ?ms = "placement_members s"
  let ?others = "filter (\<lambda>m. m \<noteq> who) ?ms"
  define v where "v = - sum_list (map (pledge_of (placement_pledges s)) ?others)"
  let ?op = "op\<lparr>op_payload := StoragePledgeChanged who v\<rparr>"
  let ?p = "placement_pledges (apply_payload E ?op s)"
  have after: "pledge_of ?p m = (if m = who then v else pledge_of (placement_pledges s) m)" for m
    using assms(4) by (intro pledge_after) simp_all
  have ms: "placement_members (apply_payload E ?op s) = ?ms"
    by (simp add: placement_members_def members_after_pledge)
  have who: "who \<in> set ?ms" "distinct ?ms"
    using assms(1,2) by (auto simp: author_role_def placement_members_def hm_wf_def hm_has_def
        map_of_eq_None_iff image_iff split: if_splits)
  have others: "map (pledge_of ?p) ?others = map (pledge_of (placement_pledges s)) ?others"
    by (simp add: after)
  have "sum_list (map (pledge_of ?p) ?ms) = v + sum_list (map (pledge_of (placement_pledges s)) ?others)"
    using sum_list_remove1 [OF who, of "pledge_of ?p"] by (simp add: others after)
  then have zero: "total_pledge (eligible ?ms ?p) ?p = 0"
    by (simp add: total_pledge_members v_def)
  have "v \<noteq> 0"
    using assms(3) by (simp add: v_def)
  then have "who \<in> set (eligible ?ms ?p)"
    using who(1) by (simp add: after word_gt_0)
  then have "eligible ?ms ?p \<noteq> []"
    by (metis empty_iff list.set(1))
  with zero assms(6) have "compute_shard_placements C content_id n ?ms ?p = None"
    by (simp add: compute_shard_placements_def Let_def)
  moreover have "op_allowed E s ?op"
    using assms(1,5) by (simp add: op_allowed_def)
  ultimately show ?thesis
    using ms by (intro exI [of _ v]) (simp add: Let_def)
qed

definition sample_pledged :: server_state where
  "sample_pledged = (skeleton ''srv'')
     \<lparr>members := [(''ann'', \<lparr>mi_peer_id = ''ann'', mi_display_name = []\<rparr>), (''bob'', \<lparr>mi_peer_id = ''bob'', mi_display_name = []\<rparr>)],
      storage_pledges := [(''bob'', lww_new 10 (HlcTimestamp 1 0 ''bob'') 1)]\<rparr>"

theorem pledge_stops_placement_witness:
  "\<exists>v. let pledge = (sample_op ''ann'')\<lparr>op_payload := StoragePledgeChanged ''ann'' v\<rparr>;
        s' = apply_payload (sample_fold_env None) pledge sample_pledged in
    op_allowed (sample_fold_env None) sample_pledged pledge
    \<and> compute_shard_placements hex_crypto ''file'' 5 (placement_members s') (placement_pledges s') = None"
  by (rule pledge_stops_placement [of _ _ Member])
    (simp_all add: sample_pledged_def skeleton_def author_role_def hm_has_def hm_wf_def placement_members_def
      pledge_of_state get_storage_pledge_def lww_read_def lww_new_def sample_op_def)

end
