(* ===== verification/Spec2Isabelle.thy ===== *)
theory Spec2Isabelle
  imports KeptProps Members RosterSigned SafetyNumber VaultProps
begin

text \<open>
  Hollow is a peer-to-peer chat application. Its core, \<open>src/rust/hollow_core/src\<close>, replicates the
  state of each server (channels, members, roles, settings) between the members' devices as signed
  operations, and decides which devices are one person's. This development models those parts:
  how an op is signed, checked, judged and folded into a state, how replicas catch up with each
  other, the join lock, the credentials a profile carries, the device roster, and where a server's
  files are stored. Paths below are
  relative to \<open>src/rust/hollow_core/src\<close>.

  \<^bold>\<open>How the parts interact.\<close> A device authors an op with the hybrid logical clock
  (\<open>crdt/hlc.rs\<close>) and signs it (\<open>crdt/operations.rs\<close>, \<open>identity/native_identity.rs\<close>). A
  receiver runs \<open>ingest_remote\<close> (\<open>crdt/fold.rs\<close>): the author proof, the drift bound, duplicates;
  then the op is judged against the state just before it (\<open>op_allowed\<close>) and applied
  (\<open>apply_payload\<close>, both in \<open>crdt/server_state.rs\<close>), at the tail of the log or by rebuilding the
  state from its anchor: the founding op of a self-certifying id (\<open>crdt/anchor.rs\<close>), or the
  owner's latest checkpoint. What is refused for lack of context is held and judged again. Devices
  that were apart compare logs by state vector (\<open>crdt/sync.rs\<close>) or by range digests
  (\<open>crdt/digest.rs\<close>), asked for through a book of asks (\<open>node/op_sync.rs\<close>); a log with gaps is
  fetched whole, page by page (\<open>node/crdt_resync.rs\<close>). Ids of devices are resolved to the master
  identity by tables (\<open>node/resolver.rs\<close>) filled from the rosters (\<open>identity/roster.rs\<close>).

  \<^bold>\<open>Conventions.\<close> A struct is a record and an enum a datatype, with the source's names (suffixed or
  prefixed where HOL has the name already); \<open>u64\<close> and \<open>u32\<close> are \<open>64 word\<close> and \<open>32 word\<close>, \<open>i64\<close> an
  integer with the saturation written out, \<open>usize\<close> of a length a natural number; a \<open>String\<close> is the
  list of its bytes. A \<open>HashMap\<close> is an association list with distinct keys, a \<open>BTreeMap\<close> one in
  key order. \<open>&mut self\<close> is state passing, \<open>Result\<close> a sum (\<open>Inl\<close> the error), a panic \<open>None\<close>. Wall
  clocks, monotonic clocks and random bytes are arguments. Code of crates is a field of a record
  that every definition using it takes: \<open>crypto\<close> (hashes, Ed25519, X25519, AES-GCM, HKDF, hex,
  base58, base64), \<open>env\<close> (serde's JSON and the resolver), \<open>cred_env\<close> (RSA), \<open>fold_env\<close>,
  \<open>digest_env\<close>, \<open>op_sync_env\<close>, \<open>roster_env\<close>. What the code relies on of them is a named hypothesis
  (\<open>encoding_laws\<close>, \<open>signature_laws\<close>, \<open>box_laws\<close>, \<open>json_wf\<close> and round trips stated in place); each
  theorem with such a hypothesis has a witness with concrete functions for the fields.

  \<^bold>\<open>Theories.\<close>
  \<^item> \<open>Prelude\<close>, \<open>HashMap\<close>, \<open>BTreeMap\<close>, \<open>Slices\<close>: the standard library the code calls; the contract
    \<open>keyed_map\<close> holds of both maps; \<open>binary_search\<close> and the stable sort are the source's loops.
  \<^item> \<open>Identity\<close> (\<open>identity/native_identity.rs\<close>, \<open>node/sealed_box.rs\<close>): key pairs, peer ids, sealed
    boxes; what is sealed opens for the holder of the secret.
  \<^item> \<open>Anchor\<close> (\<open>crdt/anchor.rs\<close>, \<open>crdt/mod.rs\<close>): server ids and field grammars.
  \<^item> \<open>Hlc\<close> (\<open>crdt/hlc.rs\<close>): the clock. The contract \<open>ticking_clock\<close> gives that stamps increase over
    any history, and lanes that sibling devices never mint the same one.
  \<^item> \<open>AdminLww\<close> (\<open>crdt/admin_lww.rs\<close>): registers; \<open>max_register\<close> and \<open>register_store\<close> give
    convergence of writes in any order.
  \<^item> \<open>JoinLock\<close> (\<open>node/join_lock.rs\<close>), \<open>LockState\<close> (\<open>crdt/lock_state.rs\<close>): chains of links, what a
    verified chain says, minted chains verify, and the bounds of a replica's copy.
  \<^item> \<open>Operations\<close>, \<open>Roles\<close>, \<open>AuthorProof\<close> (\<open>crdt/operations.rs\<close>): payloads, signing, the check of the
    author proof, the tolerant parse, roles.
  \<^item> \<open>SupportCreds\<close> (\<open>node/support_creds.rs\<close>, \<open>node/support_rsa.rs\<close>): credentials of a profile.
  \<^item> \<open>ServerState\<close>, \<open>PayloadApply\<close>, \<open>Authority\<close>, \<open>OpLog\<close> (\<open>crdt/server_state.rs\<close>, the gate of
    \<open>node/twitch.rs\<close>): the state and its queries, one definition per arm of \<open>apply_payload\<close>, the
    matrix \<open>op_allowed\<close>, the log with authoring, founding and restoring.
  \<^item> \<open>Fold\<close> (\<open>crdt/fold.rs\<close>): ingest, held ops, rebuild, checkpoints, join snapshots.
  \<^item> \<open>StateInv\<close>, \<open>FoldInv\<close>, \<open>FoldProps\<close>, \<open>FoldAnchor\<close>, \<open>Founding\<close>, \<open>Runs\<close>: the invariant. The locale
    \<open>judged_replay\<close> is what the log relies on of a judged step; interpreted on the model it gives
    that an anchored replica is the judged fold of its log. \<open>reachable\<close> is the relation of all runs
    of a replica (founding or joining, then ingests, authored ops and refolds in any order).
  \<^item> \<open>FoldTheorems\<close>, \<open>Anchoring\<close>, \<open>AuthorityProps\<close>, \<open>Members\<close>: the fold's promises (what enters,
    agreement of replicas, a joiner reaches the founder, the owner's checkpoint anchors, bounds of
    the queues, authoring returns), nobody acts or rises beyond their rank, at most one Owner, and
    \<open>canonicalize_members\<close>.
  \<^item> \<open>Sync\<close>, \<open>Digest\<close>, \<open>DigestProps\<close>, \<open>OpSync\<close>, \<open>OpSyncProps\<close>, \<open>Resync\<close>, \<open>ResyncProps\<close>, \<open>KeptProps\<close>:
    catching up. A digest exchange ends and brings everything the other side holds; the book of
    asks keeps its invariant over the relation \<open>book_reach\<close> of its runs and silence ends every ask;
    a log fetched in pages rebuilds the replica; kept ops are bounded and given up fairly.
  \<^item> \<open>Resolver\<close> (\<open>node/resolver.rs\<close>): links of devices, revocations that stay.
  \<^item> \<open>Roster\<close>, \<open>RosterProps\<close>, \<open>RosterCompact\<close>, \<open>RosterSigned\<close> (\<open>identity/roster.rs\<close>): statements,
    merging, compaction and the fold. The loops compute the least set of devices reached by vouches
    (\<open>vouch_reach\<close>); a removal sticks; the master key alone admits nothing before seven days; every
    operation leaves the compacted form; merging is symmetric; one digest means the same members.
  \<^item> \<open>Vault\<close>, \<open>VaultProps\<close> (\<open>vault/adaptive.rs\<close>, \<open>vault/placement.rs\<close>, \<open>vault/rebalancer.rs\<close>, the repair
    pass of \<open>node/swarm.rs\<close>): where shards go. Placement is the greedy one by distance under the
    members' shares; a repair pass never repairs erasure-coded content; one pledge can make the
    placement panic.
  \<^item> \<open>SafetyNumber\<close> (\<open>crypto/safety_number.rs\<close>): the digits two people compare.

  \<^bold>\<open>Loops and bounds.\<close> Loops are recursive functions with a termination measure (binary search, the
  digest's ranges, paging, the closures of the roster, trimming). The stamp search of \<open>create_op\<close>
  has no bound in the source: it is a partial function into \<open>option\<close>, and that it returns is a
  theorem, under wall readings below \<open>2 ^ 63\<close> ms. Constants have the source's values. The only
  induction on an external budget is over the rounds of a digest exchange, whose number is the
  source's own \<open>MAX_ROUNDS\<close>. Clock theorems ask that the millisecond has not reached the 64-bit
  ceiling, where the source saturates.

  \<^bold>\<open>Reading the theorems.\<close> Convergence is stated for replicas that logged the same ops. Held ops are
  judged again only after the ops \<open>enables_others\<close> lists or a rebuild, so which of two replicas has
  already logged an op can depend on the order of arrival; what a rebuild makes of a set of ops
  cannot. Applying one op is not commutative. Legacy replicas (no anchor) apply ops in arrival
  order and converge only through a checkpoint.

  \<^bold>\<open>Not modelled.\<close>
  \<^item> The primitives and serde, which are crates: parameters, as said above. \<open>ServerState\<close>'s JSON
    is a pair of functions with the laws the properties name.
  \<^item> \<open>node/swarm.rs\<close> and the handlers under \<open>node\<close> (sync, presence, membership, messages, calls,
    files): asynchronous glue between the network, the store and the modelled parts. Their order of
    effects is the runtime's; the calls they make into the state are steps of the run relations.
  \<^item> Network, relay session and WebRTC (\<open>node/ws_client.rs\<close>, \<open>forwarder\<close>), storage (\<open>storage\<close>,
    \<open>crdt/store.rs\<close>), key files and keystores (\<open>identity/keys.rs\<close> and its neighbours): I/O.
  \<^item> MLS and Olm (\<open>crypto/mls_manager.rs\<close>, \<open>crypto/olm_manager.rs\<close>): wrappers of openmls and
    vodozemac around opaque state.
  \<^item> The vault's store, pipeline and erasure coding (\<open>vault/content_store.rs\<close>, \<open>vault/pipeline.rs\<close>,
    \<open>vault/erasure.rs\<close>), images, previews, overlays, archives: codecs, databases and files.
  \<^item> In modelled files: \<open>ServeBudget\<close> of \<open>node/crdt_resync.rs\<close> is a token bucket in floating point,
    its decision an argument; the stored copies of marks and kept ops are store I/O; the blind
    signing of \<open>node/support_rsa.rs\<close> is the RSA crate's; the OAuth and API calls of
    \<open>node/twitch.rs\<close> are HTTP; locks, logging, zeroizing and constant time have no counterpart.
  \<^item> Some decisions without I/O of their own in those directories are not covered: the join lane and
    hold (\<open>node/join_lane.rs\<close>, \<open>node/join_hold.rs\<close>), the call book (\<open>node/call_book.rs\<close>), the commit
    tally of MLS (\<open>crypto/mls_tally.rs\<close>, \<open>crypto/mls_rate.rs\<close>) and the forwarder's layer selection.
    Nothing here rests on them.
  \<^item> The bridge (\<open>api\<close>, \<open>frb_generated.rs\<close>), the tests, the Flutter application, the relay in C++
    and the small services: other programs, or generated.
\<close>

end
